(* ===== verification/Prelude.thy ===== *)
theory Prelude
  imports Main "HOL-Library.Word"
begin

text \<open>
  Shared vocabulary of the development: machine integers of the C++ code, the outcome type
  of a call that may abort the process, raw memory as a list of cells, little-endian object
  representations, and the generic lemmas the components share.
\<close>

section \<open>Machine integers and outcomes\<close>

type_synonym byte = "8 word"
type_synonym size_t = "64 word"

text \<open>
  A call can end the process (\<open>LOG_FATAL\<close> logs and calls \<open>exit(1)\<close>) or run into behaviour the
  C++ standard leaves undefined (a read outside an object, of an indeterminate byte, of a
  boolean that is neither 0 nor 1).  Both are values of the model.
\<close>

datatype fault = Fatal string | UB string

type_synonym 'a result = "fault + 'a"

definition and_then :: "'a result \<Rightarrow> ('a \<Rightarrow> 'b result) \<Rightarrow> 'b result" where
  "and_then r f = (case r of Inl e \<Rightarrow> Inl e | Inr x \<Rightarrow> f x)"

lemma and_then_simps [simp]:
  "and_then (Inl e) f = Inl e"
  "and_then (Inr x) f = f x"
  by (simp_all add: and_then_def)

lemma and_then_Inr_iff: "and_then r f = Inr y \<longleftrightarrow> (\<exists>x. r = Inr x \<and> f x = Inr y)"
  by (auto simp: and_then_def split: sum.splits)

lemma and_then_assoc: "and_then (and_then r f) g = and_then r (\<lambda>x. and_then (f x) g)"
  by (auto simp: and_then_def split: sum.splits)

named_theorems wire_simps \<open>characteristic equations of the marshalling code\<close>

text \<open>The values of a 32-bit \<open>int\<close>, and the truncating remainder of C.\<close>

definition int_range :: "int \<Rightarrow> bool" where
  "int_range i \<longleftrightarrow> - (2 ^ 31) \<le> i \<and> i < 2 ^ 31"

definition c_mod :: "int \<Rightarrow> int \<Rightarrow> int" where
  "c_mod a b = sgn a * (\<bar>a\<bar> mod \<bar>b\<bar>)"

lemma c_mod_nonneg: "0 \<le> a \<Longrightarrow> 0 < b \<Longrightarrow> c_mod a b = a mod b"
  by (cases "a = 0") (simp_all add: c_mod_def)

lemma unat_add_small:
  fixes a b :: size_t
  shows "unat a + unat b < 2 ^ 64 \<Longrightarrow> unat (a + b) = unat a + unat b"
  by (simp add: unat_word_ariths)

lemma unat_of_nat_small: "n < 2 ^ 64 \<Longrightarrow> unat (of_nat n :: size_t) = n"
  by (simp add: unat_of_nat)

lemma unat_size_t_less: "unat (w :: size_t) < 2 ^ 64"
proof -
  have "unat w < 2 ^ LENGTH(64)" by (rule unsigned_less)
  then show ?thesis by simp
qed

section \<open>Little-endian object representations\<close>

fun le_enc :: "nat \<Rightarrow> nat \<Rightarrow> byte list" where
  "le_enc 0 x = []"
| "le_enc (Suc n) x = of_nat x # le_enc n (x div 256)"

fun le_dec :: "byte list \<Rightarrow> nat" where
  "le_dec [] = 0"
| "le_dec (b # bs) = unat b + 256 * le_dec bs"

lemma length_le_enc [simp]: "length (le_enc n x) = n"
  by (induction n arbitrary: x) auto

lemma le_dec_enc: "le_dec (le_enc n x) = x mod 256 ^ n"
proof (induction n arbitrary: x)
  case 0
  then show ?case by simp
next
  case (Suc n)
  have "le_dec (le_enc (Suc n) x) = x mod 256 + 256 * (x div 256 mod 256 ^ n)"
    by (simp add: Suc unat_of_nat)
  also have "\<dots> = x mod (256 * 256 ^ n)"
    by (simp add: mod_mult2_eq)
  finally show ?case by simp
qed

definition size_bytes :: "size_t \<Rightarrow> byte list" where
  "size_bytes w = le_enc 8 (unat w)"

definition size_of_bytes :: "byte list \<Rightarrow> size_t" where
  "size_of_bytes bs = of_nat (le_dec bs)"

definition int_bytes :: "int \<Rightarrow> byte list" where
  "int_bytes i = le_enc 4 (unat (word_of_int i :: 32 word))"

definition int_of_bytes :: "byte list \<Rightarrow> int" where
  "int_of_bytes bs = sint (of_nat (le_dec bs) :: 32 word)"

lemma length_size_bytes [simp]: "length (size_bytes w) = 8"
  by (simp add: size_bytes_def)

lemma length_int_bytes [simp]: "length (int_bytes i) = 4"
  by (simp add: int_bytes_def)

lemma size_of_size_bytes [simp]: "size_of_bytes (size_bytes w) = w"
  using unat_size_t_less [of w] by (simp add: size_of_bytes_def size_bytes_def le_dec_enc)

lemma int_of_int_bytes [simp]:
  assumes "int_range i"
  shows "int_of_bytes (int_bytes i) = i"
proof -
  let ?w = "word_of_int i :: 32 word"
  have "unat ?w < 2 ^ LENGTH(32)" by (rule unsigned_less)
  then have "unat ?w < 256 ^ 4" by simp
  then have "int_of_bytes (int_bytes i) = sint ?w"
    by (simp add: int_of_bytes_def int_bytes_def le_dec_enc)
  also have "\<dots> = i"
    using assms by (simp add: int_range_def signed_of_int signed_take_bit_int_eq_self)
  finally show ?thesis .
qed

text \<open>Characters and bytes.\<close>

definition byte_of :: "char \<Rightarrow> byte" where
  "byte_of c = of_nat (of_char c)"

definition char_of_byte :: "byte \<Rightarrow> char" where
  "char_of_byte b = char_of (unat b)"

lemma char_of_byte_of [simp]: "char_of_byte (byte_of c) = c"
  by (simp add: char_of_byte_def byte_of_def unat_of_nat)

lemma byte_of_char_of_byte [simp]: "byte_of (char_of_byte b) = b"
proof -
  have "unat b < 2 ^ LENGTH(8)" by (rule unsigned_less)
  then show ?thesis by (simp add: char_of_byte_def byte_of_def)
qed

lemma byte_of_eq_0_iff [simp]: "byte_of c = 0 \<longleftrightarrow> c = CHR 0x00"
proof
  assume "byte_of c = 0"
  then have "char_of_byte (byte_of c) = char_of_byte 0" by simp
  then have "c = char_of_byte 0" by (simp only: char_of_byte_of)
  then show "c = CHR 0x00" by (simp add: char_of_byte_def char_of_def)
next
  assume "c = CHR 0x00"
  then show "byte_of c = 0" by (simp add: byte_of_def)
qed

section \<open>Raw memory\<close>

text \<open>
  A block of memory is a list of cells; \<open>None\<close> is an indeterminate byte (freshly obtained from
  \<open>realloc\<close>).  Reads and writes outside the block, and reads of an indeterminate byte, are
  undefined behaviour.
\<close>

type_synonym cells = "byte option list"

definition splice :: "'a list \<Rightarrow> nat \<Rightarrow> 'a list \<Rightarrow> 'a list" where
  "splice xs i ys = take i xs @ ys @ drop (i + length ys) xs"

definition write_cells :: "cells \<Rightarrow> nat \<Rightarrow> byte list \<Rightarrow> cells result" where
  "write_cells cs i bs =
     (if i + length bs \<le> length cs then Inr (splice cs i (map Some bs))
      else Inl (UB ''write outside the block''))"

definition read_cells :: "cells \<Rightarrow> nat \<Rightarrow> nat \<Rightarrow> byte list result" where
  "read_cells cs i n =
     (if i + n \<le> length cs
      then (if None \<in> set (take n (drop i cs)) then Inl (UB ''indeterminate byte'')
            else Inr (map the (take n (drop i cs))))
      else Inl (UB ''read outside the block''))"

lemma length_splice: "i + length ys \<le> length xs \<Longrightarrow> length (splice xs i ys) = length xs"
  by (simp add: splice_def)

lemma take_splice: "i + length ys \<le> length xs \<Longrightarrow> take (i + length ys) (splice xs i ys) = take i xs @ ys"
  by (simp add: splice_def)

lemma read_cells_Some:
  assumes "take n (drop i cs) = map Some bs" and "i + n \<le> length cs"
  shows "read_cells cs i n = Inr bs"
  using assms by (auto simp: read_cells_def comp_def)

section \<open>Threads\<close>

text \<open>What one thread of several contributes, before and after its state has changed.\<close>

lemma sum_thread:
  fixes f :: "'a \<Rightarrow> 'b :: comm_monoid_add" and n :: nat
  assumes "i < n"
  shows "(\<Sum>j<n. f ((g(i := c)) j)) + f (g i) = (\<Sum>j<n. f (g j)) + f c"
proof -
  have i: "i \<in> {..<n}" using assms by simp
  have eq: "(\<Sum>j\<in>{..<n} - {i}. f ((g(i := c)) j)) = (\<Sum>j\<in>{..<n} - {i}. f (g j))"
    by (intro sum.cong) auto
  have "(\<Sum>j<n. f ((g(i := c)) j)) = f c + (\<Sum>j\<in>{..<n} - {i}. f (g j))"
    using sum.remove [OF finite_lessThan i, of "\<lambda>j. f ((g(i := c)) j)"] eq by simp
  then show ?thesis using sum.remove [OF finite_lessThan i, of "\<lambda>j. f (g j)"] by (simp add: ac_simps)
qed

end
