(* ===== verification/Buffer.thy ===== *)
theory Buffer
  imports Prelude
begin

text \<open>
  The marshalling buffer of \<open>include/buffer/buffer.h\<close>: a growing block of memory with a
  length of useful data (advanced by \<open>Add\<close>) and a read offset (advanced by \<open>Get\<close>).  The
  operations follow the code, with \<open>size_t\<close> arithmetic at 64 bits, the allocator as a
  parameter \<open>al\<close> (does a request of that many bytes succeed) and \<open>LOG_FATAL\<close> as a value.
  The abstraction is the byte string written so far (\<open>content\<close>) and its unread rest
  (\<open>unread\<close>); \<open>emits\<close> and \<open>parses\<close> state what a marshaller and an unmarshaller do to them.
\<close>

section \<open>The buffer and its operations\<close>

record buffer =
  buf_size :: size_t
  buf_data :: cells
  buf_length :: size_t
  buf_offset :: size_t

definition BUFFER_BLOCK_SIZE :: size_t where "BUFFER_BLOCK_SIZE = 4096"
definition BUFFER_BLOCK_POW :: nat where "BUFFER_BLOCK_POW = 12"
definition BUFFER_NULL_VAL :: size_t where "BUFFER_NULL_VAL = 0"

definition Buffer_new :: "(size_t \<Rightarrow> bool) \<Rightarrow> buffer result" where
  "Buffer_new al =
     (if al BUFFER_BLOCK_SIZE
      then Inr \<lparr>buf_size = BUFFER_BLOCK_SIZE,
                buf_data = replicate (unat BUFFER_BLOCK_SIZE) (Some 0),
                buf_length = 0, buf_offset = 0\<rparr>
      else Inl (Fatal ''cannot allocate memory''))"

definition realloc_cells :: "size_t \<Rightarrow> cells \<Rightarrow> cells" where
  "realloc_cells n cs = take (unat n) cs @ replicate (unat n - length cs) None"

definition grown_size :: "size_t \<Rightarrow> size_t" where
  "grown_size used =
     push_bit BUFFER_BLOCK_POW (drop_bit BUFFER_BLOCK_POW used) + BUFFER_BLOCK_SIZE"

text \<open>\<open>Add(const T item)\<close>: the item is its object representation \<open>bs\<close>.\<close>

definition Add :: "(size_t \<Rightarrow> bool) \<Rightarrow> byte list \<Rightarrow> buffer \<Rightarrow> buffer result" where
  "Add al bs b =
     (let t_size = of_nat (length bs); used = buf_length b + t_size in
      and_then
        (if buf_size b \<le> used
         then (let n = grown_size used in
               if al n then Inr (b\<lparr>buf_size := n, buf_data := realloc_cells n (buf_data b)\<rparr>)
               else Inl (Fatal ''cannot reallocate memory''))
         else Inr b)
        (\<lambda>b. and_then (write_cells (buf_data b) (unat (buf_length b)) bs)
          (\<lambda>cs. Inr (b\<lparr>buf_data := cs, buf_length := buf_length b + t_size\<rparr>))))"

text \<open>\<open>Add(const T *item, size_t n)\<close>: a null pointer is written as \<open>BUFFER_NULL_VAL\<close>.\<close>

definition Add_ptr :: "(size_t \<Rightarrow> bool) \<Rightarrow> byte list option \<Rightarrow> buffer \<Rightarrow> buffer result" where
  "Add_ptr al item b =
     (case item of None \<Rightarrow> Add al (size_bytes BUFFER_NULL_VAL) b
      | Some bs \<Rightarrow> Add al bs b)"

text \<open>What \<open>strlen\<close> sees of a string: everything before its first NUL.\<close>

definition c_str :: "string \<Rightarrow> byte list" where
  "c_str s = map byte_of (takeWhile (\<lambda>c. c \<noteq> CHR 0x00) s)"

definition AddString :: "(size_t \<Rightarrow> bool) \<Rightarrow> string \<Rightarrow> buffer \<Rightarrow> buffer result" where
  "AddString al s b =
     (let n = of_nat (length (c_str s)) + 1 in
      and_then (Add al (size_bytes n) b) (Add_ptr al (Some (c_str s @ [0]))))"

text \<open>\<open>Get<T>()\<close>, for an object of \<open>n\<close> bytes.\<close>

definition Get :: "nat \<Rightarrow> buffer \<Rightarrow> (byte list \<times> buffer) result" where
  "Get n b =
     (if buf_length b < buf_offset b + of_nat n then Inl (Fatal ''cannot read'')
      else and_then (read_cells (buf_data b) (unat (buf_offset b)) n)
             (\<lambda>bs. Inr (bs, b\<lparr>buf_offset := buf_offset b + of_nat n\<rparr>)))"

text \<open>\<open>Get<char>(size_t n)\<close> returns a pointer into the block, here the index it points at.\<close>

definition Get_ptr :: "size_t \<Rightarrow> buffer \<Rightarrow> (nat \<times> buffer) result" where
  "Get_ptr n b =
     (if buf_length b < buf_offset b + n then Inl (Fatal ''cannot read'')
      else Inr (unat (buf_offset b), b\<lparr>buf_offset := buf_offset b + n\<rparr>))"

text \<open>Constructing a \<open>std::string\<close> from a \<open>char *\<close>: read up to the first NUL.\<close>

fun cstring_at :: "cells \<Rightarrow> string result" where
  "cstring_at [] = Inl (UB ''string runs out of the block'')"
| "cstring_at (None # cs) = Inl (UB ''indeterminate byte'')"
| "cstring_at (Some b # cs) =
     (if b = 0 then Inr ''''
      else and_then (cstring_at cs) (\<lambda>s. Inr (char_of_byte b # s)))"

definition Get_size :: "buffer \<Rightarrow> (size_t \<times> buffer) result" where
  "Get_size b = and_then (Get 8 b) (\<lambda>(bs, b). Inr (size_of_bytes bs, b))"

definition Get_int :: "buffer \<Rightarrow> (int \<times> buffer) result" where
  "Get_int b = and_then (Get 4 b) (\<lambda>(bs, b). Inr (int_of_bytes bs, b))"

definition bool_bytes :: "bool \<Rightarrow> byte list" where
  "bool_bytes x = [if x then 1 else 0]"

definition Get_bool :: "buffer \<Rightarrow> (bool \<times> buffer) result" where
  "Get_bool b = and_then (Get 1 b)
     (\<lambda>(bs, b). if bs = [0] then Inr (False, b) else if bs = [1] then Inr (True, b)
                else Inl (UB ''boolean that is neither 0 nor 1''))"

definition GetString :: "buffer \<Rightarrow> (string \<times> buffer) result" where
  "GetString b =
     and_then (Get_size b) (\<lambda>(n, b).
     and_then (Get_ptr n b) (\<lambda>(p, b).
     and_then (cstring_at (drop p (buf_data b))) (\<lambda>s. Inr (s, b))))"

definition GetBufferSize :: "buffer \<Rightarrow> size_t" where
  "GetBufferSize b = buf_length b"

definition SetBufferSize :: "size_t \<Rightarrow> buffer \<Rightarrow> buffer" where
  "SetBufferSize n b = b\<lparr>buf_length := n\<rparr>"

definition Realloc :: "(size_t \<Rightarrow> bool) \<Rightarrow> size_t \<Rightarrow> buffer \<Rightarrow> buffer result" where
  "Realloc al target b =
     (if buf_size b < target
      then (if al target
            then Inr (b\<lparr>buf_size := target, buf_data := realloc_cells target (buf_data b)\<rparr>)
            else Inl (Fatal ''cannot reallocate memory''))
      else Inr b)"

definition Reset :: "buffer \<Rightarrow> buffer" where
  "Reset b = b\<lparr>buf_data := replicate (length (buf_data b)) (Some 0), buf_length := 0, buf_offset := 0\<rparr>"

section \<open>Abstraction and invariant\<close>

definition buf_ok :: "buffer \<Rightarrow> bool" where
  "buf_ok b \<longleftrightarrow> length (buf_data b) = unat (buf_size b) \<and>
     buf_offset b \<le> buf_length b \<and> buf_length b \<le> buf_size b \<and>
     None \<notin> set (take (unat (buf_length b)) (buf_data b))"

definition content :: "buffer \<Rightarrow> byte list" where
  "content b = map the (take (unat (buf_length b)) (buf_data b))"

definition unread :: "buffer \<Rightarrow> byte list" where
  "unread b = drop (unat (buf_offset b)) (content b)"

definition room :: "buffer \<Rightarrow> nat \<Rightarrow> bool" where
  "room b n \<longleftrightarrow> length (content b) + n \<le> 2 ^ 63"

definition wrote :: "buffer \<Rightarrow> byte list \<Rightarrow> buffer \<Rightarrow> bool" where
  "wrote b bs b' \<longleftrightarrow> buf_ok b' \<and> content b' = content b @ bs \<and> buf_offset b' = buf_offset b"

definition emits :: "(buffer \<Rightarrow> buffer result) \<Rightarrow> byte list \<Rightarrow> bool" where
  "emits f bs \<longleftrightarrow>
     (\<forall>b. buf_ok b \<longrightarrow> room b (length bs) \<longrightarrow> (\<exists>b'. f b = Inr b' \<and> wrote b bs b'))"

definition parses :: "(buffer \<Rightarrow> ('a \<times> buffer) result) \<Rightarrow> byte list \<Rightarrow> 'a \<Rightarrow> bool" where
  "parses f bs x \<longleftrightarrow>
     (\<forall>b rest. buf_ok b \<longrightarrow> unread b = bs @ rest \<longrightarrow>
        (\<exists>b'. f b = Inr (x, b') \<and> buf_ok b' \<and> content b' = content b \<and> unread b' = rest))"

text \<open>What the operations do to the block, under the invariant.\<close>

lemma length_realloc_cells [simp]: "length (realloc_cells n cs) = unat n"
  by (simp add: realloc_cells_def)

lemma take_realloc_cells:
  "m \<le> length cs \<Longrightarrow> m \<le> unat n \<Longrightarrow> take m (realloc_cells n cs) = take m cs"
  by (simp add: realloc_cells_def)

lemma unat_grown_size:
  assumes "unat u + 4096 < 2 ^ 64"
  shows "unat (grown_size u) = unat u div 4096 * 4096 + 4096"
proof -
  let ?q = "drop_bit 12 u"
  have q: "unat ?q = unat u div 4096"
    unfolding unat_drop_bit_eq by (simp add: drop_bit_eq_div)
  have le: "unat u div 4096 * 4096 \<le> unat u" by simp
  have "unat (?q * 4096) = unat u div 4096 * 4096"
    using assms le by (simp add: unat_word_ariths q)
  then show ?thesis
    using assms le
    by (simp add: grown_size_def BUFFER_BLOCK_POW_def BUFFER_BLOCK_SIZE_def
        push_bit_eq_mult unat_add_small mult.commute)
qed

lemma length_content: "buf_ok b \<Longrightarrow> length (content b) = unat (buf_length b)"
  by (simp add: buf_ok_def content_def word_le_nat_alt)

lemma content_cells: "buf_ok b \<Longrightarrow> take (unat (buf_length b)) (buf_data b) = map Some (content b)"
  by (auto simp: buf_ok_def content_def map_idI comp_def)
     (smt (verit) map_idI not_None_eq option.sel)

lemma wrote_trans:
  "wrote b xs b' \<Longrightarrow> wrote b' ys b'' \<Longrightarrow> wrote b (xs @ ys) b''"
  by (simp add: wrote_def)

lemma room_wrote: "room b (n + m) \<Longrightarrow> wrote b bs b' \<Longrightarrow> length bs = n \<Longrightarrow> room b' m"
  by (simp add: room_def wrote_def)

text \<open>The growth step leaves the written bytes alone and makes room for the new ones.\<close>

definition grow :: "(size_t \<Rightarrow> bool) \<Rightarrow> size_t \<Rightarrow> buffer \<Rightarrow> buffer result" where
  "grow al used b =
     (if buf_size b \<le> used
      then (let n = grown_size used in
            if al n then Inr (b\<lparr>buf_size := n, buf_data := realloc_cells n (buf_data b)\<rparr>)
            else Inl (Fatal ''cannot reallocate memory''))
      else Inr b)"

lemma grow_ok:
  assumes b: "buf_ok b" and al: "\<forall>n. al n"
    and used: "buf_length b \<le> used" "unat used + 4096 < 2 ^ 64"
  shows "\<exists>b'. grow al used b = Inr b' \<and> buf_ok b' \<and> content b' = content b \<and>
           buf_length b' = buf_length b \<and> buf_offset b' = buf_offset b \<and>
           unat used < length (buf_data b')"
proof (cases "buf_size b \<le> used")
  case False
  then have "grow al used b = Inr b" by (simp add: grow_def)
  moreover have "unat used < length (buf_data b)"
    using b False by (simp add: buf_ok_def word_le_nat_alt)
  ultimately show ?thesis using b by simp
next
  case True
  let ?n = "grown_size used"
  let ?b' = "b\<lparr>buf_size := ?n, buf_data := realloc_cells ?n (buf_data b)\<rparr>"
  have n: "unat used < unat ?n"
    using used by (simp add: unat_grown_size)
  have keep: "take (unat (buf_length b)) (realloc_cells ?n (buf_data b)) =
      take (unat (buf_length b)) (buf_data b)"
    using b used n by (intro take_realloc_cells) (auto simp: buf_ok_def word_le_nat_alt)
  have "buf_length b \<le> ?n" using used n by (simp add: word_le_nat_alt)
  then have "buf_ok ?b'" using b keep by (simp add: buf_ok_def)
  then show ?thesis using True al keep n by (simp add: grow_def content_def Let_def)
qed

lemma Add_unfold:
  "Add al bs b =
     and_then (grow al (buf_length b + of_nat (length bs)) b)
       (\<lambda>b. and_then (write_cells (buf_data b) (unat (buf_length b)) bs)
          (\<lambda>cs. Inr (b\<lparr>buf_data := cs, buf_length := buf_length b + of_nat (length bs)\<rparr>)))"
  by (auto simp: Add_def grow_def Let_def)

lemma write_ok:
  assumes b: "buf_ok b" and fits: "unat (buf_length b) + length bs < length (buf_data b)"
  defines "b' \<equiv> b\<lparr>buf_data := splice (buf_data b) (unat (buf_length b)) (map Some bs),
                  buf_length := buf_length b + of_nat (length bs)\<rparr>"
  shows "wrote b bs b'"
proof -
  let ?l = "unat (buf_length b)"
  have small: "?l + length bs < 2 ^ 64"
    using fits b unat_size_t_less [of "buf_size b"] by (simp add: buf_ok_def)
  then have l': "unat (buf_length b + of_nat (length bs)) = ?l + length bs"
    by (simp add: unat_add_small unat_of_nat_small)
  have t: "take (?l + length bs) (buf_data b') = take ?l (buf_data b) @ map Some bs"
    using fits take_splice [of ?l "map Some bs" "buf_data b"] by (simp add: b'_def)
  have lens: "length (buf_data b') = length (buf_data b)"
    using fits by (simp add: b'_def length_splice)
  have "buf_ok b'"
    using b t lens fits l' unfolding buf_ok_def
    by (auto simp: b'_def word_le_nat_alt)
  moreover have "content b' = content b @ bs"
    using t l' by (simp add: content_def b'_def comp_def)
  ultimately show ?thesis by (simp add: wrote_def b'_def)
qed

lemma emits_Add:
  assumes al: "\<forall>n. al n"
  shows "emits (Add al bs) bs"
  unfolding emits_def
proof (intro allI impI)
  fix b assume b: "buf_ok b" and r: "room b (length bs)"
  let ?used = "buf_length b + of_nat (length bs)"
  have bound: "unat (buf_length b) + length bs \<le> 2 ^ 63"
    using r b by (simp add: room_def length_content)
  then have used: "unat ?used = unat (buf_length b) + length bs"
    by (simp add: unat_add_small unat_of_nat_small)
  then obtain b1 where b1: "grow al ?used b = Inr b1" "buf_ok b1" "content b1 = content b"
      "buf_length b1 = buf_length b" "buf_offset b1 = buf_offset b"
      "unat ?used < length (buf_data b1)"
    using grow_ok [OF b al, of ?used] bound by (auto simp: word_le_nat_alt)
  then have "unat (buf_length b1) + length bs < length (buf_data b1)"
    using used by simp
  then show "\<exists>b'. Add al bs b = Inr b' \<and> wrote b bs b'"
    using b1 write_ok [OF b1(2), of bs]
    by (auto simp: Add_unfold write_cells_def wrote_def)
qed

text \<open>Marshallers compose.\<close>

lemma emits_then:
  assumes f: "emits f xs" and g: "emits g ys"
  shows "emits (\<lambda>b. and_then (f b) g) (xs @ ys)"
  unfolding emits_def
proof (intro allI impI)
  fix b assume b: "buf_ok b" and r: "room b (length (xs @ ys))"
  then have "room b (length xs)" by (simp add: room_def)
  then obtain b1 where b1: "f b = Inr b1" "wrote b xs b1"
    using f b by (auto simp: emits_def)
  have "buf_ok b1" using b1(2) by (simp add: wrote_def)
  moreover have "room b1 (length ys)"
    using room_wrote [OF _ b1(2)] r by simp
  ultimately obtain b2 where "g b1 = Inr b2" "wrote b1 ys b2"
    using g by (auto simp: emits_def)
  then show "\<exists>b'. and_then (f b) g = Inr b' \<and> wrote b (xs @ ys) b'"
    using b1 wrote_trans by auto
qed

lemma emits_Inr: "emits Inr []"
  by (simp add: emits_def wrote_def)

lemma emits_Add_ptr: "\<forall>n. al n \<Longrightarrow> emits (Add_ptr al (Some bs)) bs"
  using emits_Add [of al bs] by (simp add: emits_def Add_ptr_def)

definition string_bytes :: "string \<Rightarrow> byte list" where
  "string_bytes s = size_bytes (of_nat (length (c_str s)) + 1) @ c_str s @ [0]"

lemma emits_AddString: "\<forall>n. al n \<Longrightarrow> emits (AddString al s) (string_bytes s)"
  unfolding AddString_def Let_def string_bytes_def
  by (intro emits_then emits_Add emits_Add_ptr)

lemmas emits_intros = emits_then emits_Add emits_Add_ptr emits_AddString emits_Inr

text \<open>Unmarshallers compose.\<close>

lemma parsesD:
  "parses f bs x \<Longrightarrow> buf_ok b \<Longrightarrow> unread b = bs @ rest \<Longrightarrow>
     \<exists>b'. f b = Inr (x, b') \<and> buf_ok b' \<and> content b' = content b \<and> unread b' = rest"
  by (auto simp: parses_def)

lemma parses_bind:
  assumes f: "parses f xs x" and g: "parses (g x) ys y"
  shows "parses (\<lambda>b. and_then (f b) (\<lambda>(x, b). g x b)) (xs @ ys) y"
  unfolding parses_def
proof (intro allI impI)
  fix b rest assume b: "buf_ok b" and u: "unread b = (xs @ ys) @ rest"
  then obtain b1 where b1: "f b = Inr (x, b1)" "buf_ok b1" "content b1 = content b"
      "unread b1 = ys @ rest"
    using parsesD [OF f b, of "ys @ rest"] by auto
  then obtain b2 where "g x b1 = Inr (y, b2)" "buf_ok b2" "content b2 = content b1"
      "unread b2 = rest"
    using parsesD [OF g] by blast
  then show "\<exists>b'. and_then (f b) (\<lambda>(x, b). g x b) = Inr (y, b') \<and> buf_ok b' \<and>
      content b' = content b \<and> unread b' = rest"
    using b1 by simp
qed

lemma parses_return: "parses (\<lambda>b. Inr (x, b)) [] x"
  by (simp add: parses_def)

lemma parses_map:
  assumes "parses f xs x"
  shows "parses (\<lambda>b. and_then (f b) (\<lambda>(x, b). Inr (h x, b))) xs (h x)"
  using parses_bind [where g = "\<lambda>x b. Inr (h x, b)", OF assms parses_return] by simp

lemma unread_bounds:
  assumes b: "buf_ok b" and u: "unread b = bs @ rest"
  shows "unat (buf_offset b) + length bs \<le> unat (buf_length b)"
    and "unat (buf_offset b + of_nat (length bs)) = unat (buf_offset b) + length bs"
    and "take (length bs) (drop (unat (buf_offset b)) (buf_data b)) = map Some bs"
proof -
  have len: "length (unread b) = unat (buf_length b) - unat (buf_offset b)"
    using b by (simp add: unread_def length_content)
  have ol: "unat (buf_offset b) \<le> unat (buf_length b)"
    using b by (simp add: buf_ok_def word_le_nat_alt)
  show le: "unat (buf_offset b) + length bs \<le> unat (buf_length b)"
    using len u ol by simp
  have small: "unat (buf_offset b) + length bs < 2 ^ 64"
    using le unat_size_t_less [of "buf_length b"] by simp
  show "unat (buf_offset b + of_nat (length bs)) = unat (buf_offset b) + length bs"
    using small by (simp add: unat_add_small unat_of_nat_small)
  have "take (length bs) (drop (unat (buf_offset b)) (buf_data b)) =
      take (length bs) (drop (unat (buf_offset b)) (take (unat (buf_length b)) (buf_data b)))"
    using le by (simp add: drop_take min_def)
  also have "\<dots> = map Some (take (length bs) (unread b))"
    using content_cells [OF b] by (simp add: unread_def drop_map take_map)
  finally show "take (length bs) (drop (unat (buf_offset b)) (buf_data b)) = map Some bs"
    using u by simp
qed

text \<open>Advancing the offset over \<open>bs\<close>.\<close>

lemma advance_ok:
  assumes b: "buf_ok b" and u: "unread b = bs @ rest"
  defines "b' \<equiv> b\<lparr>buf_offset := buf_offset b + of_nat (length bs)\<rparr>"
  shows "buf_ok b' \<and> content b' = content b \<and> unread b' = rest"
proof -
  note bounds = unread_bounds [OF b u]
  have "buf_ok b'"
    using b bounds by (simp add: buf_ok_def b'_def word_le_nat_alt)
  moreover have "content b' = content b" by (simp add: content_def b'_def)
  moreover have "unread b' = rest"
  proof -
    have "unread b' = drop (length bs) (unread b)"
      using bounds by (simp add: unread_def content_def b'_def add.commute)
    then show ?thesis using u by simp
  qed
  ultimately show ?thesis by simp
qed

lemma parses_Get: "length bs = n \<Longrightarrow> parses (Get n) bs bs"
  unfolding parses_def
proof (intro allI impI)
  fix b rest assume n: "length bs = n" and b: "buf_ok b" and u: "unread b = bs @ rest"
  note bounds = unread_bounds [OF b u]
  have "\<not> buf_length b < buf_offset b + of_nat n"
    using bounds n by (simp add: word_less_nat_alt not_less)
  moreover have "read_cells (buf_data b) (unat (buf_offset b)) n = Inr bs"
    using bounds b n by (intro read_cells_Some) (auto simp: buf_ok_def word_le_nat_alt)
  ultimately have "Get n b = Inr (bs, b\<lparr>buf_offset := buf_offset b + of_nat n\<rparr>)"
    by (simp add: Get_def)
  then show "\<exists>b'. Get n b = Inr (bs, b') \<and> buf_ok b' \<and> content b' = content b \<and> unread b' = rest"
    using advance_ok [OF b u] n by auto
qed

lemma parses_Get_size: "parses Get_size (size_bytes w) w"
  using parses_map [OF parses_Get [of "size_bytes w" 8], of size_of_bytes]
  by (simp add: Get_size_def [abs_def])

lemma parses_Get_int: "int_range i \<Longrightarrow> parses Get_int (int_bytes i) i"
  using parses_map [OF parses_Get [of "int_bytes i" 4], of int_of_bytes]
  by (simp add: Get_int_def [abs_def])

lemma parses_Get_bool: "parses Get_bool (bool_bytes x) x"
proof -
  let ?g = "\<lambda>bs (b :: buffer). if bs = [0] then Inr (False, b) else if bs = [1] then Inr (True, b)
                else Inl (UB ''boolean that is neither 0 nor 1'')"
  have "parses (?g (bool_bytes x)) [] x"
    by (simp add: parses_def bool_bytes_def)
  with parses_Get [of "bool_bytes x" 1]
  have "parses (\<lambda>b. and_then (Get 1 b) (\<lambda>(bs, b). ?g bs b)) (bool_bytes x @ []) x"
    by (intro parses_bind) (auto simp: bool_bytes_def)
  then show ?thesis by (simp add: Get_bool_def [abs_def])
qed

text \<open>Strings: a string without NUL is read back whole.\<close>

definition string_ok :: "string \<Rightarrow> bool" where
  "string_ok s \<longleftrightarrow> CHR 0x00 \<notin> set s"

lemma c_str_ok: "string_ok s \<Longrightarrow> c_str s = map byte_of s"
  by (auto simp: c_str_def string_ok_def takeWhile_eq_all_conv intro!: arg_cong [where f = "map byte_of"])

lemma cstring_at_nul:
  "0 \<notin> set bs \<Longrightarrow> cstring_at (map Some (bs @ [0]) @ cs) = Inr (map char_of_byte bs)"
  by (induction bs) auto

lemma Get_ptr_ok:
  assumes b: "buf_ok b" and u: "unread b = bs @ rest"
  shows "\<exists>b' cs. Get_ptr (of_nat (length bs)) b = Inr (unat (buf_offset b), b') \<and>
           drop (unat (buf_offset b)) (buf_data b') = map Some bs @ cs \<and>
           buf_ok b' \<and> content b' = content b \<and> unread b' = rest"
proof -
  note bounds = unread_bounds [OF b u]
  have "\<not> buf_length b < buf_offset b + of_nat (length bs)"
    using bounds by (simp add: word_less_nat_alt not_less)
  moreover have "drop (unat (buf_offset b)) (buf_data b) =
      map Some bs @ drop (length bs) (drop (unat (buf_offset b)) (buf_data b))"
    using bounds(3) by (metis append_take_drop_id)
  ultimately show ?thesis
    using advance_ok [OF b u] by (auto simp: Get_ptr_def)
qed

lemma parses_GetString:
  assumes s: "string_ok s"
  shows "parses GetString (string_bytes s) s"
  unfolding parses_def
proof (intro allI impI)
  fix b rest assume b: "buf_ok b" and u: "unread b = string_bytes s @ rest"
  let ?n = "of_nat (length (c_str s)) + 1 :: size_t" and ?bs = "c_str s @ [0]"
  have nbs: "?n = of_nat (length ?bs)" by simp
  from u have "unread b = size_bytes ?n @ (?bs @ rest)" by (simp add: string_bytes_def)
  from parsesD [OF parses_Get_size b this]
  obtain b1 where b1: "Get_size b = Inr (?n, b1)" "buf_ok b1" "content b1 = content b"
      "unread b1 = ?bs @ rest"
    by auto
  from Get_ptr_ok [OF b1(2) b1(4)]
  obtain b2 cs where b2: "Get_ptr ?n b1 = Inr (unat (buf_offset b1), b2)"
      "drop (unat (buf_offset b1)) (buf_data b2) = map Some ?bs @ cs"
      "buf_ok b2" "content b2 = content b1" "unread b2 = rest"
    unfolding nbs by blast
  have "0 \<notin> set (c_str s)" by (auto simp: c_str_def dest!: set_takeWhileD)
  from cstring_at_nul [OF this, of cs] have "cstring_at (map Some ?bs @ cs) = Inr s"
    using s by (simp add: c_str_ok comp_def)
  then show "\<exists>b'. GetString b = Inr (s, b') \<and> buf_ok b' \<and> content b' = content b \<and> unread b' = rest"
    using b1 b2 by (simp add: GetString_def)
qed

lemmas parses_intros = parses_bind parses_return parses_Get_size parses_Get_int parses_Get_bool
  parses_GetString

text \<open>The constructor, \<open>Reset\<close>, \<open>Realloc\<close> and \<open>SetBufferSize\<close>.\<close>

lemma Buffer_new_ok:
  "\<forall>n. al n \<Longrightarrow> \<exists>b. Buffer_new al = Inr b \<and> buf_ok b \<and> content b = [] \<and> unread b = []"
  by (simp add: Buffer_new_def buf_ok_def content_def unread_def)

lemma Reset_ok:
  "buf_ok b \<Longrightarrow> buf_ok (Reset b) \<and> content (Reset b) = [] \<and> unread (Reset b) = []"
  by (simp add: Reset_def buf_ok_def content_def unread_def)

lemma Realloc_ok:
  assumes b: "buf_ok b" and al: "\<forall>n. al n"
  shows "\<exists>b'. Realloc al n b = Inr b' \<and> buf_ok b' \<and> content b' = content b \<and>
           buf_length b' = buf_length b \<and> buf_offset b' = buf_offset b \<and>
           unat n \<le> length (buf_data b')"
proof (cases "buf_size b < n")
  case False
  then have "Realloc al n b = Inr b" by (simp add: Realloc_def)
  moreover have "unat n \<le> length (buf_data b)"
    using b False by (simp add: buf_ok_def word_less_nat_alt)
  ultimately show ?thesis using b by simp
next
  case True
  let ?b' = "b\<lparr>buf_size := n, buf_data := realloc_cells n (buf_data b)\<rparr>"
  have keep: "take (unat (buf_length b)) (realloc_cells n (buf_data b)) =
      take (unat (buf_length b)) (buf_data b)"
    using b True by (intro take_realloc_cells) (auto simp: buf_ok_def word_le_nat_alt word_less_nat_alt)
  have "buf_length b \<le> n" using b True by (auto simp: buf_ok_def)
  then have "buf_ok ?b'" using b keep by (simp add: buf_ok_def)
  then show ?thesis using True al keep by (simp add: Realloc_def content_def)
qed

section \<open>The interface of a serializable object\<close>

text \<open>
  \<open>Serializable\<close> of \<open>api.h\<close>: \<open>Marshal\<close> appends a fixed byte string to a buffer, \<open>Unmarshal\<close> reads
  exactly that byte string back, from a buffer that may hold more.  \<open>ok\<close> marks the objects the
  encoding keeps (strings without NUL, integers in range).
\<close>

locale serializable =
  fixes enc :: "'a \<Rightarrow> byte list"
    and ok :: "'a \<Rightarrow> bool"
    and Marshal :: "(size_t \<Rightarrow> bool) \<Rightarrow> 'a \<Rightarrow> buffer \<Rightarrow> buffer result"
    and Unmarshal :: "buffer \<Rightarrow> ('a \<times> buffer) result"
  assumes emits_Marshal: "ok x \<Longrightarrow> \<forall>n. al n \<Longrightarrow> emits (Marshal al x) (enc x)"
    and parses_Unmarshal: "ok x \<Longrightarrow> parses Unmarshal (enc x) x"
begin

lemma roundtrip:
  assumes "ok x" and "\<forall>n. al n" and "buf_ok b" and "unread b = []" and "room b (length (enc x))"
  shows "\<exists>b1 b2. Marshal al x b = Inr b1 \<and> Unmarshal b1 = Inr (x, b2) \<and> unread b2 = []"
proof -
  obtain b1 where b1: "Marshal al x b = Inr b1" "wrote b (enc x) b1"
    using emits_Marshal [OF assms(1,2)] assms(3,5) by (auto simp: emits_def)
  have "buf_offset b \<le> buf_length b" using assms(3) by (simp add: buf_ok_def)
  then have "unat (buf_offset b) \<le> length (content b)"
    using assms(3) by (simp add: length_content word_le_nat_alt)
  then have "unread b1 = enc x @ []"
    using b1(2) assms(4) by (auto simp: wrote_def unread_def)
  then obtain b2 where "Unmarshal b1 = Inr (x, b2)" "unread b2 = []"
    using parsesD [OF parses_Unmarshal [OF assms(1)], of b1 "[]"] b1(2) by (auto simp: wrote_def)
  then show ?thesis using b1 by auto
qed

end

section \<open>Properties\<close>

lemma grow_size:
  assumes "grow al used b = Inr b'" and "unat used + 4096 < 2 ^ 64"
  shows "unat (buf_size b') =
           (if unat used < unat (buf_size b) then unat (buf_size b)
            else (unat used div 4096 + 1) * 4096)"
  using assms by (auto simp: grow_def Let_def word_le_nat_alt unat_grown_size split: if_splits)

text \<open>\<open>Buffer::Add\<close> appends exactly the object's bytes, never stops the process when memory
  is available, keeps the read offset and the invariant, leaves at least one free byte, and
  changes the capacity only when the data would fill it, then to the next multiple of the
  4096-byte block above the new length.\<close>

theorem Add_appends:
  assumes "buf_ok b" and "room b (length bs)" and "\<forall>n. al n"
  shows "\<exists>b'. Add al bs b = Inr b' \<and> buf_ok b' \<and> content b' = content b @ bs \<and>
     buf_offset b' = buf_offset b \<and>
     (let used = length (content b) + length bs in
      unat (buf_size b') =
        (if used < unat (buf_size b) then unat (buf_size b) else (used div 4096 + 1) * 4096))"
proof -
  obtain b' where b': "Add al bs b = Inr b'" "wrote b bs b'"
    using emits_Add [OF assms(3)] assms(1,2) by (auto simp: emits_def)
  let ?used = "buf_length b + of_nat (length bs) :: size_t"
  have bound: "length (content b) + length bs \<le> 2 ^ 63"
    using assms(2) by (simp add: room_def)
  then have used: "unat ?used = length (content b) + length bs"
    using length_content [OF assms(1)] by (simp add: unat_add_small unat_of_nat_small)
  obtain b1 where b1: "grow al ?used b = Inr b1" "buf_size b' = buf_size b1"
    using b'(1) by (auto simp: Add_unfold and_then_Inr_iff)
  have "unat ?used + 4096 < 2 ^ 64" using used bound by simp
  from grow_size [OF b1(1) this] show ?thesis
    using b' b1(2) used by (simp add: wrote_def Let_def)
qed

definition demo_buffer :: "byte list \<Rightarrow> buffer" where
  "demo_buffer bs = \<lparr>buf_size = 64, buf_data = map Some bs @ replicate (64 - length bs) (Some 0),
     buf_length = of_nat (length bs), buf_offset = 0\<rparr>"

lemma demo_buffer_ok:
  assumes "length bs \<le> 64"
  shows "buf_ok (demo_buffer bs)" and "content (demo_buffer bs) = bs"
    and "unread (demo_buffer bs) = bs"
proof -
  have len: "unat (of_nat (length bs) :: size_t) = length bs"
    using assms by (simp add: unat_of_nat_small)
  show "buf_ok (demo_buffer bs)"
    using assms len by (auto simp: buf_ok_def demo_buffer_def word_le_nat_alt)
  show "content (demo_buffer bs) = bs"
    using len by (simp add: content_def demo_buffer_def comp_def)
  then show "unread (demo_buffer bs) = bs" by (simp add: unread_def) (simp add: demo_buffer_def)
qed

lemma Add_appends_witness:
  "\<exists>b'. Add (\<lambda>_. True) [7, 8] (demo_buffer (replicate 63 1)) = Inr b' \<and>
     content b' = replicate 63 1 @ [7, 8] \<and> unat (buf_size b') = 4096"
  using Add_appends [of "demo_buffer (replicate 63 1)" "[7, 8]" "\<lambda>_. True"]
  by (auto simp: demo_buffer_ok room_def) (simp add: demo_buffer_def)

text \<open>A string whose 8-byte length field holds -8 passes the bounds check of \<open>Get\<close> (the sum
  wraps at 64 bits): \<open>GetString\<close> returns the text and moves the offset back to where it was, so
  the next read starts at the same length field again.\<close>

theorem GetString_forged_length:
  assumes b: "buf_ok b" and u: "unread b = size_bytes (- 8) @ cs @ 0 # rest" and z: "0 \<notin> set cs"
  shows "GetString b = Inr (map char_of_byte cs, b)"
proof -
  let ?b1 = "b\<lparr>buf_offset := buf_offset b + 8\<rparr>"
  note bounds = unread_bounds [OF b u]
  have off: "unat (buf_offset b + 8) = unat (buf_offset b) + 8" using bounds(2) by simp
  have g: "Get_size b = Inr (- 8, ?b1)"
  proof -
    have "\<not> buf_length b < buf_offset b + of_nat 8"
      using bounds off by (simp add: word_less_nat_alt not_less)
    moreover have "read_cells (buf_data b) (unat (buf_offset b)) 8 = Inr (size_bytes (- 8))"
      using bounds b by (intro read_cells_Some) (auto simp: buf_ok_def word_le_nat_alt)
    ultimately show ?thesis by (simp add: Get_size_def Get_def)
  qed
  have ok1: "buf_ok ?b1" "unread ?b1 = (cs @ [0]) @ rest"
    using advance_ok [OF b u] by simp_all
  have "take (length (cs @ [0])) (drop (unat (buf_offset b) + 8) (buf_data b)) = map Some (cs @ [0])"
    using unread_bounds(3) [OF ok1] off by simp
  then have "drop (unat (buf_offset b) + 8) (buf_data b) =
      map Some (cs @ [0]) @ drop (length (cs @ [0])) (drop (unat (buf_offset b) + 8) (buf_data b))"
    by (metis append_take_drop_id)
  with cstring_at_nul [OF z] have s:
    "cstring_at (drop (unat (buf_offset b + 8)) (buf_data b)) = Inr (map char_of_byte cs)"
    unfolding off by metis
  have "\<not> buf_length b < buf_offset b" using b by (simp add: buf_ok_def not_less)
  then show ?thesis using g s by (simp add: GetString_def Get_ptr_def)
qed

lemma GetString_forged_length_witness:
  "GetString (demo_buffer (size_bytes (- 8) @ [104, 105, 0])) =
     Inr (''hi'', demo_buffer (size_bytes (- 8) @ [104, 105, 0]))"
  using GetString_forged_length [of "demo_buffer (size_bytes (- 8) @ [104, 105] @ 0 # [])" "[104, 105]" "[]"]
  by (simp add: demo_buffer_ok char_of_byte_def char_of_def bit_0)

end
