(* ===== verification/Api.thy ===== *)
theory Api
  imports Buffer
begin

text \<open>
  \<open>include/api/api.h\<close> and \<open>src/api/api.cpp\<close>: the status codes, the checkpoint states, the
  routine numbers, and the messages two servers exchange, each with its \<open>Marshal\<close> and
  \<open>Unmarshal\<close>.  Every message class is shown to implement the \<open>serializable\<close> interface.
\<close>

section \<open>Status codes, states and routines\<close>

definition STATUS_SUCCESS :: int where "STATUS_SUCCESS = 0"
definition STATUS_UNKNOWN_ERROR :: int where "STATUS_UNKNOWN_ERROR = 1"
definition STATUS_OOM :: int where "STATUS_OOM = 2"
definition STATUS_NOT_FOUND :: int where "STATUS_NOT_FOUND = 404"

definition IsSuccess :: "int \<Rightarrow> bool" where "IsSuccess code \<longleftrightarrow> code = STATUS_SUCCESS"
definition IsNotFound :: "int \<Rightarrow> bool" where "IsNotFound code \<longleftrightarrow> code = STATUS_NOT_FOUND"
definition IsOOM :: "int \<Rightarrow> bool" where "IsOOM code \<longleftrightarrow> code = STATUS_OOM"

lemmas status_defs = STATUS_SUCCESS_def STATUS_UNKNOWN_ERROR_def STATUS_OOM_def
  STATUS_NOT_FOUND_def IsSuccess_def IsNotFound_def IsOOM_def

text \<open>
  The enumerators, and one constructor for the values a \<open>static_cast\<close> or a decoded message
  can give the enum beside them.
\<close>

datatype CheckpointState = PENDING | CACHED | BACKED_UP | PERSISTENT | BROKEN | OBSOLESCENT
  | STATE_NUM | STATE_ANY | STATE_OTHER int

fun state_code :: "CheckpointState \<Rightarrow> int" where
  "state_code PENDING = 0"
| "state_code CACHED = 1"
| "state_code BACKED_UP = 2"
| "state_code PERSISTENT = 3"
| "state_code BROKEN = 4"
| "state_code OBSOLESCENT = 5"
| "state_code STATE_NUM = 6"
| "state_code STATE_ANY = -1"
| "state_code (STATE_OTHER i) = i"

definition state_of :: "int \<Rightarrow> CheckpointState" where
  "state_of i =
     (if i = 0 then PENDING else if i = 1 then CACHED else if i = 2 then BACKED_UP
      else if i = 3 then PERSISTENT else if i = 4 then BROKEN else if i = 5 then OBSOLESCENT
      else if i = 6 then STATE_NUM else if i = -1 then STATE_ANY else STATE_OTHER i)"

definition state_ok :: "CheckpointState \<Rightarrow> bool" where
  "state_ok s \<longleftrightarrow> state_of (state_code s) = s \<and> int_range (state_code s)"

lemma state_code_of [simp]: "state_code (state_of i) = i"
  by (simp add: state_of_def)

lemma state_ok_named [simp]:
  "state_ok PENDING" "state_ok CACHED" "state_ok BACKED_UP" "state_ok PERSISTENT"
  "state_ok BROKEN" "state_ok OBSOLESCENT" "state_ok STATE_NUM" "state_ok STATE_ANY"
  by (simp_all add: state_ok_def state_of_def int_range_def)

lemma state_ok_of [simp]: "int_range i \<Longrightarrow> state_ok (state_of i)"
  by (simp add: state_ok_def)

text \<open>\<open>CheckpointStateString\<close>: \<open>std::map::operator[]\<close> yields a null pointer for an unknown key.\<close>

fun CheckpointStateString :: "CheckpointState \<Rightarrow> string option" where
  "CheckpointStateString PENDING = Some ''PENDING''"
| "CheckpointStateString CACHED = Some ''CACHED''"
| "CheckpointStateString BACKED_UP = Some ''BACKED_UP''"
| "CheckpointStateString PERSISTENT = Some ''PERSISTENT''"
| "CheckpointStateString BROKEN = Some ''BROKEN''"
| "CheckpointStateString OBSOLESCENT = Some ''OBSOLESCENT''"
| "CheckpointStateString _ = None"

datatype Routine = INTER_NODE_BACKUP | INTER_NODE_LOAD | INTER_NODE_BATCH_LOAD
  | INTER_NODE_NOTIFY_BACKUP

fun routine_code :: "Routine \<Rightarrow> size_t" where
  "routine_code INTER_NODE_BACKUP = 1"
| "routine_code INTER_NODE_LOAD = 2"
| "routine_code INTER_NODE_BATCH_LOAD = 3"
| "routine_code INTER_NODE_NOTIFY_BACKUP = 4"

section \<open>Messages\<close>

record Metadata =
  job_name :: string
  file_name :: string
  node_rank :: int
  iteration :: string
  state :: CheckpointState
  msize :: size_t

record DataEntry =
  address :: size_t
  pid :: int
  memfd :: int

record InterNodeBackupRequest =
  bk_metadata :: Metadata
  bk_data_entry :: DataEntry
  bk_only_metadata :: bool

record InterNodeLoadRequest =
  ld_metadata :: Metadata
  ld_only_metadata :: bool

record InterNodeLoadResponse =
  lr_metadata :: Metadata
  lr_data_entry :: DataEntry
  lr_code :: int

record BatchLoadFilter =
  ft_node_rank :: int
  ft_iteration :: string
  ft_state :: CheckpointState

record InterNodeBatchLoadRequest =
  bl_filter :: BatchLoadFilter
  bl_only_metadata :: bool

record InterNodeBatchLoadResponse =
  br_responses :: "InterNodeLoadResponse list"
  br_code :: int

text \<open>The responses that hold a code only are that code.\<close>

definition new_Metadata :: "string \<Rightarrow> string \<Rightarrow> Metadata" where
  "new_Metadata job file = \<lparr>job_name = job, file_name = file, node_rank = -1,
     iteration = '''', state = PENDING, msize = 0\<rparr>"

definition new_DataEntry :: DataEntry where
  "new_DataEntry = \<lparr>address = 0, pid = 0, memfd = 0\<rparr>"

section \<open>Marshalling\<close>

definition Metadata_Marshal :: "(size_t \<Rightarrow> bool) \<Rightarrow> Metadata \<Rightarrow> buffer \<Rightarrow> buffer result" where
  "Metadata_Marshal al m b =
     and_then (AddString al (job_name m) b) (\<lambda>b.
     and_then (AddString al (file_name m) b) (\<lambda>b.
     and_then (Add al (int_bytes (node_rank m)) b) (\<lambda>b.
     and_then (AddString al (iteration m) b) (\<lambda>b.
     and_then (Add al (int_bytes (state_code (state m))) b) (\<lambda>b.
     Add al (size_bytes (msize m)) b)))))"

definition Metadata_Unmarshal :: "buffer \<Rightarrow> (Metadata \<times> buffer) result" where
  "Metadata_Unmarshal b =
     and_then (GetString b) (\<lambda>(j, b).
     and_then (GetString b) (\<lambda>(f, b).
     and_then (Get_int b) (\<lambda>(r, b).
     and_then (GetString b) (\<lambda>(i, b).
     and_then (Get_int b) (\<lambda>(s, b).
     and_then (Get_size b) (\<lambda>(z, b).
     Inr (\<lparr>job_name = j, file_name = f, node_rank = r, iteration = i,
            state = state_of s, msize = z\<rparr>, b)))))))"

definition DataEntry_Marshal :: "(size_t \<Rightarrow> bool) \<Rightarrow> DataEntry \<Rightarrow> buffer \<Rightarrow> buffer result" where
  "DataEntry_Marshal al e b =
     and_then (Add al (size_bytes (address e)) b) (\<lambda>b.
     and_then (Add al (int_bytes (pid e)) b) (\<lambda>b.
     Add al (int_bytes (memfd e)) b))"

definition DataEntry_Unmarshal :: "buffer \<Rightarrow> (DataEntry \<times> buffer) result" where
  "DataEntry_Unmarshal b =
     and_then (Get_size b) (\<lambda>(a, b).
     and_then (Get_int b) (\<lambda>(p, b).
     and_then (Get_int b) (\<lambda>(f, b).
     Inr (\<lparr>address = a, pid = p, memfd = f\<rparr>, b))))"

definition BackupRequest_Marshal ::
  "(size_t \<Rightarrow> bool) \<Rightarrow> InterNodeBackupRequest \<Rightarrow> buffer \<Rightarrow> buffer result" where
  "BackupRequest_Marshal al r b =
     and_then (Metadata_Marshal al (bk_metadata r) b) (\<lambda>b.
     and_then (DataEntry_Marshal al (bk_data_entry r) b) (\<lambda>b.
     Add al (bool_bytes (bk_only_metadata r)) b))"

definition BackupRequest_Unmarshal :: "buffer \<Rightarrow> (InterNodeBackupRequest \<times> buffer) result" where
  "BackupRequest_Unmarshal b =
     and_then (Metadata_Unmarshal b) (\<lambda>(m, b).
     and_then (DataEntry_Unmarshal b) (\<lambda>(e, b).
     and_then (Get_bool b) (\<lambda>(om, b).
     Inr (\<lparr>bk_metadata = m, bk_data_entry = e, bk_only_metadata = om\<rparr>, b))))"

definition Code_Marshal :: "(size_t \<Rightarrow> bool) \<Rightarrow> int \<Rightarrow> buffer \<Rightarrow> buffer result" where
  "Code_Marshal al c b = Add al (int_bytes c) b"

definition Code_Unmarshal :: "buffer \<Rightarrow> (int \<times> buffer) result" where
  "Code_Unmarshal b = Get_int b"

definition LoadRequest_Marshal ::
  "(size_t \<Rightarrow> bool) \<Rightarrow> InterNodeLoadRequest \<Rightarrow> buffer \<Rightarrow> buffer result" where
  "LoadRequest_Marshal al r b =
     and_then (Metadata_Marshal al (ld_metadata r) b) (\<lambda>b.
     Add al (bool_bytes (ld_only_metadata r)) b)"

definition LoadRequest_Unmarshal :: "buffer \<Rightarrow> (InterNodeLoadRequest \<times> buffer) result" where
  "LoadRequest_Unmarshal b =
     and_then (Metadata_Unmarshal b) (\<lambda>(m, b).
     and_then (Get_bool b) (\<lambda>(om, b).
     Inr (\<lparr>ld_metadata = m, ld_only_metadata = om\<rparr>, b)))"

definition LoadResponse_Marshal ::
  "(size_t \<Rightarrow> bool) \<Rightarrow> InterNodeLoadResponse \<Rightarrow> buffer \<Rightarrow> buffer result" where
  "LoadResponse_Marshal al r b =
     and_then (Metadata_Marshal al (lr_metadata r) b) (\<lambda>b.
     and_then (DataEntry_Marshal al (lr_data_entry r) b) (\<lambda>b.
     Add al (int_bytes (lr_code r)) b))"

definition LoadResponse_Unmarshal :: "buffer \<Rightarrow> (InterNodeLoadResponse \<times> buffer) result" where
  "LoadResponse_Unmarshal b =
     and_then (Metadata_Unmarshal b) (\<lambda>(m, b).
     and_then (DataEntry_Unmarshal b) (\<lambda>(e, b).
     and_then (Get_int b) (\<lambda>(c, b).
     Inr (\<lparr>lr_metadata = m, lr_data_entry = e, lr_code = c\<rparr>, b))))"

definition Filter_Marshal ::
  "(size_t \<Rightarrow> bool) \<Rightarrow> BatchLoadFilter \<Rightarrow> buffer \<Rightarrow> buffer result" where
  "Filter_Marshal al f b =
     and_then (Add al (int_bytes (ft_node_rank f)) b) (\<lambda>b.
     and_then (AddString al (ft_iteration f) b) (\<lambda>b.
     Add al (int_bytes (state_code (ft_state f))) b))"

definition Filter_Unmarshal :: "buffer \<Rightarrow> (BatchLoadFilter \<times> buffer) result" where
  "Filter_Unmarshal b =
     and_then (Get_int b) (\<lambda>(r, b).
     and_then (GetString b) (\<lambda>(i, b).
     and_then (Get_int b) (\<lambda>(s, b).
     Inr (\<lparr>ft_node_rank = r, ft_iteration = i, ft_state = state_of s\<rparr>, b))))"

definition BatchLoadRequest_Marshal ::
  "(size_t \<Rightarrow> bool) \<Rightarrow> InterNodeBatchLoadRequest \<Rightarrow> buffer \<Rightarrow> buffer result" where
  "BatchLoadRequest_Marshal al r b =
     and_then (Filter_Marshal al (bl_filter r) b) (\<lambda>b.
     Add al (bool_bytes (bl_only_metadata r)) b)"

definition BatchLoadRequest_Unmarshal ::
  "buffer \<Rightarrow> (InterNodeBatchLoadRequest \<times> buffer) result" where
  "BatchLoadRequest_Unmarshal b =
     and_then (Filter_Unmarshal b) (\<lambda>(f, b).
     and_then (Get_bool b) (\<lambda>(om, b).
     Inr (\<lparr>bl_filter = f, bl_only_metadata = om\<rparr>, b)))"

text \<open>
  The batch response: a count, then metadata and data entry of each response (not its code),
  then the code of the whole.  \<open>Unmarshal\<close> pushes onto the responses the object already has.
\<close>

fun responses_Marshal ::
  "(size_t \<Rightarrow> bool) \<Rightarrow> InterNodeLoadResponse list \<Rightarrow> buffer \<Rightarrow> buffer result" where
  "responses_Marshal al [] b = Inr b"
| "responses_Marshal al (r # rs) b =
     and_then (Metadata_Marshal al (lr_metadata r) b) (\<lambda>b.
     and_then (DataEntry_Marshal al (lr_data_entry r) b) (\<lambda>b.
     responses_Marshal al rs b))"

fun responses_Unmarshal ::
  "nat \<Rightarrow> buffer \<Rightarrow> (InterNodeLoadResponse list \<times> buffer) result" where
  "responses_Unmarshal 0 b = Inr ([], b)"
| "responses_Unmarshal (Suc n) b =
     and_then (Metadata_Unmarshal b) (\<lambda>(m, b).
     and_then (DataEntry_Unmarshal b) (\<lambda>(e, b).
     and_then (responses_Unmarshal n b) (\<lambda>(rs, b).
     Inr (\<lparr>lr_metadata = m, lr_data_entry = e, lr_code = STATUS_SUCCESS\<rparr> # rs, b))))"

definition BatchLoadResponse_Marshal ::
  "(size_t \<Rightarrow> bool) \<Rightarrow> InterNodeBatchLoadResponse \<Rightarrow> buffer \<Rightarrow> buffer result" where
  "BatchLoadResponse_Marshal al r b =
     and_then (Add al (size_bytes (of_nat (length (br_responses r)))) b) (\<lambda>b.
     and_then (responses_Marshal al (br_responses r) b) (\<lambda>b.
     Add al (int_bytes (br_code r)) b))"

definition BatchLoadResponse_Unmarshal ::
  "InterNodeBatchLoadResponse \<Rightarrow> buffer \<Rightarrow> (InterNodeBatchLoadResponse \<times> buffer) result" where
  "BatchLoadResponse_Unmarshal rsp b =
     and_then (Get_size b) (\<lambda>(n, b).
     and_then (responses_Unmarshal (unat n) b) (\<lambda>(rs, b).
     and_then (Get_int b) (\<lambda>(c, b).
     Inr (\<lparr>br_responses = br_responses rsp @ rs, br_code = c\<rparr>, b))))"

definition new_BatchLoadResponse :: InterNodeBatchLoadResponse where
  "new_BatchLoadResponse = \<lparr>br_responses = [], br_code = STATUS_SUCCESS\<rparr>"

section \<open>Byte encodings of the messages\<close>

definition metadata_bytes :: "Metadata \<Rightarrow> byte list" where
  "metadata_bytes m = string_bytes (job_name m) @ string_bytes (file_name m) @
     int_bytes (node_rank m) @ string_bytes (iteration m) @
     int_bytes (state_code (state m)) @ size_bytes (msize m)"

definition metadata_ok :: "Metadata \<Rightarrow> bool" where
  "metadata_ok m \<longleftrightarrow> string_ok (job_name m) \<and> string_ok (file_name m) \<and>
     int_range (node_rank m) \<and> string_ok (iteration m) \<and> state_ok (state m)"

definition entry_bytes :: "DataEntry \<Rightarrow> byte list" where
  "entry_bytes e = size_bytes (address e) @ int_bytes (pid e) @ int_bytes (memfd e)"

definition entry_ok :: "DataEntry \<Rightarrow> bool" where
  "entry_ok e \<longleftrightarrow> int_range (pid e) \<and> int_range (memfd e)"

definition backup_request_bytes :: "InterNodeBackupRequest \<Rightarrow> byte list" where
  "backup_request_bytes r =
     metadata_bytes (bk_metadata r) @ entry_bytes (bk_data_entry r) @ bool_bytes (bk_only_metadata r)"

definition backup_request_ok :: "InterNodeBackupRequest \<Rightarrow> bool" where
  "backup_request_ok r \<longleftrightarrow> metadata_ok (bk_metadata r) \<and> entry_ok (bk_data_entry r)"

definition load_request_bytes :: "InterNodeLoadRequest \<Rightarrow> byte list" where
  "load_request_bytes r = metadata_bytes (ld_metadata r) @ bool_bytes (ld_only_metadata r)"

definition load_response_bytes :: "InterNodeLoadResponse \<Rightarrow> byte list" where
  "load_response_bytes r =
     metadata_bytes (lr_metadata r) @ entry_bytes (lr_data_entry r) @ int_bytes (lr_code r)"

definition load_response_ok :: "InterNodeLoadResponse \<Rightarrow> bool" where
  "load_response_ok r \<longleftrightarrow>
     metadata_ok (lr_metadata r) \<and> entry_ok (lr_data_entry r) \<and> int_range (lr_code r)"

definition filter_bytes :: "BatchLoadFilter \<Rightarrow> byte list" where
  "filter_bytes f =
     int_bytes (ft_node_rank f) @ string_bytes (ft_iteration f) @ int_bytes (state_code (ft_state f))"

definition filter_ok :: "BatchLoadFilter \<Rightarrow> bool" where
  "filter_ok f \<longleftrightarrow> int_range (ft_node_rank f) \<and> string_ok (ft_iteration f) \<and> state_ok (ft_state f)"

definition batch_request_bytes :: "InterNodeBatchLoadRequest \<Rightarrow> byte list" where
  "batch_request_bytes r = filter_bytes (bl_filter r) @ bool_bytes (bl_only_metadata r)"

definition responses_bytes :: "InterNodeLoadResponse list \<Rightarrow> byte list" where
  "responses_bytes rs =
     concat (map (\<lambda>r. metadata_bytes (lr_metadata r) @ entry_bytes (lr_data_entry r)) rs)"

definition batch_response_bytes :: "InterNodeBatchLoadResponse \<Rightarrow> byte list" where
  "batch_response_bytes r =
     size_bytes (of_nat (length (br_responses r))) @ responses_bytes (br_responses r) @
     int_bytes (br_code r)"

text \<open>The responses of a batch travel without their codes: only successful ones are kept.\<close>

definition batch_response_ok :: "InterNodeBatchLoadResponse \<Rightarrow> bool" where
  "batch_response_ok r \<longleftrightarrow> int_range (br_code r) \<and> length (br_responses r) < 2 ^ 64 \<and>
     list_all (\<lambda>x. metadata_ok (lr_metadata x) \<and> entry_ok (lr_data_entry x) \<and>
       lr_code x = STATUS_SUCCESS) (br_responses r)"

section \<open>Every message implements the interface\<close>

lemma emits_Metadata: "\<forall>n. al n \<Longrightarrow> emits (Metadata_Marshal al m) (metadata_bytes m)"
  unfolding Metadata_Marshal_def metadata_bytes_def by (intro emits_intros)

lemma emits_DataEntry: "\<forall>n. al n \<Longrightarrow> emits (DataEntry_Marshal al e) (entry_bytes e)"
  unfolding DataEntry_Marshal_def entry_bytes_def by (intro emits_intros)

lemma parses_Metadata:
  assumes m: "metadata_ok m"
  shows "parses Metadata_Unmarshal (metadata_bytes m) m"
proof -
  have side: "string_ok (job_name m)" "string_ok (file_name m)" "int_range (node_rank m)"
      "string_ok (iteration m)" "int_range (state_code (state m))"
    using m by (simp_all add: metadata_ok_def state_ok_def)
  have "parses Metadata_Unmarshal
     (string_bytes (job_name m) @ string_bytes (file_name m) @ int_bytes (node_rank m) @
      string_bytes (iteration m) @ int_bytes (state_code (state m)) @ size_bytes (msize m) @ [])
     \<lparr>job_name = job_name m, file_name = file_name m, node_rank = node_rank m,
      iteration = iteration m, state = state_of (state_code (state m)), msize = msize m\<rparr>"
    unfolding Metadata_Unmarshal_def
    by (rule parses_intros side)+
  then show ?thesis
    using m by (cases m) (simp add: metadata_bytes_def metadata_ok_def state_ok_def)
qed

lemma parses_DataEntry:
  assumes e: "entry_ok e"
  shows "parses DataEntry_Unmarshal (entry_bytes e) e"
proof -
  have side: "int_range (pid e)" "int_range (memfd e)"
    using e by (simp_all add: entry_ok_def)
  have "parses DataEntry_Unmarshal
     (size_bytes (address e) @ int_bytes (pid e) @ int_bytes (memfd e) @ [])
     \<lparr>address = address e, pid = pid e, memfd = memfd e\<rparr>"
    unfolding DataEntry_Unmarshal_def
    by (rule parses_intros side)+
  then show ?thesis by (cases e) (simp add: entry_bytes_def)
qed

lemmas message_emits = emits_intros emits_Metadata emits_DataEntry
lemmas message_parses = parses_intros parses_Metadata parses_DataEntry

interpretation metadata: serializable metadata_bytes metadata_ok Metadata_Marshal Metadata_Unmarshal
  by unfold_locales (auto intro: emits_Metadata parses_Metadata)

interpretation entry: serializable entry_bytes entry_ok DataEntry_Marshal DataEntry_Unmarshal
  by unfold_locales (auto intro: emits_DataEntry parses_DataEntry)

lemma emits_BackupRequest:
  "\<forall>n. al n \<Longrightarrow> emits (BackupRequest_Marshal al r) (backup_request_bytes r)"
  unfolding BackupRequest_Marshal_def backup_request_bytes_def by (intro message_emits)

lemma parses_BackupRequest:
  assumes r: "backup_request_ok r"
  shows "parses BackupRequest_Unmarshal (backup_request_bytes r) r"
proof -
  have side: "metadata_ok (bk_metadata r)" "entry_ok (bk_data_entry r)"
    using r by (simp_all add: backup_request_ok_def)
  have "parses BackupRequest_Unmarshal
     (metadata_bytes (bk_metadata r) @ entry_bytes (bk_data_entry r) @
      bool_bytes (bk_only_metadata r) @ [])
     \<lparr>bk_metadata = bk_metadata r, bk_data_entry = bk_data_entry r,
      bk_only_metadata = bk_only_metadata r\<rparr>"
    unfolding BackupRequest_Unmarshal_def
    by (rule message_parses side)+
  then show ?thesis by (cases r) (simp add: backup_request_bytes_def)
qed

interpretation backup_request: serializable backup_request_bytes backup_request_ok
  BackupRequest_Marshal BackupRequest_Unmarshal
  by unfold_locales (auto intro: emits_BackupRequest parses_BackupRequest)

lemma emits_LoadRequest:
  "\<forall>n. al n \<Longrightarrow> emits (LoadRequest_Marshal al r) (load_request_bytes r)"
  unfolding LoadRequest_Marshal_def load_request_bytes_def by (intro message_emits)

lemma parses_LoadRequest:
  assumes r: "metadata_ok (ld_metadata r)"
  shows "parses LoadRequest_Unmarshal (load_request_bytes r) r"
proof -
  have "parses LoadRequest_Unmarshal
     (metadata_bytes (ld_metadata r) @ bool_bytes (ld_only_metadata r) @ [])
     \<lparr>ld_metadata = ld_metadata r, ld_only_metadata = ld_only_metadata r\<rparr>"
    unfolding LoadRequest_Unmarshal_def by (rule message_parses r)+
  then show ?thesis by (cases r) (simp add: load_request_bytes_def)
qed

interpretation load_request: serializable load_request_bytes "\<lambda>r. metadata_ok (ld_metadata r)"
  LoadRequest_Marshal LoadRequest_Unmarshal
  by unfold_locales (auto intro: emits_LoadRequest parses_LoadRequest)

lemma emits_LoadResponse:
  "\<forall>n. al n \<Longrightarrow> emits (LoadResponse_Marshal al r) (load_response_bytes r)"
  unfolding LoadResponse_Marshal_def load_response_bytes_def by (intro message_emits)

lemma parses_LoadResponse:
  assumes r: "load_response_ok r"
  shows "parses LoadResponse_Unmarshal (load_response_bytes r) r"
proof -
  have side: "metadata_ok (lr_metadata r)" "entry_ok (lr_data_entry r)" "int_range (lr_code r)"
    using r by (simp_all add: load_response_ok_def)
  have "parses LoadResponse_Unmarshal
     (metadata_bytes (lr_metadata r) @ entry_bytes (lr_data_entry r) @ int_bytes (lr_code r) @ [])
     \<lparr>lr_metadata = lr_metadata r, lr_data_entry = lr_data_entry r, lr_code = lr_code r\<rparr>"
    unfolding LoadResponse_Unmarshal_def by (rule message_parses side)+
  then show ?thesis by (cases r) (simp add: load_response_bytes_def)
qed

interpretation load_response: serializable load_response_bytes load_response_ok
  LoadResponse_Marshal LoadResponse_Unmarshal
  by unfold_locales (auto intro: emits_LoadResponse parses_LoadResponse)

lemma emits_Filter: "\<forall>n. al n \<Longrightarrow> emits (Filter_Marshal al f) (filter_bytes f)"
  unfolding Filter_Marshal_def filter_bytes_def by (intro message_emits)

lemma parses_Filter:
  assumes f: "filter_ok f"
  shows "parses Filter_Unmarshal (filter_bytes f) f"
proof -
  have side: "int_range (ft_node_rank f)" "string_ok (ft_iteration f)"
      "int_range (state_code (ft_state f))"
    using f by (simp_all add: filter_ok_def state_ok_def)
  have "parses Filter_Unmarshal
     (int_bytes (ft_node_rank f) @ string_bytes (ft_iteration f) @
      int_bytes (state_code (ft_state f)) @ [])
     \<lparr>ft_node_rank = ft_node_rank f, ft_iteration = ft_iteration f,
      ft_state = state_of (state_code (ft_state f))\<rparr>"
    unfolding Filter_Unmarshal_def by (rule message_parses side)+
  then show ?thesis
    using f by (cases f) (simp add: filter_bytes_def filter_ok_def state_ok_def)
qed

lemma emits_BatchLoadRequest:
  "\<forall>n. al n \<Longrightarrow> emits (BatchLoadRequest_Marshal al r) (batch_request_bytes r)"
  unfolding BatchLoadRequest_Marshal_def batch_request_bytes_def
  by (intro message_emits emits_Filter)

lemma parses_BatchLoadRequest:
  assumes r: "filter_ok (bl_filter r)"
  shows "parses BatchLoadRequest_Unmarshal (batch_request_bytes r) r"
proof -
  have "parses BatchLoadRequest_Unmarshal
     (filter_bytes (bl_filter r) @ bool_bytes (bl_only_metadata r) @ [])
     \<lparr>bl_filter = bl_filter r, bl_only_metadata = bl_only_metadata r\<rparr>"
    unfolding BatchLoadRequest_Unmarshal_def by (rule message_parses parses_Filter r)+
  then show ?thesis by (cases r) (simp add: batch_request_bytes_def)
qed

interpretation batch_request: serializable batch_request_bytes "\<lambda>r. filter_ok (bl_filter r)"
  BatchLoadRequest_Marshal BatchLoadRequest_Unmarshal
  by unfold_locales (auto intro: emits_BatchLoadRequest parses_BatchLoadRequest)

text \<open>The repeated part of a batch response, by induction on the responses.\<close>

lemma emits_responses:
  "\<forall>n. al n \<Longrightarrow> emits (responses_Marshal al rs) (responses_bytes rs)"
proof (induction rs)
  case Nil
  then show ?case by (simp add: responses_bytes_def emits_def wrote_def)
next
  case (Cons r rs)
  have eq: "responses_bytes (r # rs) =
      metadata_bytes (lr_metadata r) @ entry_bytes (lr_data_entry r) @ responses_bytes rs"
    by (simp add: responses_bytes_def)
  show ?case
    unfolding eq responses_Marshal.simps by (intro message_emits Cons)
qed

lemma parses_responses:
  assumes "list_all (\<lambda>x. metadata_ok (lr_metadata x) \<and> entry_ok (lr_data_entry x) \<and>
     lr_code x = STATUS_SUCCESS) rs"
  shows "parses (responses_Unmarshal (length rs)) (responses_bytes rs) rs"
  using assms
proof (induction rs)
  case Nil
  then show ?case by (simp add: responses_bytes_def parses_def)
next
  case (Cons r rs)
  then have side: "metadata_ok (lr_metadata r)" "entry_ok (lr_data_entry r)"
    and IH: "parses (responses_Unmarshal (length rs)) (responses_bytes rs) rs"
    and code: "lr_code r = STATUS_SUCCESS"
    by simp_all
  have "parses (responses_Unmarshal (Suc (length rs)))
     (metadata_bytes (lr_metadata r) @ entry_bytes (lr_data_entry r) @ responses_bytes rs @ [])
     (\<lparr>lr_metadata = lr_metadata r, lr_data_entry = lr_data_entry r,
       lr_code = STATUS_SUCCESS\<rparr> # rs)"
    unfolding responses_Unmarshal.simps by (rule message_parses side IH)+
  then show ?case using code
    by (cases r) (simp add: responses_bytes_def del: responses_Unmarshal.simps)
qed

lemma emits_BatchLoadResponse:
  "\<forall>n. al n \<Longrightarrow> emits (BatchLoadResponse_Marshal al r) (batch_response_bytes r)"
  unfolding BatchLoadResponse_Marshal_def batch_response_bytes_def
  by (intro message_emits emits_responses)

lemma parses_BatchLoadResponse:
  assumes r: "batch_response_ok r"
  shows "parses (BatchLoadResponse_Unmarshal new_BatchLoadResponse) (batch_response_bytes r) r"
proof -
  have n: "unat (of_nat (length (br_responses r)) :: size_t) = length (br_responses r)"
    using r by (simp add: batch_response_ok_def unat_of_nat_small)
  have list: "parses (responses_Unmarshal (unat (of_nat (length (br_responses r)) :: size_t)))
      (responses_bytes (br_responses r)) (br_responses r)"
    unfolding n using r by (intro parses_responses) (simp add: batch_response_ok_def)
  have code: "int_range (br_code r)" using r by (simp add: batch_response_ok_def)
  have "parses (BatchLoadResponse_Unmarshal new_BatchLoadResponse)
     (size_bytes (of_nat (length (br_responses r))) @ responses_bytes (br_responses r) @
      int_bytes (br_code r) @ [])
     \<lparr>br_responses = br_responses new_BatchLoadResponse @ br_responses r, br_code = br_code r\<rparr>"
    unfolding BatchLoadResponse_Unmarshal_def by (rule message_parses list code)+
  then show ?thesis
    by (cases r) (simp add: batch_response_bytes_def new_BatchLoadResponse_def)
qed

interpretation batch_response: serializable batch_response_bytes batch_response_ok
  BatchLoadResponse_Marshal "BatchLoadResponse_Unmarshal new_BatchLoadResponse"
  by unfold_locales (auto intro: emits_BatchLoadResponse parses_BatchLoadResponse)

lemma emits_Code: "\<forall>n. al n \<Longrightarrow> emits (Code_Marshal al c) (int_bytes c)"
  unfolding Code_Marshal_def by (intro message_emits)

lemma parses_Code: "int_range c \<Longrightarrow> parses Code_Unmarshal (int_bytes c) c"
  unfolding Code_Unmarshal_def by (rule parses_Get_int)

interpretation code_response: serializable int_bytes int_range Code_Marshal Code_Unmarshal
  by unfold_locales (auto intro: emits_Code parses_Code)

section \<open>Properties\<close>

text \<open>A backup request written into an empty buffer is read back unchanged and completely: its
  strings, its rank, its state, its size, the data entry and the flag.\<close>

theorem backup_request_roundtrip:
  assumes "backup_request_ok r" and "\<forall>n. al n" and "buf_ok b" and "unread b = []"
    and "room b (length (backup_request_bytes r))"
  shows "\<exists>b1 b2. BackupRequest_Marshal al r b = Inr b1 \<and>
     BackupRequest_Unmarshal b1 = Inr (r, b2) \<and> unread b2 = []"
  using assms by (rule backup_request.roundtrip)

definition demo_metadata :: Metadata where
  "demo_metadata = \<lparr>job_name = ''job'', file_name = ''f0'', node_rank = -1, iteration = ''7'',
     state = CACHED, msize = 4096\<rparr>"

definition demo_backup :: InterNodeBackupRequest where
  "demo_backup = \<lparr>bk_metadata = demo_metadata,
     bk_data_entry = \<lparr>address = 0, pid = 11, memfd = -2147483648\<rparr>, bk_only_metadata = True\<rparr>"

lemma length_c_str_le: "length (c_str s) \<le> length s"
  by (simp add: c_str_def length_takeWhile_le)

lemma demo_metadata_ok: "metadata_ok demo_metadata"
  by (simp add: demo_metadata_def metadata_ok_def string_ok_def int_range_def)

lemma demo_metadata_length: "length (metadata_bytes demo_metadata) \<le> 80"
  using length_c_str_le [of "''job''"] length_c_str_le [of "''f0''"] length_c_str_le [of "''7''"]
  by (simp add: metadata_bytes_def demo_metadata_def string_bytes_def)

lemma backup_request_roundtrip_witness:
  "\<exists>b1 b2. BackupRequest_Marshal (\<lambda>_. True) demo_backup (demo_buffer []) = Inr b1 \<and>
     BackupRequest_Unmarshal b1 = Inr (demo_backup, b2) \<and> unread b2 = []"
  using demo_metadata_ok demo_metadata_length
  by (intro backup_request_roundtrip)
     (simp_all add: backup_request_ok_def demo_backup_def entry_ok_def int_range_def
       demo_buffer_ok room_def backup_request_bytes_def entry_bytes_def bool_bytes_def)

text \<open>C38: A batch response keeps the number of its entries, their order, every entry's metadata and
  data entry, and its code; the entries' own codes are not sent and come back as success, which
  is why only successful entries are put in.\<close>

theorem batch_response_roundtrip:
  assumes "batch_response_ok r" and "\<forall>n. al n" and "buf_ok b" and "unread b = []"
    and "room b (length (batch_response_bytes r))"
  shows "\<exists>b1 b2. BatchLoadResponse_Marshal al r b = Inr b1 \<and>
     BatchLoadResponse_Unmarshal new_BatchLoadResponse b1 = Inr (r, b2) \<and> unread b2 = []"
  using assms by (rule batch_response.roundtrip)

definition demo_response :: "string \<Rightarrow> InterNodeLoadResponse" where
  "demo_response f = \<lparr>lr_metadata = demo_metadata\<lparr>file_name := f\<rparr>,
     lr_data_entry = \<lparr>address = 4096, pid = 11, memfd = 3\<rparr>, lr_code = STATUS_SUCCESS\<rparr>"

lemma batch_response_roundtrip_witness:
  "\<exists>b1 b2. BatchLoadResponse_Marshal (\<lambda>_. True)
       \<lparr>br_responses = [demo_response ''f0'', demo_response ''f1''], br_code = STATUS_SUCCESS\<rparr>
       (demo_buffer []) = Inr b1 \<and>
     BatchLoadResponse_Unmarshal new_BatchLoadResponse b1 =
       Inr (\<lparr>br_responses = [demo_response ''f0'', demo_response ''f1''], br_code = STATUS_SUCCESS\<rparr>, b2) \<and>
     unread b2 = []"
  using demo_metadata_ok length_c_str_le [of "''job''"] length_c_str_le [of "''f0''"]
    length_c_str_le [of "''f1''"] length_c_str_le [of "''7''"]
  by (intro batch_response_roundtrip)
     (simp_all add: batch_response_ok_def demo_response_def entry_ok_def int_range_def
       demo_buffer_ok room_def batch_response_bytes_def responses_bytes_def entry_bytes_def
       metadata_ok_def metadata_bytes_def demo_metadata_def string_ok_def string_bytes_def
       STATUS_SUCCESS_def)

end
