(* ===== verification/Channel.thy ===== *)
theory Channel
  imports Prelude "HOL-Library.Multiset"
begin

text \<open>
  The thread-safe channel of \<open>include/util/channel.h\<close>: its operations as single critical
  sections, the blocking iterator (\<open>operator!=\<close> and \<open>operator*\<close> are two critical sections,
  not one), and the system of one producer and any number of consumers that
  \<open>Server::handleNotifyBackup\<close> and \<open>ClientUtil::BatchLoadRemote\<close> build from it, as a step
  relation over all interleavings.
\<close>

section \<open>The channel and its operations\<close>

record 'a channel =
  ch_cap :: nat
  ch_queue :: "'a list"
  ch_size :: nat
  ch_closed :: bool

definition channel_new :: "nat \<Rightarrow> 'a channel" where
  "channel_new capacity = \<lparr>ch_cap = capacity, ch_queue = [], ch_size = 0, ch_closed = False\<rparr>"

definition ch_empty :: "'a channel \<Rightarrow> bool" where
  "ch_empty ch \<longleftrightarrow> ch_size ch = 0"

definition ch_close :: "'a channel \<Rightarrow> 'a channel" where
  "ch_close ch = ch\<lparr>ch_closed := True\<rparr>"

text \<open>\<open>waitBeforeWrite\<close> lets a writer through unless the channel is bounded and full.\<close>

definition write_ready :: "'a channel \<Rightarrow> bool" where
  "write_ready ch \<longleftrightarrow> \<not> (ch_cap ch > 0 \<and> ch_size ch = ch_cap ch)"

definition push_locked :: "'a \<Rightarrow> 'a channel \<Rightarrow> 'a channel" where
  "push_locked x ch = ch\<lparr>ch_queue := ch_queue ch @ [x], ch_size := ch_size ch + 1\<rparr>"

text \<open>\<open>in >> ch\<close>: throws on a closed channel, waits on a full one, else pushes.\<close>

datatype 'a written = Throws_closed | Write_waits | Written "'a channel"

definition ch_write :: "'a \<Rightarrow> 'a channel \<Rightarrow> 'a written" where
  "ch_write x ch =
     (if ch_closed ch then Throws_closed
      else if write_ready ch then Written (push_locked x ch) else Write_waits)"

text \<open>\<open>waitBeforeRead\<close> lets a reader through when there is an element or the channel is closed.\<close>

definition read_ready :: "'a channel \<Rightarrow> bool" where
  "read_ready ch \<longleftrightarrow> \<not> ch_empty ch \<or> ch_closed ch"

text \<open>
  \<open>out << ch\<close>: on a closed and empty channel \<open>out\<close> keeps the value it had (\<open>None\<close>); a pop of
  the empty queue cannot happen while \<open>ch_size\<close> counts it.
\<close>

datatype 'a was_read = Read_waits | Read_result "'a option" "'a channel"

definition ch_read :: "'a channel \<Rightarrow> 'a was_read" where
  "ch_read ch =
     (if ch_closed ch \<and> ch_empty ch then Read_result None ch
      else if \<not> read_ready ch then Read_waits
      else if ch_empty ch then Read_result None ch
      else Read_result (Some (hd (ch_queue ch)))
             (ch\<lparr>ch_queue := tl (ch_queue ch), ch_size := ch_size ch - 1\<rparr>))"

text \<open>\<open>operator!=\<close>: waits, then tells whether the iteration goes on.\<close>

definition iter_test :: "'a channel \<Rightarrow> bool option" where
  "iter_test ch =
     (if read_ready ch then Some (\<not> (ch_closed ch \<and> ch_empty ch)) else None)"

definition ch_ok :: "'a channel \<Rightarrow> bool" where
  "ch_ok ch \<longleftrightarrow> ch_size ch = length (ch_queue ch) \<and> (ch_cap ch > 0 \<longrightarrow> ch_size ch \<le> ch_cap ch)"

lemma ch_ok_new [simp]: "ch_ok (channel_new n)"
  by (simp add: ch_ok_def channel_new_def)

lemma ch_ok_close [simp]: "ch_ok (ch_close ch) = ch_ok ch"
  by (simp add: ch_ok_def ch_close_def)

lemma ch_ok_write: "ch_ok ch \<Longrightarrow> ch_write x ch = Written ch' \<Longrightarrow> ch_ok ch'"
  by (auto simp: ch_ok_def ch_write_def write_ready_def push_locked_def split: if_splits)

lemma ch_ok_read: "ch_ok ch \<Longrightarrow> ch_read ch = Read_result v ch' \<Longrightarrow> ch_ok ch'"
  by (auto simp: ch_ok_def ch_read_def ch_empty_def split: if_splits)

lemma ch_read_keeps:
  "ch_read ch = Read_result v ch' \<Longrightarrow> ch_cap ch' = ch_cap ch \<and> ch_closed ch' = ch_closed ch"
  by (auto simp: ch_read_def split: if_splits)

lemma ch_empty_iff: "ch_ok ch \<Longrightarrow> ch_empty ch \<longleftrightarrow> ch_queue ch = []"
  by (simp add: ch_ok_def ch_empty_def)

section \<open>The queue contract\<close>

text \<open>
  A bounded first-in first-out queue, as its clients see it: \<open>items\<close> is what a reader will get,
  a successful write appends, a successful read takes the oldest item.
\<close>

locale fifo =
  fixes items :: "'c \<Rightarrow> 'a list"
    and ok :: "'c \<Rightarrow> bool"
    and put :: "'a \<Rightarrow> 'c \<Rightarrow> 'c option"
    and get :: "'c \<Rightarrow> ('a \<times> 'c) option"
  assumes put_items: "ok c \<Longrightarrow> put x c = Some c' \<Longrightarrow> items c' = items c @ [x] \<and> ok c'"
    and get_items: "ok c \<Longrightarrow> get c = Some (x, c') \<Longrightarrow> items c = x # items c' \<and> ok c'"
    and get_some: "ok c \<Longrightarrow> items c \<noteq> [] \<Longrightarrow> get c \<noteq> None"
begin

fun put_all :: "'a list \<Rightarrow> 'c \<Rightarrow> 'c option" where
  "put_all [] c = Some c"
| "put_all (x # xs) c = Option.bind (put x c) (put_all xs)"

fun get_n :: "nat \<Rightarrow> 'c \<Rightarrow> ('a list \<times> 'c) option" where
  "get_n 0 c = Some ([], c)"
| "get_n (Suc n) c =
     Option.bind (get c) (\<lambda>(x, c'). map_option (\<lambda>(xs, c''). (x # xs, c'')) (get_n n c'))"

lemma put_all_items: "ok c \<Longrightarrow> put_all xs c = Some c' \<Longrightarrow> items c' = items c @ xs \<and> ok c'"
proof (induction xs arbitrary: c)
  case Nil
  then show ?case by simp
next
  case (Cons x xs)
  then obtain c1 where c1: "put x c = Some c1" "put_all xs c1 = Some c'"
    by (auto simp: bind_eq_Some_conv)
  have c1': "items c1 = items c @ [x]" "ok c1"
    using put_items [OF Cons.prems(1) c1(1)] by auto
  show ?case using Cons.IH [OF c1'(2) c1(2)] c1'(1) by simp
qed

lemma get_n_items:
  "ok c \<Longrightarrow> n \<le> length (items c) \<Longrightarrow>
     \<exists>c'. get_n n c = Some (take n (items c), c') \<and> items c' = drop n (items c) \<and> ok c'"
proof (induction n arbitrary: c)
  case 0
  then show ?case by simp
next
  case (Suc n)
  then have "items c \<noteq> []" by auto
  then obtain x c1 where c1: "get c = Some (x, c1)"
    using get_some [OF Suc.prems(1)] by auto
  then have i: "items c = x # items c1" "ok c1"
    using get_items [OF Suc.prems(1) c1] by auto
  then obtain c' where "get_n n c1 = Some (take n (items c1), c')" "items c' = drop n (items c1)"
      "ok c'"
    using Suc.IH [of c1] Suc.prems by auto
  then show ?case using c1 i by auto
qed

lemma put_all_get_n:
  "ok c \<Longrightarrow> items c = [] \<Longrightarrow> put_all xs c = Some c' \<Longrightarrow>
     \<exists>c''. get_n (length xs) c' = Some (xs, c'') \<and> items c'' = []"
  using put_all_items [of c xs c'] get_n_items [of c' "length xs"] by auto

end

definition ch_put :: "'a \<Rightarrow> 'a channel \<Rightarrow> 'a channel option" where
  "ch_put x ch = (case ch_write x ch of Written ch' \<Rightarrow> Some ch' | _ \<Rightarrow> None)"

definition ch_get :: "'a channel \<Rightarrow> ('a \<times> 'a channel) option" where
  "ch_get ch = (case ch_read ch of Read_result (Some x) ch' \<Rightarrow> Some (x, ch') | _ \<Rightarrow> None)"

interpretation chq: fifo ch_queue ch_ok ch_put ch_get
proof unfold_locales
  fix c c' :: "'a channel" and x
  assume "ch_ok c" "ch_put x c = Some c'"
  then show "ch_queue c' = ch_queue c @ [x] \<and> ch_ok c'"
    by (auto simp: ch_put_def ch_write_def push_locked_def dest: ch_ok_write
        split: written.splits if_splits)
next
  fix c c' :: "'a channel" and x
  assume "ch_ok c" "ch_get c = Some (x, c')"
  then show "ch_queue c = x # ch_queue c' \<and> ch_ok c'"
    by (auto simp: ch_get_def ch_read_def ch_empty_def ch_ok_def
        split: was_read.splits option.splits if_splits)
next
  fix c :: "'a channel"
  assume "ch_ok c" "ch_queue c \<noteq> []"
  then show "ch_get c \<noteq> None"
    by (auto simp: ch_get_def ch_read_def ch_empty_iff read_ready_def)
qed

section \<open>One producer, many consumers\<close>

text \<open>
  The producer thread pushes its items and closes the channel; each consumer runs
  \<open>for (auto x : ch) handle(x)\<close>: test, dereference, handle, and again.  A consumer that
  dereferences a closed and empty channel handles a default-constructed value (\<open>None\<close>).
\<close>

datatype 'a consumer = At_test | At_deref | Handling "'a option" | Finished

record 'a chsys =
  sys_ch :: "'a channel"
  sys_todo :: "'a list"
  sys_cons :: "nat \<Rightarrow> 'a consumer"
  sys_got :: "'a option list"

definition sys_init :: "nat \<Rightarrow> 'a list \<Rightarrow> 'a chsys" where
  "sys_init cap xs = \<lparr>sys_ch = channel_new cap, sys_todo = xs, sys_cons = (\<lambda>_. At_test), sys_got = []\<rparr>"

definition set_cons :: "nat \<Rightarrow> 'a consumer \<Rightarrow> 'a chsys \<Rightarrow> 'a chsys" where
  "set_cons i c s = s\<lparr>sys_cons := (sys_cons s)(i := c)\<rparr>"

inductive ch_step :: "nat \<Rightarrow> 'a chsys \<Rightarrow> 'a chsys \<Rightarrow> bool" for n :: nat where
  produce: "sys_todo s = x # xs \<Longrightarrow> ch_write x (sys_ch s) = Written ch \<Longrightarrow>
     ch_step n s (s\<lparr>sys_ch := ch, sys_todo := xs\<rparr>)"
| finish: "sys_todo s = [] \<Longrightarrow> \<not> ch_closed (sys_ch s) \<Longrightarrow>
     ch_step n s (s\<lparr>sys_ch := ch_close (sys_ch s)\<rparr>)"
| test: "i < n \<Longrightarrow> sys_cons s i = At_test \<Longrightarrow> iter_test (sys_ch s) = Some go \<Longrightarrow>
     ch_step n s (set_cons i (if go then At_deref else Finished) s)"
| deref: "i < n \<Longrightarrow> sys_cons s i = At_deref \<Longrightarrow> ch_read (sys_ch s) = Read_result v ch \<Longrightarrow>
     ch_step n s (set_cons i (Handling v) (s\<lparr>sys_ch := ch\<rparr>))"
| handle: "i < n \<Longrightarrow> sys_cons s i = Handling v \<Longrightarrow>
     ch_step n s (set_cons i At_test (s\<lparr>sys_got := sys_got s @ [v]\<rparr>))"

inductive ch_reach :: "nat \<Rightarrow> nat \<Rightarrow> 'a list \<Rightarrow> 'a chsys \<Rightarrow> bool" for n cap xs where
  start: "ch_reach n cap xs (sys_init cap xs)"
| step: "ch_reach n cap xs s \<Longrightarrow> ch_step n s t \<Longrightarrow> ch_reach n cap xs t"

inductive_cases ch_stepE: "ch_step n s t"

fun held :: "'a consumer \<Rightarrow> 'a multiset" where
  "held (Handling (Some x)) = {#x#}"
| "held _ = {#}"

definition given :: "'a option list \<Rightarrow> 'a list" where
  "given vs = List.map_filter id vs"

lemma given_simps [simp]:
  "given [] = []" "given (vs @ [Some x]) = given vs @ [x]" "given (vs @ [None]) = given vs"
  by (simp_all add: given_def map_filter_def)

definition in_flight :: "nat \<Rightarrow> 'a chsys \<Rightarrow> 'a multiset" where
  "in_flight n s = (\<Sum>i<n. held (sys_cons s i))"

lemma in_flight_set_cons:
  "i < n \<Longrightarrow> in_flight n (set_cons i c s) + held (sys_cons s i) = in_flight n s + held c"
  unfolding in_flight_def set_cons_def by (simp add: sum_thread del: fun_upd_apply)

lemma in_flight_simps [simp]:
  "in_flight n (s\<lparr>sys_ch := ch\<rparr>) = in_flight n s"
  "in_flight n (s\<lparr>sys_todo := xs\<rparr>) = in_flight n s"
  "in_flight n (s\<lparr>sys_got := vs\<rparr>) = in_flight n s"
  by (simp_all add: in_flight_def)

lemma set_cons_simps [simp]:
  "sys_ch (set_cons i c s) = sys_ch s" "sys_todo (set_cons i c s) = sys_todo s"
  "sys_got (set_cons i c s) = sys_got s"
  "sys_cons (set_cons i c s) = (sys_cons s)(i := c)"
  by (simp_all add: set_cons_def)

text \<open>The items are neither lost nor duplicated, and the channel keeps its bound.\<close>

definition conserved :: "nat \<Rightarrow> 'a list \<Rightarrow> 'a chsys \<Rightarrow> bool" where
  "conserved n xs s \<longleftrightarrow> ch_ok (sys_ch s) \<and>
     mset (given (sys_got s)) + in_flight n s + mset (ch_queue (sys_ch s)) + mset (sys_todo s) = mset xs"

lemma ch_write_Written:
  "ch_write x ch = Written ch' \<Longrightarrow> \<not> ch_closed ch \<and> ch' = push_locked x ch"
  by (auto simp: ch_write_def split: if_splits)

lemma ch_read_result:
  "ch_ok ch \<Longrightarrow> ch_read ch = Read_result v ch' \<Longrightarrow>
     (v = None \<and> ch_queue ch = [] \<and> ch_closed ch \<and> ch' = ch) \<or>
     (\<exists>x. v = Some x \<and> ch_queue ch = x # ch_queue ch' \<and> ch_closed ch' = ch_closed ch)"
  by (auto simp: ch_read_def ch_empty_iff read_ready_def split: if_splits)

lemma conserved_init: "conserved n xs (sys_init cap xs)"
  by (simp add: conserved_def sys_init_def in_flight_def channel_new_def ch_ok_def)

lemma conserved_step:
  assumes "ch_step n s t" and "conserved n xs s"
  shows "conserved n xs t"
  using assms
proof (cases rule: ch_step.cases)
  case (produce x ys ch)
  then show ?thesis
    using assms(2) ch_ok_write [of "sys_ch s" x ch] ch_write_Written [of x "sys_ch s" ch]
    by (auto simp: conserved_def push_locked_def)
next
  case finish
  then show ?thesis using assms(2) by (simp add: conserved_def) (simp add: ch_close_def)
next
  case (test i go)
  then show ?thesis
    using assms(2) in_flight_set_cons [of i n "if go then At_deref else Finished" s]
    by (auto simp: conserved_def split: if_splits)
next
  case (deref i v ch)
  have ok: "ch_ok (sys_ch s)" using assms(2) by (simp add: conserved_def)
  show ?thesis
    using deref assms(2) ch_ok_read [OF ok deref(4)] ch_read_result [OF ok deref(4)]
      in_flight_set_cons [of i n "Handling v" "s\<lparr>sys_ch := ch\<rparr>"]
    by (auto simp: conserved_def)
next
  case (handle i v)
  then have "in_flight n s = in_flight n t + held (Handling v)"
    using in_flight_set_cons [of i n At_test "s\<lparr>sys_got := sys_got s @ [v]\<rparr>"] by simp
  then show ?thesis
    using handle assms(2) by (cases v) (simp_all add: conserved_def)
qed

lemma reach_conserved: "ch_reach n cap xs s \<Longrightarrow> conserved n xs s"
  by (induction rule: ch_reach.induct) (auto intro: conserved_init conserved_step)

text \<open>A closed channel has everything; a finished consumer has seen it closed and empty.\<close>

definition drained :: "nat \<Rightarrow> 'a chsys \<Rightarrow> bool" where
  "drained n s \<longleftrightarrow> (ch_closed (sys_ch s) \<longrightarrow> sys_todo s = []) \<and>
     (\<forall>i<n. sys_cons s i = Finished \<longrightarrow> ch_closed (sys_ch s) \<and> ch_queue (sys_ch s) = [])"

lemma iter_test_Some:
  "ch_ok ch \<Longrightarrow> iter_test ch = Some go \<Longrightarrow>
     (go \<and> ch_queue ch \<noteq> []) \<or> (\<not> go \<and> ch_closed ch \<and> ch_queue ch = [])"
  by (auto simp: iter_test_def read_ready_def ch_empty_iff split: if_splits)

lemma drained_step:
  assumes "ch_step n s t" and ok: "ch_ok (sys_ch s)" and "drained n s"
  shows "drained n t"
  using assms(1)
proof (cases rule: ch_step.cases)
  case (produce x ys ch)
  then show ?thesis
    using assms(3) ch_write_Written [of x "sys_ch s" ch]
    by (auto simp: drained_def push_locked_def)
next
  case finish
  then show ?thesis using assms(3) by (auto simp: drained_def ch_close_def)
next
  case (test i go)
  then show ?thesis
    using assms(3) iter_test_Some [OF ok, of go] by (auto simp: drained_def)
next
  case (deref i v ch)
  then show ?thesis
    using assms(3) ch_read_result [OF ok deref(4)] by (auto simp: drained_def)
next
  case (handle i v)
  then show ?thesis using assms(3) by (auto simp: drained_def)
qed

lemma reach_drained: "ch_reach n cap xs s \<Longrightarrow> drained n s"
proof (induction rule: ch_reach.induct)
  case start
  show ?case by (simp add: drained_def sys_init_def channel_new_def)
next
  case (step s t)
  then show ?case
    using drained_step reach_conserved [OF step.hyps(1)] by (auto simp: conserved_def)
qed

text \<open>With one consumer the element seen by the test is still there when it is dereferenced.\<close>

fun held_list :: "'a consumer \<Rightarrow> 'a list" where
  "held_list (Handling (Some x)) = [x]"
| "held_list _ = []"

definition in_order :: "'a list \<Rightarrow> 'a chsys \<Rightarrow> bool" where
  "in_order xs s \<longleftrightarrow>
     (sys_cons s 0 = At_deref \<longrightarrow> ch_queue (sys_ch s) \<noteq> []) \<and>
     sys_cons s 0 \<noteq> Handling None \<and> None \<notin> set (sys_got s) \<and>
     given (sys_got s) @ held_list (sys_cons s 0) @ ch_queue (sys_ch s) @ sys_todo s = xs"

lemma in_order_step:
  assumes "ch_step 1 s t" and ok: "ch_ok (sys_ch s)" and "in_order xs s"
  shows "in_order xs t"
  using assms(1)
proof (cases rule: ch_step.cases)
  case (produce x ys ch)
  then show ?thesis
    using assms(3) ch_write_Written [of x "sys_ch s" ch]
    by (auto simp: in_order_def push_locked_def)
next
  case finish
  then show ?thesis using assms(3) by (auto simp: in_order_def ch_close_def)
next
  case (test i go)
  then show ?thesis
    using assms(3) iter_test_Some [OF ok, of go] by (auto simp: in_order_def)
next
  case (deref i v ch)
  then show ?thesis
    using assms(3) ch_read_result [OF ok deref(4)] by (auto simp: in_order_def)
next
  case (handle i v)
  then show ?thesis using assms(3) by (cases v) (auto simp: in_order_def)
qed

lemma reach_in_order: "ch_reach 1 cap xs s \<Longrightarrow> in_order xs s"
proof (induction rule: ch_reach.induct)
  case start
  show ?case by (simp add: in_order_def sys_init_def channel_new_def)
next
  case (step s t)
  then show ?case
    using in_order_step reach_conserved [OF step.hyps(1)] by (auto simp: conserved_def)
qed

text \<open>Some thread can always move until the producer has closed and every consumer is done.\<close>

lemma consumer_moves:
  assumes r: "read_ready (sys_ch s)" and i: "i < n" "sys_cons s i \<noteq> Finished"
  shows "\<exists>t. ch_step n s t"
proof (cases "sys_cons s i")
  case At_test
  obtain go where "iter_test (sys_ch s) = Some go" using r by (simp add: iter_test_def)
  then show ?thesis using ch_step.test [OF i(1) At_test] by blast
next
  case At_deref
  obtain v ch where "ch_read (sys_ch s) = Read_result v ch"
    using r by (cases "ch_read (sys_ch s)") (auto simp: ch_read_def split: if_splits)
  then show ?thesis using ch_step.deref [OF i(1) At_deref] by blast
next
  case (Handling v)
  then show ?thesis using ch_step.handle [OF i(1)] by blast
qed (use i in simp)

lemma progress:
  assumes ok: "ch_ok (sys_ch s)" and d: "drained n s" and n: "0 < n"
    and go: "\<not> (ch_closed (sys_ch s) \<and> (\<forall>i<n. sys_cons s i = Finished))"
  shows "\<exists>t. ch_step n s t"
proof (cases "ch_closed (sys_ch s)")
  case True
  then obtain i where i: "i < n" "sys_cons s i \<noteq> Finished" using go by auto
  have "read_ready (sys_ch s)" using True by (simp add: read_ready_def)
  then show ?thesis using i by (rule consumer_moves)
next
  case False
  show ?thesis
  proof (cases "sys_todo s")
    case Nil
    then show ?thesis using False by (auto intro: ch_step.finish)
  next
    case (Cons x xs)
    show ?thesis
    proof (cases "write_ready (sys_ch s)")
      case True
      then have "ch_write x (sys_ch s) = Written (push_locked x (sys_ch s))"
        using False by (simp add: ch_write_def)
      then show ?thesis using ch_step.produce [OF Cons] by blast
    next
      case full: False
      then have r: "read_ready (sys_ch s)"
        by (auto simp: write_ready_def read_ready_def ch_empty_def)
      have "sys_cons s 0 \<noteq> Finished" using d n False by (auto simp: drained_def)
      then show ?thesis using consumer_moves [OF r n] by simp
    qed
  qed
qed

lemma ch_cap_step: "ch_step n s t \<Longrightarrow> ch_cap (sys_ch t) = ch_cap (sys_ch s)"
  by (induction rule: ch_step.induct)
     (auto simp: ch_write_def ch_read_def push_locked_def ch_close_def split: if_splits)

lemma reach_cap: "ch_reach n cap xs s \<Longrightarrow> ch_cap (sys_ch s) = cap"
  by (induction rule: ch_reach.induct)
     (auto simp: sys_init_def channel_new_def ch_cap_step)

text \<open>A complete run with one consumer and one item, for the witnesses.\<close>

definition one_item_end :: "'a \<Rightarrow> 'a chsys" where
  "one_item_end x = \<lparr>sys_ch = \<lparr>ch_cap = 0, ch_queue = [], ch_size = 0, ch_closed = True\<rparr>,
     sys_todo = [], sys_cons = (\<lambda>_. At_test)(0 := Finished), sys_got = [Some x]\<rparr>"

lemma one_item_run: "ch_reach 1 0 [x] (one_item_end x)"
proof -
  let ?q = "\<lparr>ch_cap = 0, ch_queue = [x], ch_size = 1, ch_closed = False\<rparr>"
  let ?c = "?q\<lparr>ch_closed := True\<rparr>"
  let ?e = "\<lparr>ch_cap = 0, ch_queue = [], ch_size = 0, ch_closed = True\<rparr>"
  let ?s = "\<lambda>q c got. \<lparr>sys_ch = q, sys_todo = [], sys_cons = (\<lambda>_. At_test)(0 := c), sys_got = got\<rparr>"
  note defs = sys_init_def channel_new_def set_cons_def ch_write_def write_ready_def
    push_locked_def ch_close_def iter_test_def read_ready_def ch_empty_def ch_read_def fun_eq_iff
  have "ch_reach 1 0 [x] (?s ?q At_test [])"
    using ch_reach.step [OF ch_reach.start ch_step.produce [of "sys_init 0 [x]" x "[]" ?q]]
    by (simp add: defs fun_upd_def if_distrib cong: if_cong)
  then have "ch_reach 1 0 [x] (?s ?c At_test [])"
    using ch_step.finish [of "?s ?q At_test []" 1] by (auto simp: defs intro: ch_reach.step)
  then have "ch_reach 1 0 [x] (?s ?c At_deref [])"
    using ch_step.test [of 0 1 "?s ?c At_test []" True] by (auto simp: defs intro: ch_reach.step)
  then have "ch_reach 1 0 [x] (?s ?e (Handling (Some x)) [])"
    using ch_step.deref [of 0 1 "?s ?c At_deref []" "Some x" ?e]
    by (auto simp: defs intro: ch_reach.step)
  then have "ch_reach 1 0 [x] (?s ?e At_test [Some x])"
    using ch_step.handle [of 0 1 "?s ?e (Handling (Some x)) []" "Some x"]
    by (auto simp: defs intro: ch_reach.step)
  then have "ch_reach 1 0 [x] (?s ?e Finished [Some x])"
    using ch_step.test [of 0 1 "?s ?e At_test [Some x]" False]
    by (auto simp: defs intro: ch_reach.step)
  then show ?thesis by (simp add: one_item_end_def)
qed

section \<open>Properties\<close>



text \<open>When all consumers have left their loops, every item has been handled exactly once:
  the task fan-out of the batch operations loses nothing, whatever the interleaving.\<close>

theorem channel_complete:
  assumes r: "ch_reach n cap xs s" and n: "0 < n" and fin: "\<forall>i<n. sys_cons s i = Finished"
  shows "mset (given (sys_got s)) = mset xs"
proof -
  have "in_flight n s = {#}" using fin by (simp add: in_flight_def)
  moreover have "ch_queue (sys_ch s) = []" "sys_todo s = []"
    using reach_drained [OF r] n fin by (auto simp: drained_def)
  ultimately show ?thesis using reach_conserved [OF r] by (simp add: conserved_def)
qed

lemma channel_complete_witness:
  "sys_cons (one_item_end (7::nat)) 0 = Finished \<and> mset (given (sys_got (one_item_end (7::nat)))) = mset [7]"
proof
  have fin: "\<forall>i<1. sys_cons (one_item_end (7::nat)) i = Finished" by (simp add: one_item_end_def)
  then show "sys_cons (one_item_end (7::nat)) 0 = Finished" by simp
  show "mset (given (sys_got (one_item_end (7::nat)))) = mset [7]"
    by (rule channel_complete [OF one_item_run _ fin]) simp
qed

text \<open>With a single consumer (the loader thread of \<open>remoteFileLoader\<close>) the items are
  handled in the order they were sent, and no default-constructed value is ever handled.\<close>

theorem channel_single_consumer_fifo:
  assumes "ch_reach 1 cap xs s"
  shows "None \<notin> set (sys_got s) \<and> (\<exists>rest. given (sys_got s) @ rest = xs)"
  using reach_in_order [OF assms] by (auto simp: in_order_def)

lemma channel_single_consumer_fifo_witness:
  "None \<notin> set (sys_got (one_item_end (7::nat))) \<and> (\<exists>rest. given (sys_got (one_item_end (7::nat))) @ rest = [7])"
  by (rule channel_single_consumer_fifo [OF one_item_run])

text \<open>The test and the dereference of the iterator are two critical sections, so with the
  eight consumers of the batch operations a consumer can handle a default-constructed value:
  two of them pass the test for the same last element.\<close>

theorem channel_race_default_value:
  "\<exists>s. ch_reach 8 0 [x] s \<and> None \<in> set (sys_got s)"
proof -
  let ?q = "\<lparr>ch_cap = 0, ch_queue = [x], ch_size = 1, ch_closed = False\<rparr>"
  let ?c = "?q\<lparr>ch_closed := True\<rparr>"
  let ?e = "\<lparr>ch_cap = 0, ch_queue = [], ch_size = 0, ch_closed = True\<rparr>"
  let ?s = "\<lambda>q cs got. \<lparr>sys_ch = q, sys_todo = [], sys_cons = (\<lambda>_. At_test)(0 := fst cs, 1 := snd cs), sys_got = got\<rparr>"
  note defs = sys_init_def channel_new_def set_cons_def ch_write_def write_ready_def
    push_locked_def ch_close_def iter_test_def read_ready_def ch_empty_def ch_read_def fun_eq_iff
  have "ch_reach 8 0 [x] (?s ?q (At_test, At_test) [])"
    using ch_reach.step [OF ch_reach.start ch_step.produce [of "sys_init 0 [x]" x "[]" ?q]]
    by (simp add: defs fun_upd_def if_distrib cong: if_cong)
  then have "ch_reach 8 0 [x] (?s ?c (At_test, At_test) [])"
    using ch_step.finish [of "?s ?q (At_test, At_test) []" 8] by (auto simp: defs intro: ch_reach.step)
  then have "ch_reach 8 0 [x] (?s ?c (At_deref, At_test) [])"
    using ch_step.test [of 0 8 "?s ?c (At_test, At_test) []" True]
    by (auto simp: defs fun_upd_twist intro: ch_reach.step)
  then have "ch_reach 8 0 [x] (?s ?c (At_deref, At_deref) [])"
    using ch_step.test [of 1 8 "?s ?c (At_deref, At_test) []" True]
    by (auto simp: defs intro: ch_reach.step)
  then have "ch_reach 8 0 [x] (?s ?e (Handling (Some x), At_deref) [])"
    using ch_step.deref [of 0 8 "?s ?c (At_deref, At_deref) []" "Some x" ?e]
    by (auto simp: defs fun_upd_twist intro: ch_reach.step)
  then have "ch_reach 8 0 [x] (?s ?e (Handling (Some x), Handling None) [])"
    using ch_step.deref [of 1 8 "?s ?e (Handling (Some x), At_deref) []" None ?e]
    by (auto simp: defs intro: ch_reach.step)
  then have "ch_reach 8 0 [x] (?s ?e (Handling (Some x), At_test) [None])"
    using ch_step.handle [of 1 8 "?s ?e (Handling (Some x), Handling None) []" None]
    by (auto simp: defs intro: ch_reach.step)
  then show ?thesis by (rule_tac exI, erule_tac conjI) simp
qed

text \<open>In this system, where a thread that waits is one that looks again, the fan-out never
  deadlocks: until the channel is closed and every consumer is done, some thread can move.  What
  sleeping and notifying change is in theory \<open>Wakeups\<close>.\<close>

theorem channel_progress:
  assumes "ch_reach n cap xs s" and "0 < n"
    and "\<not> (ch_closed (sys_ch s) \<and> (\<forall>i<n. sys_cons s i = Finished))"
  shows "\<exists>t. ch_step n s t"
  using progress [OF _ reach_drained [OF assms(1)] assms(2,3)] reach_conserved [OF assms(1)]
  by (simp add: conserved_def)

lemma channel_progress_witness: "\<exists>t. ch_step 8 (sys_init 0 [7::nat]) t"
  by (rule channel_progress [OF ch_reach.start [of 8 0 "[7]"]])
     (simp_all add: sys_init_def channel_new_def)

end
