(* ===== verification/Iterations.thy ===== *)
theory Iterations
  imports Prelude
begin

text \<open>
  The thread-safe deque of \<open>include/util/dequeue.h\<close> and the record of cached iterations built
  on it, \<open>include/config/iteration_manager.h\<close>.  \<open>empty\<close> and \<open>size\<close> take the mutex with
  \<open>try_to_lock\<close> and answer \<open>false\<close> and \<open>0\<close> when another thread holds it: the parameter
  \<open>busy\<close> says whether it does.  Reading the front or back of an empty deque is undefined.
\<close>

section \<open>SafeDeque\<close>

definition dq_push :: "'a \<Rightarrow> 'a list \<Rightarrow> 'a list" where
  "dq_push x q = q @ [x]"

definition dq_try_pop :: "'a list \<Rightarrow> bool \<times> 'a list" where
  "dq_try_pop q = (if q = [] then (False, q) else (True, tl q))"

definition dq_empty :: "bool \<Rightarrow> 'a list \<Rightarrow> bool" where
  "dq_empty busy q = (if busy then False else q = [])"

definition dq_size :: "bool \<Rightarrow> 'a list \<Rightarrow> size_t" where
  "dq_size busy q = (if busy then 0 else of_nat (length q))"

definition dq_front :: "'a list \<Rightarrow> 'a result" where
  "dq_front q = (case q of [] \<Rightarrow> Inl (UB ''front of an empty deque'') | x # _ \<Rightarrow> Inr x)"

definition dq_back :: "'a list \<Rightarrow> 'a result" where
  "dq_back q = (if q = [] then Inl (UB ''back of an empty deque'') else Inr (last q))"

definition dq_isExist :: "'a \<Rightarrow> 'a list \<Rightarrow> bool" where
  "dq_isExist x q = list_ex (\<lambda>v. v = x) q"

section \<open>IterationManager\<close>

record iteration_manager =
  im_queue :: "size_t list"
  im_max :: size_t

definition totalIteration :: "bool \<Rightarrow> iteration_manager \<Rightarrow> size_t" where
  "totalIteration busy im = dq_size busy (im_queue im)"

definition lastIteration :: "bool \<Rightarrow> iteration_manager \<Rightarrow> size_t result" where
  "lastIteration busy im =
     (if \<not> dq_empty busy (im_queue im) then dq_back (im_queue im) else Inr (- 1))"

definition oldestIteration :: "bool \<Rightarrow> iteration_manager \<Rightarrow> size_t result" where
  "oldestIteration busy im =
     (if \<not> dq_empty busy (im_queue im) then dq_front (im_queue im) else Inr (- 1))"

definition deleteOldestIteration :: "bool \<Rightarrow> iteration_manager \<Rightarrow> iteration_manager" where
  "deleteOldestIteration busy im =
     (if \<not> dq_empty busy (im_queue im)
      then im\<lparr>im_queue := snd (dq_try_pop (im_queue im))\<rparr> else im)"

text \<open>\<open>pushIteration\<close> logs the total, the oldest and the last iteration before it pushes.\<close>

definition pushIteration :: "bool \<Rightarrow> size_t \<Rightarrow> iteration_manager \<Rightarrow> iteration_manager result" where
  "pushIteration busy x im =
     and_then (oldestIteration busy im) (\<lambda>_.
     and_then (lastIteration busy im) (\<lambda>_.
     Inr (im\<lparr>im_queue := dq_push x (im_queue im)\<rparr>)))"

definition im_isExist :: "size_t \<Rightarrow> iteration_manager \<Rightarrow> bool" where
  "im_isExist x im = dq_isExist x (im_queue im)"

lemma im_isExist_iff [simp]: "im_isExist x im \<longleftrightarrow> x \<in> set (im_queue im)"
  by (auto simp: im_isExist_def dq_isExist_def list_ex_iff)

lemma pushIteration_free [simp]:
  "pushIteration False x im = Inr (im\<lparr>im_queue := im_queue im @ [x]\<rparr>)"
  by (auto simp: pushIteration_def oldestIteration_def lastIteration_def dq_empty_def
      dq_front_def dq_back_def dq_push_def split: list.splits)

lemma oldestIteration_free:
  "oldestIteration False im =
     Inr (case im_queue im of [] \<Rightarrow> - 1 | x # _ \<Rightarrow> x)"
  by (auto simp: oldestIteration_def dq_empty_def dq_front_def split: list.splits)

lemma deleteOldestIteration_free [simp]:
  "deleteOldestIteration False im = im\<lparr>im_queue := tl (im_queue im)\<rparr>"
  by (cases im) (auto simp: deleteOldestIteration_def dq_empty_def dq_try_pop_def)

lemma totalIteration_free:
  "length (im_queue im) < 2 ^ 64 \<Longrightarrow> unat (totalIteration False im) = length (im_queue im)"
  by (simp add: totalIteration_def dq_size_def unat_of_nat_small)

text \<open>What a window of cached iterations is: distinct and within the limit.\<close>

definition window_ok :: "iteration_manager \<Rightarrow> bool" where
  "window_ok im \<longleftrightarrow> distinct (im_queue im) \<and> length (im_queue im) \<le> unat (im_max im)"

section \<open>Properties\<close>

text \<open>\<open>empty\<close> only tries the mutex and answers \<open>false\<close> when it does not get it, so under
  contention a guarded read of the oldest or last iteration of an empty record reaches
  \<open>front\<close> or \<open>back\<close> of an empty deque, and the total is reported as 0 whatever the record.\<close>

theorem iteration_manager_contended:
  "oldestIteration True (im\<lparr>im_queue := []\<rparr>) = Inl (UB ''front of an empty deque'') \<and>
   lastIteration True (im\<lparr>im_queue := []\<rparr>) = Inl (UB ''back of an empty deque'') \<and>
   totalIteration True im = 0"
  by (simp add: oldestIteration_def lastIteration_def totalIteration_def dq_empty_def
      dq_front_def dq_back_def dq_size_def)

end
