(* ===== verification/RateLimiter.thy ===== *)
theory RateLimiter
  imports Complex_Main Prelude
begin

text \<open>
  The token-bucket rate limiter of \<open>include/operator/rate_limiter.h\<close> and
  \<open>src/operator/rate_limiter.cpp\<close>.  Times are microseconds; \<open>double\<close> values are real numbers
  (every value the server computes with, a rate of 500 and an interval of 2000, is exact);
  the clock is a parameter of every operation.  A grant is the time at which a caller of
  \<open>aquire\<close> gets to go on: its clock reading plus the time it sleeps.
\<close>

section \<open>The limiter\<close>

record rate_limiter =
  rl_interval :: real
  rl_max_permits :: real
  rl_stored_permits :: real
  rl_next_free :: nat

definition rl_new :: rate_limiter where
  "rl_new = \<lparr>rl_interval = 0, rl_max_permits = 0, rl_stored_permits = 0, rl_next_free = 0\<rparr>"

datatype rate_error = Rate_not_positive

definition set_rate :: "real \<Rightarrow> rate_limiter \<Rightarrow> rate_error + rate_limiter" where
  "set_rate rate rl =
     (if rate \<le> 0 then Inl Rate_not_positive else Inr (rl\<lparr>rl_interval := 1000000 / rate\<rparr>))"

definition get_rate :: "rate_limiter \<Rightarrow> real" where
  "get_rate rl = 1000000 / rl_interval rl"

definition rl_sync :: "nat \<Rightarrow> rate_limiter \<Rightarrow> rate_limiter" where
  "rl_sync now rl =
     (if now > rl_next_free rl
      then rl\<lparr>rl_stored_permits := min (rl_max_permits rl)
                (rl_stored_permits rl + real (now - rl_next_free rl) / rl_interval rl),
              rl_next_free := now\<rparr>
      else rl)"

definition claim_next :: "real \<Rightarrow> nat \<Rightarrow> rate_limiter \<Rightarrow> nat \<times> rate_limiter" where
  "claim_next permits now rl =
     (let rl = rl_sync now rl;
          wait = rl_next_free rl - now;
          stored = min permits (rl_stored_permits rl);
          fresh = permits - stored;
          next_free = nat \<lfloor>fresh * rl_interval rl\<rfloor>
      in (wait, rl\<lparr>rl_next_free := rl_next_free rl + next_free,
                   rl_stored_permits := rl_stored_permits rl - stored\<rparr>))"

text \<open>\<open>aquire\<close> returns the time slept, in milliseconds.\<close>

definition aquire :: "int \<Rightarrow> nat \<Rightarrow> rate_limiter \<Rightarrow> (real \<times> rate_limiter) result" where
  "aquire permits now rl =
     (if permits \<le> 0 then Inl (Fatal ''RateLimiter: must request positive amount of permits'')
      else (let (wait, rl') = claim_next (of_int permits) now rl
            in Inr (real wait / 1000, rl')))"

text \<open>\<open>try_aquire(permits, timeout)\<close> reads the clock once itself and once in \<open>aquire\<close>.\<close>

definition try_aquire ::
  "int \<Rightarrow> int \<Rightarrow> nat \<Rightarrow> nat \<Rightarrow> rate_limiter \<Rightarrow> (bool \<times> rate_limiter) result" where
  "try_aquire permits timeout now1 now2 rl =
     (if int (rl_next_free rl) > int now1 + timeout * 1000 then Inr (False, rl)
      else and_then (aquire permits now2 rl) (\<lambda>(_, rl'). Inr (True, rl')))"

text \<open>The one-argument overload passes its argument on as the number of permits.\<close>

definition try_aquire_one :: "int \<Rightarrow> nat \<Rightarrow> nat \<Rightarrow> rate_limiter \<Rightarrow> (bool \<times> rate_limiter) result" where
  "try_aquire_one arg now1 now2 rl = try_aquire arg 0 now1 now2 rl"

section \<open>Grants\<close>

fun grants :: "nat list \<Rightarrow> rate_limiter \<Rightarrow> nat list" where
  "grants [] rl = []"
| "grants (now # nows) rl =
     (let (wait, rl') = claim_next 1 now rl in (now + wait) # grants nows rl')"

definition unit_gap :: "rate_limiter \<Rightarrow> nat" where
  "unit_gap rl = nat \<lfloor>rl_interval rl\<rfloor>"

text \<open>The server never sets \<open>max_permits\<close>, so nothing is ever stored.\<close>

definition no_burst :: "rate_limiter \<Rightarrow> bool" where
  "no_burst rl \<longleftrightarrow> rl_max_permits rl = 0 \<and> rl_stored_permits rl = 0 \<and> rl_interval rl \<ge> 0"

lemma claim_one:
  assumes "no_burst rl"
  shows "claim_next 1 now rl =
    (max now (rl_next_free rl) - now,
     rl\<lparr>rl_next_free := max now (rl_next_free rl) + unit_gap rl\<rparr>)"
  using assms by (simp add: no_burst_def claim_next_def rl_sync_def unit_gap_def Let_def max_def)

lemma no_burst_claim:
  "no_burst rl \<Longrightarrow> no_burst (snd (claim_next 1 now rl)) \<and> unit_gap (snd (claim_next 1 now rl)) = unit_gap rl"
  by (simp add: claim_one) (simp add: no_burst_def unit_gap_def)

lemma grants_after:
  "no_burst rl \<Longrightarrow> j < length nows \<Longrightarrow>
     rl_next_free rl + j * unit_gap rl \<le> grants nows rl ! j"
proof (induction nows arbitrary: rl j)
  case Nil
  then show ?case by simp
next
  case (Cons now nows)
  let ?rl = "rl\<lparr>rl_next_free := max now (rl_next_free rl) + unit_gap rl\<rparr>"
  have nb: "no_burst ?rl" and gap: "unit_gap ?rl = unit_gap rl"
    using Cons.prems(1) by (simp_all add: no_burst_def unit_gap_def)
  show ?case
  proof (cases j)
    case 0
    then show ?thesis using Cons.prems(1) by (simp add: claim_one)
  next
    case (Suc i)
    then have "rl_next_free ?rl + i * unit_gap rl \<le> grants nows ?rl ! i"
      using Cons.IH [OF nb, of i] Cons.prems(2) gap by simp
    then show ?thesis using Suc Cons.prems(1) by (simp add: claim_one)
  qed
qed

lemma grants_spaced:
  "no_burst rl \<Longrightarrow> i < j \<Longrightarrow> j < length nows \<Longrightarrow>
     grants nows rl ! i + (j - i) * unit_gap rl \<le> grants nows rl ! j"
proof (induction nows arbitrary: rl i j)
  case Nil
  then show ?case by simp
next
  case (Cons now nows)
  let ?rl = "rl\<lparr>rl_next_free := max now (rl_next_free rl) + unit_gap rl\<rparr>"
  have nb: "no_burst ?rl" and gap: "unit_gap ?rl = unit_gap rl"
    using Cons.prems(1) by (simp_all add: no_burst_def unit_gap_def)
  obtain j' where j: "j = Suc j'" using Cons.prems(2) by (cases j) auto
  show ?case
  proof (cases i)
    case 0
    have "rl_next_free ?rl + j' * unit_gap rl \<le> grants nows ?rl ! j'"
      using grants_after [OF nb, of j' nows] Cons.prems(3) j gap by simp
    then show ?thesis using 0 j Cons.prems(1) by (simp add: claim_one)
  next
    case (Suc i')
    then show ?thesis
      using Cons.IH [OF nb, of i' j'] Cons.prems j gap by (simp add: claim_one)
  qed
qed

lemma no_burst_set_rate:
  "set_rate rate rl_new = Inr rl \<Longrightarrow> no_burst rl \<and> unit_gap rl = nat \<lfloor>1000000 / rate\<rfloor>"
  by (auto simp: set_rate_def rl_new_def no_burst_def unit_gap_def split: if_splits)

section \<open>Properties\<close>

text \<open>A limiter set to a positive rate never lets two callers through closer together than
  the permit interval, whatever the times (and even if the clock runs backwards): the grants
  numbered \<open>i < j\<close> are at least \<open>(j - i)\<close> intervals apart.\<close>

theorem rate_limiter_spacing:
  assumes "set_rate rate rl_new = Inr rl" and "i < j" and "j < length nows"
  shows "grants nows rl ! i + (j - i) * nat \<lfloor>1000000 / rate\<rfloor> \<le> grants nows rl ! j"
  using grants_spaced [of rl i j nows] no_burst_set_rate [OF assms(1)] assms(2,3) by auto

lemma rate_limiter_spacing_witness:
  "\<exists>rl. set_rate 500 rl_new = Inr rl \<and>
     grants [10, 11, 5] rl ! 0 + (2 - 0) * nat \<lfloor>1000000 / 500 :: real\<rfloor> \<le> grants [10, 11, 5] rl ! 2"
proof -
  let ?rl = "rl_new\<lparr>rl_interval := 1000000 / 500\<rparr>"
  have "set_rate 500 rl_new = Inr ?rl" by (simp add: set_rate_def)
  from this rate_limiter_spacing [OF this, of 0 2 "[10, 11, 5]"] show ?thesis by auto
qed

text \<open>The one-argument \<open>try_aquire\<close>, documented as one permit with a timeout, claims its
  argument as the number of permits and never waits for a free slot: with the slot taken it
  fails whatever the argument, and on a free slot an argument of 0 ends the process.\<close>

theorem try_aquire_one_is_permits:
  "try_aquire_one arg now now2 rl =
     (if rl_next_free rl > now then Inr (False, rl)
      else if arg \<le> 0 then Inl (Fatal ''RateLimiter: must request positive amount of permits'')
      else Inr (True, snd (claim_next (of_int arg) now2 rl)))"
  by (simp add: try_aquire_one_def try_aquire_def aquire_def case_prod_unfold Let_def)

end
