(* ===== verification/Operator.thy ===== *)
theory Operator
  imports Channel RateLimiter
begin

text \<open>
  The work queue of \<open>include/operator/operator.h\<close> and \<open>src/operator/operator.cpp\<close>: keys are
  taken from a channel and handed to a registered handler, and a key whose handler says
  \<open>false\<close> is added again through the rate limiter.  The handler is a function on the state of
  the world; the locale \<open>reconciler\<close> states when such a loop empties its queue.
\<close>

section \<open>The operator\<close>

definition OPERATOR_WORKQUEUE_BUFFER :: nat where "OPERATOR_WORKQUEUE_BUFFER = 10000"
definition OPERATOR_RATELIMITER_RATE :: real where "OPERATOR_RATELIMITER_RATE = 500"
definition OPERATOR_N_THREADS :: nat where "OPERATOR_N_THREADS = 8"

record 'k operator =
  op_queue :: "'k channel"
  op_limiter :: rate_limiter

definition Operator_new :: "'k operator option" where
  "Operator_new =
     (case set_rate OPERATOR_RATELIMITER_RATE rl_new of
        Inl _ \<Rightarrow> None
      | Inr rl \<Rightarrow> Some \<lparr>op_queue = channel_new OPERATOR_WORKQUEUE_BUFFER, op_limiter = rl\<rparr>)"

text \<open>\<open>None\<close>: the caller waits for room in the queue.\<close>

definition AddRateLimited :: "nat \<Rightarrow> 'k \<Rightarrow> 'k operator \<Rightarrow> 'k operator option result" where
  "AddRateLimited now key op =
     and_then (aquire 1 now (op_limiter op)) (\<lambda>(_, rl).
       case ch_write key (op_queue op) of
         Throws_closed \<Rightarrow> Inl (Fatal ''cannot write on closed channel'')
       | Write_waits \<Rightarrow> Inr None
       | Written ch \<Rightarrow> Inr (Some (op\<lparr>op_queue := ch, op_limiter := rl\<rparr>)))"

type_synonym ('k, 'w) handler = "'k \<Rightarrow> 'w \<Rightarrow> (bool \<times> 'w) result"

text \<open>One round of \<open>Operator::run\<close>: fetch a key, handle it, add it again if not done.\<close>

definition run_once ::
  "('k, 'w) handler \<Rightarrow> nat \<Rightarrow> 'k operator \<times> 'w \<Rightarrow> ('k operator \<times> 'w) option result" where
  "run_once handler now s =
     (case ch_read (op_queue (fst s)) of
        Read_waits \<Rightarrow> Inr None
      | Read_result None ch \<Rightarrow> Inr None
      | Read_result (Some key) ch \<Rightarrow>
          and_then (handler key (snd s)) (\<lambda>(don, w).
            let op = (fst s)\<lparr>op_queue := ch\<rparr> in
            if don then Inr (Some (op, w))
            else and_then (AddRateLimited now key op) (\<lambda>r. Inr (map_option (\<lambda>op. (op, w)) r))))"

section \<open>The queue as a list of keys\<close>

text \<open>The specification: a round takes the head and puts it back at the end if it is not done.\<close>

fun drain :: "('k, 'w) handler \<Rightarrow> nat \<Rightarrow> 'k list \<Rightarrow> 'w \<Rightarrow> ('k list \<times> 'w) result" where
  "drain h 0 q w = Inr (q, w)"
| "drain h (Suc n) [] w = Inr ([], w)"
| "drain h (Suc n) (k # q) w =
     and_then (h k w) (\<lambda>(don, w'). drain h n (if don then q else q @ [k]) w')"

fun run_rounds ::
  "('k, 'w) handler \<Rightarrow> nat list \<Rightarrow> 'k operator \<times> 'w \<Rightarrow> ('k operator \<times> 'w) option result" where
  "run_rounds h [] s = Inr (Some s)"
| "run_rounds h (now # nows) s =
     (if ch_queue (op_queue (fst s)) = [] then Inr (Some s)
      else and_then (run_once h now s)
        (\<lambda>r. case r of None \<Rightarrow> Inr None | Some s' \<Rightarrow> run_rounds h nows s'))"

definition op_ok :: "'k operator \<Rightarrow> bool" where
  "op_ok op \<longleftrightarrow> ch_ok (op_queue op) \<and> \<not> ch_closed (op_queue op)"

lemma ch_read_cons:
  assumes "ch_ok ch" and "ch_queue ch = k # q"
  shows "ch_read ch = Read_result (Some k) (ch\<lparr>ch_queue := q, ch_size := length q\<rparr>)"
  using assms by (simp add: ch_read_def ch_empty_def read_ready_def ch_ok_def)

lemma AddRateLimited_room:
  assumes "op_ok op" and "ch_cap (op_queue op) = 0 \<or> length (ch_queue (op_queue op)) < ch_cap (op_queue op)"
  shows "\<exists>rl. AddRateLimited now k op =
           Inr (Some (op\<lparr>op_queue := push_locked k (op_queue op), op_limiter := rl\<rparr>))"
  using assms
  by (auto simp: AddRateLimited_def aquire_def op_ok_def ch_ok_def ch_write_def write_ready_def
      case_prod_unfold Let_def)

text \<open>A round on the channel refines a round on the list.\<close>

lemma run_once_refines:
  assumes op: "op_ok op" and q: "ch_queue (op_queue op) = k # q" and h: "h k w = Inr (don, w')"
  shows "\<exists>op'. run_once h now (op, w) = Inr (Some (op', w')) \<and> op_ok op' \<and>
           ch_cap (op_queue op') = ch_cap (op_queue op) \<and>
           ch_queue (op_queue op') = (if don then q else q @ [k])"
proof -
  let ?ch = "(op_queue op)\<lparr>ch_queue := q, ch_size := length q\<rparr>"
  let ?op = "op\<lparr>op_queue := ?ch\<rparr>"
  have read: "ch_read (op_queue op) = Read_result (Some k) ?ch"
    using op q ch_read_cons by (auto simp: op_ok_def)
  have ok: "op_ok ?op" using op q by (auto simp: op_ok_def ch_ok_def)
  have room: "ch_cap ?ch = 0 \<or> length (ch_queue ?ch) < ch_cap ?ch"
    using op q by (auto simp: op_ok_def ch_ok_def)
  obtain rl where add: "AddRateLimited now k ?op =
      Inr (Some (?op\<lparr>op_queue := push_locked k ?ch, op_limiter := rl\<rparr>))"
    using AddRateLimited_room [OF ok, of now k] room by auto
  have "op_ok (?op\<lparr>op_queue := push_locked k ?ch, op_limiter := rl\<rparr>)"
    using ok room by (auto simp: op_ok_def ch_ok_def push_locked_def)
  then show ?thesis
    using read h add ok by (auto simp: run_once_def push_locked_def Let_def)
qed

lemma run_rounds_refines:
  "op_ok op \<Longrightarrow> drain h (length nows) (ch_queue (op_queue op)) w = Inr (q', w') \<Longrightarrow>
     \<exists>op'. run_rounds h nows (op, w) = Inr (Some (op', w')) \<and> op_ok op' \<and>
       ch_queue (op_queue op') = q'"
proof (induction nows arbitrary: op w)
  case Nil
  then show ?case by simp
next
  case (Cons now nows)
  show ?case
  proof (cases "ch_queue (op_queue op)")
    case Nil
    then show ?thesis using Cons.prems by simp
  next
    case q: (Cons k q)
    then obtain don w1 where h: "h k w = Inr (don, w1)"
      and rest: "drain h (length nows) (if don then q else q @ [k]) w1 = Inr (q', w')"
      using Cons.prems(2) by (auto simp: and_then_Inr_iff)
    obtain op1 where "run_once h now (op, w) = Inr (Some (op1, w1))" "op_ok op1"
        "ch_queue (op_queue op1) = (if don then q else q @ [k])"
      using run_once_refines [of op k q h w don w1 now] Cons.prems(1) q h by blast
    then show ?thesis using Cons.IH [of op1 w1] rest q by simp
  qed
qed

text \<open>An invariant of the handler is one of the loop.\<close>

lemma drain_invariant:
  assumes step: "\<And>k w don w'. k \<in> K \<Longrightarrow> I w \<Longrightarrow> h k w = Inr (don, w') \<Longrightarrow> I w'"
  shows "set q \<subseteq> K \<Longrightarrow> I w \<Longrightarrow> drain h n q w = Inr (q', w') \<Longrightarrow> I w'"
proof (induction n arbitrary: q w)
  case 0
  then show ?case by simp
next
  case (Suc n)
  show ?case
  proof (cases q)
    case Nil
    then show ?thesis using Suc.prems by simp
  next
    case (Cons k p)
    then obtain don w1 where h: "h k w = Inr (don, w1)"
      and rest: "drain h n (if don then p else p @ [k]) w1 = Inr (q', w')"
      using Suc.prems(3) by (auto simp: and_then_Inr_iff)
    have "I w1" using step [OF _ Suc.prems(2) h] Suc.prems(1) Cons by simp
    then show ?thesis using Suc.IH [OF _ _ rest] Suc.prems(1) Cons by auto
  qed
qed

text \<open>The rounds a queue needs when every key goes back at most \<open>cost\<close> times.\<close>

definition rounds :: "('k \<Rightarrow> 'w \<Rightarrow> nat) \<Rightarrow> 'k list \<Rightarrow> 'w \<Rightarrow> nat" where
  "rounds cost q w = sum_list (map (\<lambda>k. Suc (cost k w)) q)"

lemma rounds_mono: "(\<And>k. cost k w' \<le> cost k w) \<Longrightarrow> rounds cost q w' \<le> rounds cost q w"
  unfolding rounds_def by (intro sum_list_mono) simp

lemma rounds_append: "rounds cost (p @ q) w = rounds cost p w + rounds cost q w"
  by (simp add: rounds_def)

section \<open>The contract of a handler\<close>

text \<open>
  A reconciler: every call returns, a call that wants its key back brings that key closer to
  done, and no call sets back another key or undoes what has been achieved.
\<close>

locale reconciler =
  fixes h :: "('k, 'w) handler"
    and inv :: "'w \<Rightarrow> bool"
    and cost :: "'k \<Rightarrow> 'w \<Rightarrow> nat"
    and goal :: "'k \<Rightarrow> 'w \<Rightarrow> bool"
    and valid :: "'k \<Rightarrow> bool"
  assumes returns: "valid k \<Longrightarrow> inv w \<Longrightarrow> \<exists>don w'. h k w = Inr (don, w') \<and> inv w'"
    and retry: "valid k \<Longrightarrow> inv w \<Longrightarrow> h k w = Inr (False, w') \<Longrightarrow> cost k w' < cost k w"
    and no_setback: "valid k \<Longrightarrow> inv w \<Longrightarrow> h k w = Inr (don, w') \<Longrightarrow> cost k' w' \<le> cost k' w"
    and reached: "valid k \<Longrightarrow> inv w \<Longrightarrow> h k w = Inr (True, w') \<Longrightarrow> goal k w'"
    and goal_kept: "valid k \<Longrightarrow> inv w \<Longrightarrow> h k w = Inr (don, w') \<Longrightarrow> goal k' w \<Longrightarrow> goal k' w'"
begin

lemma drain_done:
  "\<forall>k \<in> set q. valid k \<Longrightarrow> inv w \<Longrightarrow> rounds cost q w \<le> n \<Longrightarrow> (\<And>k. k \<in> D \<Longrightarrow> goal k w) \<Longrightarrow>
     \<exists>w'. drain h n q w = Inr ([], w') \<and> inv w' \<and> (\<forall>k \<in> set q \<union> D. goal k w')"
proof (induction n arbitrary: q w D)
  case 0
  then have "q = []" by (cases q) (auto simp: rounds_def)
  with 0 show ?case by auto
next
  case (Suc n)
  show ?case
  proof (cases q)
    case Nil
    with Suc.prems show ?thesis by auto
  next
    case (Cons k p)
    have v: "valid k" using Suc.prems(1) Cons by simp
    obtain don w1 where h: "h k w = Inr (don, w1)" "inv w1"
      using returns [OF v Suc.prems(2)] by blast
    have le: "\<And>k'. cost k' w1 \<le> cost k' w"
      using no_setback [OF v Suc.prems(2) h(1)] by blast
    have p: "Suc (cost k w) + rounds cost p w \<le> Suc n"
      using Suc.prems(3) Cons by (simp add: rounds_def)
    have kept: "\<And>k. k \<in> D \<Longrightarrow> goal k w1"
      using goal_kept [OF v Suc.prems(2) h(1)] Suc.prems(4) by blast
    show ?thesis
    proof (cases don)
      case True
      have "rounds cost p w1 \<le> n" using rounds_mono [where cost = cost, OF le, of p] p by simp
      moreover have "goal k w1" using reached [OF v Suc.prems(2)] h(1) True by simp
      ultimately show ?thesis
        using Suc.IH [OF _ h(2), of p "insert k D"] kept Suc.prems(1) Cons h(1) True by auto
    next
      case False
      then have "cost k w1 < cost k w" using retry [OF v Suc.prems(2)] h(1) by simp
      then have "rounds cost (p @ [k]) w1 \<le> n"
        using rounds_mono [where cost = cost, OF le, of p] p by (simp add: rounds_append) (simp add: rounds_def)
      then show ?thesis
        using Suc.IH [OF _ h(2), of "p @ [k]" D] kept Suc.prems(1) Cons h(1) False by auto
    qed
  qed
qed

lemma queue_empties:
  assumes "op_ok op" and "\<forall>k \<in> set (ch_queue (op_queue op)). valid k" and "inv w" and "rounds cost (ch_queue (op_queue op)) w \<le> length nows"
  shows "\<exists>op' w'. run_rounds h nows (op, w) = Inr (Some (op', w')) \<and>
           ch_queue (op_queue op') = [] \<and> (\<forall>k \<in> set (ch_queue (op_queue op)). goal k w')"
proof -
  obtain w' where "drain h (length nows) (ch_queue (op_queue op)) w = Inr ([], w')"
      "\<forall>k \<in> set (ch_queue (op_queue op)). goal k w'"
    using drain_done [OF assms(2-4), of "{}"] by auto
  with run_rounds_refines [OF assms(1) this(1)] show ?thesis by blast
qed

end

end
