(* ===== verification/Monitor.thy ===== *)
theory Monitor
  imports Api
begin

text \<open>
  The memory accounting of \<open>include/monitor/monitor.h\<close> and \<open>src/monitor/monitor.cpp\<close>, with
  the allocation of \<open>Util::memfdCalloc\<close> and \<open>Util::memfdFtruncate\<close> of \<open>src/util/util.cpp\<close>.
  What the kernel answers (the cgroup counters, the physical memory, the results of
  \<open>memfd_create\<close>, \<open>ftruncate\<close>, \<open>mmap\<close> and of the file calls) is a parameter.
  All counters are \<open>size_t\<close> and wrap around.
\<close>

section \<open>Statistics\<close>

record MemoryStat =
  total_capacity :: size_t
  total_idle :: size_t
  total_usage :: size_t
  total_max_usage :: size_t
  self_total_usage :: size_t

record monitor =
  user_limit :: size_t
  mstat :: MemoryStat

record cgroup =
  cg_usage :: size_t
  cg_max_usage :: size_t
  cg_limit :: size_t
  cg_physical :: size_t

definition MemoryStat_new :: MemoryStat where
  "MemoryStat_new = \<lparr>total_capacity = 0, total_idle = 0, total_usage = 0,
     total_max_usage = 0, self_total_usage = 0\<rparr>"

definition collectMetric :: "cgroup \<Rightarrow> bool \<Rightarrow> monitor \<Rightarrow> monitor" where
  "collectMetric cg collectCapacity m =
     (let s = (mstat m)\<lparr>total_usage := cg_usage cg, total_max_usage := cg_max_usage cg\<rparr>;
          s = (if collectCapacity
               then s\<lparr>total_capacity :=
                        (if user_limit m > 0 then min (cg_limit cg) (user_limit m)
                         else min (cg_limit cg) (cg_physical cg))\<rparr>
               else s);
          s = (if user_limit m > 0
               then s\<lparr>total_idle := total_capacity s - self_total_usage s\<rparr>
               else s\<lparr>total_idle := total_capacity s - total_usage s\<rparr>)
      in m\<lparr>mstat := s\<rparr>)"

text \<open>The user limit is given in GB; an empty variable means no limit.\<close>

definition MemoryMonitor_new :: "size_t option \<Rightarrow> cgroup \<Rightarrow> monitor" where
  "MemoryMonitor_new limit_gb cg =
     collectMetric cg True
       \<lparr>user_limit = (case limit_gb of None \<Rightarrow> 0 | Some gb \<Rightarrow> gb * 1024 * 1024 * 1024),
        mstat = MemoryStat_new\<rparr>"

definition enough :: "cgroup \<Rightarrow> size_t \<Rightarrow> monitor \<Rightarrow> bool \<times> monitor" where
  "enough cg to_alloc m =
     (let m' = collectMetric cg False m in (total_idle (mstat m') > to_alloc, m'))"

section \<open>Allocation\<close>

text \<open>
  \<open>memfdCalloc\<close> returns a status code and the entry; the kernel answers with an address, a pid
  and a descriptor, or \<open>None\<close> when one of its three calls fails.
\<close>

definition memfdCalloc :: "DataEntry option \<Rightarrow> Metadata \<Rightarrow> DataEntry \<Rightarrow> int \<times> DataEntry" where
  "memfdCalloc os m e =
     (if msize m \<le> 0 then (STATUS_UNKNOWN_ERROR, e)
      else (case os of None \<Rightarrow> (STATUS_UNKNOWN_ERROR, e)
            | Some e' \<Rightarrow> (STATUS_SUCCESS, e\<lparr>address := address e', pid := pid e', memfd := memfd e'\<rparr>)))"

text \<open>\<open>memfdFtruncate\<close>: the file behind the descriptor gets the new size; the entry and the
  accounting stay as they are.\<close>

definition memfdFtruncate :: "bool \<Rightarrow> size_t \<Rightarrow> Metadata \<Rightarrow> int \<times> size_t" where
  "memfdFtruncate truncate_ok old_size m =
     (if msize m \<le> 0 then (STATUS_UNKNOWN_ERROR, old_size)
      else if old_size = msize m then (STATUS_SUCCESS, old_size)
      else if truncate_ok then (STATUS_SUCCESS, msize m)
      else (STATUS_UNKNOWN_ERROR, old_size))"

definition count_usage :: "size_t \<Rightarrow> monitor \<Rightarrow> monitor" where
  "count_usage n m = m\<lparr>mstat := (mstat m)\<lparr>self_total_usage := self_total_usage (mstat m) + n\<rparr>\<rparr>"

definition TryMemfdMalloc ::
  "cgroup \<Rightarrow> DataEntry option \<Rightarrow> Metadata \<Rightarrow> DataEntry \<Rightarrow> monitor \<Rightarrow> int \<times> DataEntry \<times> monitor" where
  "TryMemfdMalloc cg os md e m =
     (case enough cg (msize md) m of (ok, m') \<Rightarrow>
        if \<not> ok then (STATUS_OOM, e, m')
        else (case memfdCalloc os md e of (rc, e') \<Rightarrow> (rc, e', count_usage (msize md) m')))"

text \<open>\<open>memfdFree\<close> takes the size of the metadata off the account (the unmapping is detached).\<close>

definition memfdFree :: "Metadata \<Rightarrow> DataEntry \<Rightarrow> monitor \<Rightarrow> monitor" where
  "memfdFree md e m =
     m\<lparr>mstat := (mstat m)\<lparr>self_total_usage := self_total_usage (mstat m) - msize md\<rparr>\<rparr>"

text \<open>
  \<open>TryLoadFromFile\<close>: as \<open>TryMemfdMalloc\<close>, then the file is read into the memory.  The answers:
  did \<open>fopen\<close> succeed, how many bytes did \<open>fread\<close> return, did \<open>fclose\<close> succeed.  The status of
  the allocation is only returned at the end.
\<close>

definition TryLoadFromFile ::
  "cgroup \<Rightarrow> DataEntry option \<Rightarrow> bool \<Rightarrow> size_t \<Rightarrow> bool \<Rightarrow> Metadata \<Rightarrow> DataEntry \<Rightarrow> monitor \<Rightarrow>
   int \<times> DataEntry \<times> monitor" where
  "TryLoadFromFile cg os opened nread closed md e m =
     (case enough cg (msize md) m of (ok, m') \<Rightarrow>
        if \<not> ok then (STATUS_OOM, e, m')
        else (let m'' = count_usage (msize md) m' in
              case memfdCalloc os md e of (rc, e') \<Rightarrow>
                if \<not> opened then (STATUS_UNKNOWN_ERROR, e', m'')
                else if nread \<noteq> msize md then (STATUS_UNKNOWN_ERROR, e', m'')
                else if \<not> closed then (STATUS_UNKNOWN_ERROR, e', m'')
                else (rc, e', m'')))"

definition GetMemoryStat :: "monitor \<Rightarrow> MemoryStat" where
  "GetMemoryStat m = mstat m"

section \<open>The account\<close>

text \<open>With a user limit the account never exceeds the capacity.\<close>

definition within_limit :: "monitor \<Rightarrow> bool" where
  "within_limit m \<longleftrightarrow> user_limit m > 0 \<and> self_total_usage (mstat m) \<le> total_capacity (mstat m)"

lemma collectMetric_self [simp]:
  "self_total_usage (mstat (collectMetric cg c m)) = self_total_usage (mstat m)"
  "user_limit (collectMetric cg c m) = user_limit m"
  "total_capacity (mstat (collectMetric cg False m)) = total_capacity (mstat m)"
  by (simp_all add: collectMetric_def Let_def)

lemma enough_limited:
  assumes "enough cg n m = (ok, m')" and "user_limit m > 0"
  shows "self_total_usage (mstat m') = self_total_usage (mstat m) \<and>
     total_capacity (mstat m') = total_capacity (mstat m) \<and> user_limit m' = user_limit m \<and>
     ok = (n < total_capacity (mstat m) - self_total_usage (mstat m))"
  using assms by (auto simp: enough_def collectMetric_def Let_def)

lemma unat_sub_le: "(b :: size_t) \<le> a \<Longrightarrow> unat (a - b) = unat a - unat b"
  by (simp add: unat_sub)

lemma within_limit_count:
  assumes w: "within_limit m" and e: "enough cg n m = (True, m')"
  shows "within_limit (count_usage n m') \<and>
    unat (self_total_usage (mstat (count_usage n m'))) = unat (self_total_usage (mstat m)) + unat n"
proof -
  let ?c = "total_capacity (mstat m)" and ?u = "self_total_usage (mstat m)"
  have m': "self_total_usage (mstat m') = ?u" "total_capacity (mstat m') = ?c"
      "user_limit m' = user_limit m" and lt: "n < ?c - ?u"
    using enough_limited [OF e] w by (auto simp: within_limit_def)
  have le: "?u \<le> ?c" using w by (simp add: within_limit_def)
  have "unat n < unat ?c - unat ?u" using lt unat_sub_le [OF le] by (simp add: word_less_nat_alt)
  then have sum: "unat ?u + unat n < unat ?c" by simp
  then have "unat (?u + n) = unat ?u + unat n"
    using unat_size_t_less [of ?c] by (intro unat_add_small) simp
  then show ?thesis
    using m' sum w by (simp add: count_usage_def within_limit_def word_le_nat_alt)
qed

lemma within_limit_TryMemfdMalloc:
  assumes w: "within_limit m"
  shows "within_limit (snd (snd (TryMemfdMalloc cg k md e m)))"
proof (cases "enough cg (msize md) m")
  case (Pair ok m')
  then show ?thesis
    using within_limit_count [OF w, of cg "msize md" m'] enough_limited [OF Pair] w
    by (cases ok) (auto simp: TryMemfdMalloc_def within_limit_def split: prod.splits)
qed

lemma within_limit_TryLoadFromFile:
  assumes w: "within_limit m"
  shows "within_limit (snd (snd (TryLoadFromFile cg k op n cl md e m)))"
proof (cases "enough cg (msize md) m")
  case (Pair ok m')
  then show ?thesis
    using within_limit_count [OF w, of cg "msize md" m'] enough_limited [OF Pair] w
    by (cases ok) (auto simp: TryLoadFromFile_def within_limit_def Let_def split: prod.splits)
qed

text \<open>A refused allocation leaves the account alone.\<close>

lemma TryMemfdMalloc_cases:
  assumes w: "within_limit m"
  shows "TryMemfdMalloc cg os md e m =
    (if msize md < total_capacity (mstat m) - self_total_usage (mstat m)
     then (fst (memfdCalloc os md e), snd (memfdCalloc os md e),
           count_usage (msize md) (collectMetric cg False m))
     else (STATUS_OOM, e, collectMetric cg False m))"
proof (cases "enough cg (msize md) m")
  case (Pair ok m')
  have "m' = collectMetric cg False m" using Pair by (simp add: enough_def Let_def)
  then show ?thesis
    using enough_limited [OF Pair] w Pair
    by (auto simp: TryMemfdMalloc_def within_limit_def split: prod.splits)
qed

section \<open>Properties\<close>

text \<open>C39: Under a user limit, an allocation is granted only when it fits in what is left, is
  then added to the account without wrap-around, and the account stays within the capacity;
  a refusal is \<open>STATUS_OOM\<close> and leaves the account unchanged.\<close>

theorem memory_account_bounded:
  assumes w: "within_limit m" and call: "TryMemfdMalloc cg os md e m = (rc, e', m')"
  shows "within_limit m' \<and>
    (if unat (self_total_usage (mstat m)) + unat (msize md) < unat (total_capacity (mstat m))
     then rc \<noteq> STATUS_OOM \<and>
          unat (self_total_usage (mstat m')) = unat (self_total_usage (mstat m)) + unat (msize md)
     else rc = STATUS_OOM \<and> self_total_usage (mstat m') = self_total_usage (mstat m))"
proof -
  let ?u = "self_total_usage (mstat m)" and ?c = "total_capacity (mstat m)"
  have "?u \<le> ?c" using w by (simp add: within_limit_def)
  then have fits: "msize md < ?c - ?u \<longleftrightarrow> unat ?u + unat (msize md) < unat ?c"
    by (auto simp: word_less_nat_alt unat_sub_le)
  have inv: "within_limit m'" using within_limit_TryMemfdMalloc [OF w, of cg os md e] call by simp
  show ?thesis
  proof (cases "msize md < ?c - ?u")
    case True
    obtain ok where ok: "enough cg (msize md) m = (ok, collectMetric cg False m)"
      by (simp add: enough_def Let_def)
    moreover have "ok = True" using enough_limited [OF ok] w True by (simp add: within_limit_def)
    ultimately obtain m1 where m1: "enough cg (msize md) m = (True, m1)" "m1 = collectMetric cg False m"
      by simp
    have "(rc, e', m') = (fst (memfdCalloc os md e), snd (memfdCalloc os md e),
        count_usage (msize md) m1)"
      using call True m1(2) TryMemfdMalloc_cases [OF w, of cg os md e] by argo
    then have m': "m' = count_usage (msize md) m1" and rc: "rc = fst (memfdCalloc os md e)"
      by simp_all
    have "rc \<noteq> STATUS_OOM"
      using rc by (auto simp: memfdCalloc_def status_defs split: option.splits)
    moreover have cond: "unat ?u + unat (msize md) < unat ?c" using fits True by blast
    moreover have "unat (self_total_usage (mstat m')) = unat ?u + unat (msize md)"
      using within_limit_count [OF w m1(1)] m' by blast
    ultimately show ?thesis unfolding if_P [OF cond] using inv by blast
  next
    case False
    then have "m' = collectMetric cg False m" "rc = STATUS_OOM"
      using call by (simp_all add: TryMemfdMalloc_cases [OF w])
    then show ?thesis using inv fits False by simp
  qed
qed

definition demo_cgroup :: cgroup where
  "demo_cgroup = \<lparr>cg_usage = 5, cg_max_usage = 9, cg_limit = 100, cg_physical = 200\<rparr>"

definition demo_monitor :: monitor where
  "demo_monitor = \<lparr>user_limit = 64, mstat = MemoryStat_new\<lparr>total_capacity := 64\<rparr>\<rparr>"

definition demo_file :: "size_t \<Rightarrow> Metadata" where
  "demo_file n = (new_Metadata ''job'' ''f'')\<lparr>msize := n\<rparr>"

lemma memory_account_bounded_witness:
  "\<exists>rc e' m'. TryMemfdMalloc demo_cgroup None (demo_file 10) new_DataEntry demo_monitor = (rc, e', m') \<and>
     within_limit m' \<and> unat (self_total_usage (mstat m')) = 10"
proof -
  have w: "within_limit demo_monitor"
    by (simp add: within_limit_def demo_monitor_def MemoryStat_new_def)
  obtain rc e' m' where
    call: "TryMemfdMalloc demo_cgroup None (demo_file 10) new_DataEntry demo_monitor = (rc, e', m')"
    by (cases "TryMemfdMalloc demo_cgroup None (demo_file 10) new_DataEntry demo_monitor") auto
  show ?thesis
    using memory_account_bounded [OF w call] call
    by (simp add: demo_monitor_def MemoryStat_new_def demo_file_def)
qed

text \<open>\<open>TryMemfdMalloc\<close> counts the size before it allocates and does not take it back: an
  allocation the kernel fails is reported as an error and stays on the account for good.\<close>

theorem failed_allocation_stays_counted:
  assumes w: "within_limit m"
    and fits: "unat (self_total_usage (mstat m)) + unat (msize md) < unat (total_capacity (mstat m))"
    and call: "TryMemfdMalloc cg None md e m = (rc, e', m')"
  shows "rc = STATUS_UNKNOWN_ERROR \<and> e' = e \<and>
    unat (self_total_usage (mstat m')) = unat (self_total_usage (mstat m)) + unat (msize md)"
proof -
  let ?u = "self_total_usage (mstat m)" and ?c = "total_capacity (mstat m)"
  have le: "?u \<le> ?c" using w by (simp add: within_limit_def)
  have lt: "msize md < ?c - ?u" using fits unat_sub_le [OF le] by (simp add: word_less_nat_alt)
  have "unat (?u + msize md) = unat ?u + unat (msize md)"
    using fits unat_size_t_less [of ?c] by (intro unat_add_small) simp
  then show ?thesis
    using call lt by (auto simp: TryMemfdMalloc_cases [OF w] memfdCalloc_def count_usage_def)
qed

lemma failed_allocation_stays_counted_witness:
  "\<exists>e' m'. TryMemfdMalloc demo_cgroup None (demo_file 10) new_DataEntry demo_monitor =
      (STATUS_UNKNOWN_ERROR, e', m') \<and> unat (self_total_usage (mstat m')) = 10"
proof -
  have w: "within_limit demo_monitor"
    by (simp add: within_limit_def demo_monitor_def MemoryStat_new_def)
  obtain rc e' m' where
    call: "TryMemfdMalloc demo_cgroup None (demo_file 10) new_DataEntry demo_monitor = (rc, e', m')"
    by (cases "TryMemfdMalloc demo_cgroup None (demo_file 10) new_DataEntry demo_monitor") auto
  show ?thesis
    using failed_allocation_stays_counted [OF w _ call] call
    by (simp add: demo_monitor_def MemoryStat_new_def demo_file_def)
qed

text \<open>Growing a cached file with \<open>memfdFtruncate\<close> is not accounted for, but freeing it takes
  the grown size off: the account drops below zero and wraps, and the monitor then reports
  more idle memory than the capacity.\<close>

theorem truncated_file_wraps_account:
  assumes w: "within_limit m" and zero: "self_total_usage (mstat m) = 0"
    and sizes: "0 < msize md" "msize md < msize md'" "msize md' < total_capacity (mstat m)"
    and bound: "unat (total_capacity (mstat m)) < 2 ^ 63"
    and m1: "TryMemfdMalloc cg (Some k) md e m = (rc, e', m1)"
    and grown: "memfdFtruncate True (msize md) md' = (rc', n)"
  shows "rc = STATUS_SUCCESS \<and> rc' = STATUS_SUCCESS \<and> n = msize md' \<and>
    self_total_usage (mstat (memfdFree md' e' m1)) = - (msize md' - msize md) \<and>
    total_capacity (mstat m) < total_idle (mstat (collectMetric cg False (memfdFree md' e' m1)))"
proof -
  let ?c = "total_capacity (mstat m)"
  have lt: "msize md < ?c" using sizes by simp
  have m1': "rc = STATUS_SUCCESS" "m1 = count_usage (msize md) (collectMetric cg False m)"
    using m1 lt sizes(1) zero by (auto simp: TryMemfdMalloc_cases [OF w] memfdCalloc_def)
  have self: "self_total_usage (mstat (memfdFree md' e' m1)) = - (msize md' - msize md)"
    using zero by (simp add: m1' memfdFree_def count_usage_def)
  have d: "unat (msize md' - msize md) = unat (msize md') - unat (msize md)"
    using sizes(2) by (intro unat_sub_le) simp
  have "unat (?c + (msize md' - msize md)) = unat ?c + unat (msize md' - msize md)"
    using d sizes(3) bound by (intro unat_add_small) (simp add: word_less_nat_alt)
  then have more: "?c < ?c + (msize md' - msize md)"
    using d sizes(2) by (simp add: word_less_nat_alt)
  have idle: "total_idle (mstat (collectMetric cg False (memfdFree md' e' m1))) =
      ?c - self_total_usage (mstat (memfdFree md' e' m1))"
    using w by (simp add: collectMetric_def Let_def m1' memfdFree_def count_usage_def within_limit_def)
  have "?c - self_total_usage (mstat (memfdFree md' e' m1)) = ?c + (msize md' - msize md)"
    by (simp add: self)
  then have idle': "?c < total_idle (mstat (collectMetric cg False (memfdFree md' e' m1)))"
    using idle more by metis
  have "msize md' \<noteq> 0" "msize md \<noteq> msize md'" using sizes(2) by auto
  then have "rc' = STATUS_SUCCESS" "n = msize md'"
    using grown by (simp_all add: memfdFtruncate_def)
  then show ?thesis using m1'(1) self idle' by blast
qed

lemma truncated_file_wraps_account_witness:
  "\<exists>rc e' m1. TryMemfdMalloc demo_cgroup (Some new_DataEntry) (demo_file 10) new_DataEntry demo_monitor = (rc, e', m1) \<and>
     self_total_usage (mstat (memfdFree (demo_file 20) e' m1)) = - (20 - 10)"
proof -
  let ?md = "demo_file 10" and ?md' = "demo_file 20"
  have w: "within_limit demo_monitor"
    by (simp add: within_limit_def demo_monitor_def MemoryStat_new_def)
  obtain rc e' m1 where
    call: "TryMemfdMalloc demo_cgroup (Some new_DataEntry) ?md new_DataEntry demo_monitor = (rc, e', m1)"
    by (cases "TryMemfdMalloc demo_cgroup (Some new_DataEntry) ?md new_DataEntry demo_monitor") auto
  have "memfdFtruncate True (msize ?md) ?md' = (STATUS_SUCCESS, 20)"
    by (simp add: memfdFtruncate_def demo_file_def)
  from truncated_file_wraps_account [OF w _ _ _ _ _ call this] call show ?thesis
    by (simp add: demo_monitor_def MemoryStat_new_def demo_file_def)
qed

end
