(* ===== verification/Store.thy ===== *)
theory Store
  imports Monitor
begin

text \<open>
  The local cache index of \<open>include/storage/storage.h\<close> and \<open>src/storage/storage.cpp\<close>: the
  entries of the node's own checkpoint files and those it keeps as a backup for its
  predecessor, selected by the rank in the metadata.  Deleting hands the entry's memory back:
  the calls are returned as a list of effects.  The locale \<open>entry_store\<close> is what the
  coordinator relies on.
\<close>

section \<open>Storage\<close>

record storage =
  own_dict :: "string \<rightharpoonup> DataEntry"
  backup_dict :: "string \<rightharpoonup> DataEntry"

definition storage_new :: storage where
  "storage_new = \<lparr>own_dict = Map.empty, backup_dict = Map.empty\<rparr>"

definition Storage_Save :: "int \<Rightarrow> Metadata \<Rightarrow> DataEntry \<Rightarrow> storage \<Rightarrow> (bool \<times> storage) result" where
  "Storage_Save rank md e s =
     (if address e = 0 then Inl (Fatal ''address is 0, illegal'')
      else if node_rank md = rank
      then Inr (True, s\<lparr>own_dict := (own_dict s)(file_name md \<mapsto> e)\<rparr>)
      else Inr (True, s\<lparr>backup_dict := (backup_dict s)(file_name md \<mapsto> e)\<rparr>))"

text \<open>\<open>None\<close>: not found, the entry of the caller is left alone.\<close>

definition Storage_Load :: "int \<Rightarrow> Metadata \<Rightarrow> storage \<Rightarrow> DataEntry option result" where
  "Storage_Load rank md s =
     (if file_name md = '''' then Inl (Fatal ''filename empty during load from storage'')
      else if node_rank md = rank then Inr (own_dict s (file_name md))
      else Inr (backup_dict s (file_name md)))"

text \<open>What \<open>Delete\<close> does to the operating system: close a descriptor, unmap a block.\<close>

datatype os_effect = Close int | Munmap size_t size_t

definition free_entry :: "Metadata \<Rightarrow> DataEntry \<Rightarrow> monitor \<Rightarrow> os_effect list \<times> monitor" where
  "free_entry md e m = ([Close (memfd e), Munmap (address e) (msize md)], memfdFree md e m)"

definition Storage_Delete ::
  "int \<Rightarrow> Metadata \<Rightarrow> storage \<Rightarrow> monitor \<Rightarrow> (bool \<times> os_effect list \<times> storage \<times> monitor) result" where
  "Storage_Delete rank md s m =
     (if file_name md = '''' then Inl (Fatal ''filename empty during deleting from storage'')
      else
        let from_backup =
          (case backup_dict s (file_name md) of
             Some e \<Rightarrow> (case free_entry md e m of (fx, m') \<Rightarrow>
               (True, fx, s\<lparr>backup_dict := (backup_dict s)(file_name md := None)\<rparr>, m'))
           | None \<Rightarrow> (True, [], s, m))
        in if node_rank md = rank
           then (case own_dict s (file_name md) of
                   Some e \<Rightarrow> (case free_entry md e m of (fx, m') \<Rightarrow>
                     Inr (True, fx, s\<lparr>own_dict := (own_dict s)(file_name md := None)\<rparr>, m'))
                 | None \<Rightarrow> Inr from_backup)
           else Inr from_backup)"

section \<open>The contract\<close>

text \<open>
  A store of entries under metadata keys: loading after saving gives the entry, keys do not
  interfere, deleting removes what the key finds and nothing else, and never fails.
\<close>

locale entry_store =
  fixes save :: "'k \<Rightarrow> 'e \<Rightarrow> 's \<Rightarrow> 's option"
    and load :: "'k \<Rightarrow> 's \<Rightarrow> 'e option"
    and delete :: "'k \<Rightarrow> 's \<Rightarrow> 's"
    and key_eq :: "'k \<Rightarrow> 'k \<Rightarrow> bool"
  assumes load_save: "save k e s = Some s' \<Longrightarrow> load k' s' = (if key_eq k k' then Some e else load k' s)"
    and load_delete: "load k s \<noteq> None \<Longrightarrow> load k' (delete k s) = (if key_eq k k' then None else load k' s)"
    and key_refl: "key_eq k k"
begin

fun save_all :: "('k \<times> 'e) list \<Rightarrow> 's \<Rightarrow> 's option" where
  "save_all [] s = Some s"
| "save_all ((k, e) # kes) s = Option.bind (save k e s) (save_all kes)"

lemma load_save_same: "save k e s = Some s' \<Longrightarrow> load k s' = Some e"
  by (simp add: load_save key_refl)

lemma load_save_all:
  "save_all kes s = Some s' \<Longrightarrow> \<not> list_ex (\<lambda>(k, e). key_eq k k') kes \<Longrightarrow> load k' s' = load k' s"
  by (induction kes arbitrary: s) (auto simp: bind_eq_Some_conv load_save)

lemma delete_gone: "load k s \<noteq> None \<Longrightarrow> load k (delete k s) = None"
  by (simp add: load_delete key_refl)

lemma save_delete_frame:
  "save k e s = Some s' \<Longrightarrow> \<not> key_eq k k' \<Longrightarrow> load k' (delete k s') = load k' s"
  by (simp add: load_delete load_save key_refl)

end

text \<open>The store of one node, through the rank of the node.\<close>

definition st_save :: "int \<Rightarrow> Metadata \<Rightarrow> DataEntry \<Rightarrow> storage \<Rightarrow> storage option" where
  "st_save rank md e s = (case Storage_Save rank md e s of Inr (_, s') \<Rightarrow> Some s' | Inl _ \<Rightarrow> None)"

definition st_load :: "int \<Rightarrow> Metadata \<Rightarrow> storage \<Rightarrow> DataEntry option" where
  "st_load rank md s = (case Storage_Load rank md s of Inr r \<Rightarrow> r | Inl _ \<Rightarrow> None)"

definition st_delete :: "int \<Rightarrow> Metadata \<Rightarrow> storage \<Rightarrow> storage" where
  "st_delete rank md s =
     (case Storage_Delete rank md s \<lparr>user_limit = 0, mstat = MemoryStat_new\<rparr> of
        Inr (_, _, s', _) \<Rightarrow> s' | Inl _ \<Rightarrow> s)"

text \<open>
  The contract is that of a node's non-empty file names; \<open>md_key\<close> maps metadata to the dictionary
  and name the node uses, a type of its own so that every key is legal.
\<close>

typedef stored = "{md :: Metadata. file_name md \<noteq> ''''}"
  by (rule exI [where x = "new_Metadata ''j'' ''f''"]) (simp add: new_Metadata_def)

definition same_slot :: "int \<Rightarrow> stored \<Rightarrow> stored \<Rightarrow> bool" where
  "same_slot rank a b \<longleftrightarrow> file_name (Rep_stored a) = file_name (Rep_stored b) \<and>
     (node_rank (Rep_stored a) = rank) = (node_rank (Rep_stored b) = rank)"

lemma Rep_stored_name [simp]: "file_name (Rep_stored a) \<noteq> ''''"
  using Rep_stored [of a] by simp

lemma st_delete_found:
  assumes "Storage_Load rank md s = Inr (Some e)"
  shows "st_delete rank md s =
    (if node_rank md = rank then s\<lparr>own_dict := (own_dict s)(file_name md := None)\<rparr>
     else s\<lparr>backup_dict := (backup_dict s)(file_name md := None)\<rparr>)"
  using assms
  by (auto simp: st_delete_def Storage_Delete_def Storage_Load_def free_entry_def split: if_splits)

lemma store_laws:
  "entry_store (\<lambda>k. st_save rank (Rep_stored k)) (\<lambda>k. st_load rank (Rep_stored k))
     (\<lambda>k. st_delete rank (Rep_stored k)) (same_slot rank)"
proof unfold_locales
  fix k k' :: stored and e s s'
  assume "st_save rank (Rep_stored k) e s = Some s'"
  then show "st_load rank (Rep_stored k') s' =
      (if same_slot rank k k' then Some e else st_load rank (Rep_stored k') s)"
    by (auto simp: st_save_def st_load_def Storage_Save_def Storage_Load_def same_slot_def
        split: if_splits)
next
  fix k k' :: stored and s
  assume "st_load rank (Rep_stored k) s \<noteq> None"
  then obtain e where "Storage_Load rank (Rep_stored k) s = Inr (Some e)"
    by (auto simp: st_load_def split: sum.splits)
  from st_delete_found [OF this] show "st_load rank (Rep_stored k') (st_delete rank (Rep_stored k) s) =
      (if same_slot rank k k' then None else st_load rank (Rep_stored k') s)"
    by (auto simp: st_load_def Storage_Load_def same_slot_def)
next
  fix k show "same_slot rank k k" by (simp add: same_slot_def)
qed

interpretation store: entry_store "\<lambda>k. st_save rank (Rep_stored k)" "\<lambda>k. st_load rank (Rep_stored k)"
  "\<lambda>k. st_delete rank (Rep_stored k)" "same_slot rank" for rank
  by (rule store_laws)

section \<open>Properties\<close>

text \<open>Two metadata objects use the same slot: same name, and both of the node or both not.\<close>

definition one_slot :: "int \<Rightarrow> Metadata \<Rightarrow> Metadata \<Rightarrow> bool" where
  "one_slot rank a b \<longleftrightarrow> file_name a = file_name b \<and> (node_rank a = rank) = (node_rank b = rank)"

definition found_entry :: "int \<Rightarrow> Metadata \<Rightarrow> storage \<Rightarrow> DataEntry option" where
  "found_entry rank md s =
     (if node_rank md = rank then own_dict s (file_name md) else backup_dict s (file_name md))"

lemma same_slot_one: "same_slot rank (Abs_stored a) (Abs_stored b) = one_slot rank a b"
  if "file_name a \<noteq> []" "file_name b \<noteq> []"
  using that by (simp add: same_slot_def one_slot_def Abs_stored_inverse)

lemma st_load_found: "file_name md \<noteq> [] \<Longrightarrow> st_load rank md s = found_entry rank md s"
  by (simp add: st_load_def Storage_Load_def found_entry_def)

lemma Storage_Load_found: "file_name md \<noteq> [] \<Longrightarrow> Storage_Load rank md s = Inr (found_entry rank md s)"
  by (simp add: Storage_Load_def found_entry_def)

text \<open>An entry saved under a file is the one loaded for it afterwards, by its node's rank from the
  node's own files and by any other rank from the backups, and saving changes no other file.\<close>

theorem storage_load_after_save:
  assumes "address e \<noteq> 0" and "file_name md \<noteq> []" and "file_name md' \<noteq> []"
  shows "\<exists>s'. Storage_Save rank md e s = Inr (True, s') \<and>
     Storage_Load rank md' s' =
       (if one_slot rank md md' then Inr (Some e) else Storage_Load rank md' s)"
proof -
  obtain s' where s': "Storage_Save rank md e s = Inr (True, s')"
    using assms(1) by (cases "node_rank md = rank") (simp_all add: Storage_Save_def)
  then have "st_save rank (Rep_stored (Abs_stored md)) e s = Some s'"
    using assms(2) by (simp add: st_save_def Abs_stored_inverse)
  from store.load_save [OF this, of "Abs_stored md'"]
  show ?thesis using s' assms(2,3)
    by (simp add: Abs_stored_inverse st_load_found Storage_Load_found same_slot_one)
qed

lemma storage_load_after_save_witness:
  "\<exists>s'. Storage_Save 0 demo_metadata (new_DataEntry\<lparr>address := 4096\<rparr>) storage_new = Inr (True, s') \<and>
     Storage_Load 0 demo_metadata s' = Inr (Some (new_DataEntry\<lparr>address := 4096\<rparr>))"
  using storage_load_after_save [of "new_DataEntry\<lparr>address := 4096\<rparr>" demo_metadata demo_metadata 0 storage_new]
  by (simp add: demo_metadata_def one_slot_def)

text \<open>Deleting a cached file closes its descriptor, unmaps its memory and takes its size off the
  account, each once; afterwards the file is not found any more and every other file still is.\<close>

theorem storage_delete_found:
  assumes "file_name md \<noteq> []" and "Storage_Load rank md s = Inr (Some e)" and "file_name md' \<noteq> []"
  shows "\<exists>s'. Storage_Delete rank md s m =
       Inr (True, [Close (memfd e), Munmap (address e) (msize md)], s', memfdFree md e m) \<and>
     Storage_Load rank md' s' =
       (if one_slot rank md md' then Inr None else Storage_Load rank md' s)"
  using assms
  by (auto simp: Storage_Delete_def Storage_Load_def free_entry_def one_slot_def split: if_splits)

lemma storage_delete_found_witness:
  "\<exists>s'. Storage_Delete 0 demo_metadata
       \<lparr>own_dict = Map.empty, backup_dict = [''f0'' \<mapsto> new_DataEntry\<lparr>address := 4096\<rparr>]\<rparr> demo_monitor =
     Inr (True, [Close 0, Munmap 4096 4096], s', memfdFree demo_metadata (new_DataEntry\<lparr>address := 4096\<rparr>) demo_monitor)"
  using storage_delete_found [of demo_metadata 0
      "\<lparr>own_dict = Map.empty, backup_dict = [''f0'' \<mapsto> new_DataEntry\<lparr>address := 4096\<rparr>]\<rparr>"
      "new_DataEntry\<lparr>address := 4096\<rparr>" demo_metadata demo_monitor]
  by (auto simp add: Storage_Load_def demo_metadata_def new_DataEntry_def)

text \<open>\<open>Delete\<close> for a file of the node that the node does not hold falls through to the backups: the
  predecessor's backup of the same name, if there is one, is closed, unmapped and forgotten, and
  the call reports success.\<close>

theorem storage_delete_falls_through:
  assumes "file_name md \<noteq> []" and "node_rank md = rank" and "own_dict s (file_name md) = None"
    and "backup_dict s (file_name md) = Some e"
  shows "Storage_Delete rank md s m = Inr (True, [Close (memfd e), Munmap (address e) (msize md)],
     s\<lparr>backup_dict := (backup_dict s)(file_name md := None)\<rparr>, memfdFree md e m)"
  using assms by (simp add: Storage_Delete_def free_entry_def)

lemma storage_delete_falls_through_witness:
  "Storage_Delete (-1) demo_metadata
       \<lparr>own_dict = Map.empty, backup_dict = [''f0'' \<mapsto> new_DataEntry\<lparr>address := 4096\<rparr>]\<rparr> demo_monitor =
     Inr (True, [Close 0, Munmap 4096 4096], \<lparr>own_dict = Map.empty, backup_dict = Map.empty\<rparr>,
       memfdFree demo_metadata (new_DataEntry\<lparr>address := 4096\<rparr>) demo_monitor)"
  using storage_delete_falls_through [of demo_metadata "-1"
      "\<lparr>own_dict = Map.empty, backup_dict = [''f0'' \<mapsto> new_DataEntry\<lparr>address := 4096\<rparr>]\<rparr>"
      "new_DataEntry\<lparr>address := 4096\<rparr>" demo_monitor]
  by (simp add: demo_metadata_def new_DataEntry_def)

end
