(* ===== verification/Text.thy ===== *)
theory Text
  imports Prelude
begin

text \<open>
  The string utilities of \<open>src/util/util.cpp\<close> (\<open>GetEnv\<close>, \<open>Split\<close>, \<open>Join\<close>, \<open>Find\<close>) and the
  standard library's \<open>std::to_string\<close> and \<open>atoi\<close> as the source uses them.
\<close>

section \<open>Environment\<close>

definition GetEnv :: "(string \<rightharpoonup> string) \<Rightarrow> string \<Rightarrow> string option \<Rightarrow> string" where
  "GetEnv env key dflt =
     (case env key of None \<Rightarrow> (case dflt of None \<Rightarrow> '''' | Some d \<Rightarrow> d) | Some v \<Rightarrow> v)"

section \<open>Split and Join\<close>

definition is_delim :: "char \<Rightarrow> char \<Rightarrow> bool" where
  "is_delim delim c \<longleftrightarrow> c = delim \<or> c = CHR 0x09"

function Split :: "char \<Rightarrow> string \<Rightarrow> string list" where
  "Split delim [] = []"
| "Split delim (c # cs) =
     (if is_delim delim c then Split delim cs
      else let word = c # takeWhile (\<lambda>x. \<not> is_delim delim x) cs
           in word # Split delim (drop (length word) cs))"
  by pat_completeness auto
termination
  by (relation "measure (\<lambda>(_, s). length s)") auto

fun Join :: "string list \<Rightarrow> string \<Rightarrow> string" where
  "Join [] delim = ''''"
| "Join [w] delim = w"
| "Join (w # v # ws) delim = w @ delim @ Join (v # ws) delim"

lemma Split_words:
  "w \<in> set (Split delim s) \<Longrightarrow> w \<noteq> '''' \<and> list_all (\<lambda>c. \<not> is_delim delim c) w"
proof (induction delim s rule: Split.induct)
  case (2 delim c cs)
  let ?word = "c # takeWhile (\<lambda>x. \<not> is_delim delim x) cs"
  show ?case
  proof (cases "is_delim delim c")
    case True
    then show ?thesis using 2 by simp
  next
    case False
    then have "w = ?word \<or> w \<in> set (Split delim (drop (length ?word) cs))"
      using "2.prems" by (simp add: Let_def)
    then show ?thesis
    proof
      assume "w = ?word"
      then show ?thesis using False by (auto simp: list_all_iff dest: set_takeWhileD)
    qed (rule "2.IH"(2) [OF False refl])
  qed
qed simp

lemma drop_takeWhile:
  "drop (Suc (length (takeWhile P cs))) cs = tl (dropWhile P cs)"
  by (induction cs) auto

lemma concat_Split:
  "concat (Split delim s) = filter (\<lambda>c. \<not> is_delim delim c) s"
proof (induction delim s rule: Split.induct)
  case (2 delim c cs)
  show ?case
  proof (cases "is_delim delim c")
    case True
    then show ?thesis using 2 by simp
  next
    case False
    let ?p = "\<lambda>x. \<not> is_delim delim x"
    have "filter ?p cs = takeWhile ?p cs @ filter ?p (tl (dropWhile ?p cs))"
    proof -
      have "filter ?p cs = filter ?p (takeWhile ?p cs) @ filter ?p (dropWhile ?p cs)"
        by (metis filter_append takeWhile_dropWhile_id)
      moreover have "filter ?p (takeWhile ?p cs) = takeWhile ?p cs"
        by (auto simp: filter_id_conv dest: set_takeWhileD)
      moreover have "filter ?p (dropWhile ?p cs) = filter ?p (tl (dropWhile ?p cs))"
        using hd_dropWhile [of ?p cs] dropWhile_eq_Nil_conv [of ?p cs]
        by (cases "dropWhile ?p cs") (simp_all del: dropWhile_eq_Nil_conv)
      ultimately show ?thesis by simp
    qed
    then show ?thesis using 2 False by (simp add: Let_def drop_takeWhile)
  qed
qed simp

definition word_ok :: "char \<Rightarrow> string \<Rightarrow> bool" where
  "word_ok delim w \<longleftrightarrow> w \<noteq> '''' \<and> list_all (\<lambda>c. \<not> is_delim delim c) w"

lemma Split_word: "word_ok delim w \<Longrightarrow> Split delim w = [w]"
  by (cases w) (simp_all add: word_ok_def list_all_iff takeWhile_eq_all_conv [THEN iffD2] Let_def)

lemma takeWhile_until:
  "list_all P xs \<Longrightarrow> \<not> P y \<Longrightarrow> takeWhile P (xs @ y # ys) = xs"
  by (induction xs) auto

lemma Split_word_append:
  assumes "word_ok delim w"
  shows "Split delim (w @ delim # s) = w # Split delim s"
proof -
  obtain c cs where w: "w = c # cs" using assms by (cases w) (auto simp: word_ok_def)
  have "takeWhile (\<lambda>x. \<not> is_delim delim x) (cs @ delim # s) = cs"
    using assms by (intro takeWhile_until) (auto simp: w word_ok_def is_delim_def)
  then show ?thesis using assms by (simp add: w word_ok_def Let_def)
qed

section \<open>Find\<close>

text \<open>The index of the first match before the terminating NUL, or \<open>-1\<close>.\<close>

fun find_from :: "size_t \<Rightarrow> string \<Rightarrow> char \<Rightarrow> size_t" where
  "find_from i [] t = - 1"
| "find_from i (c # cs) t = (if c = t then i else find_from (i + 1) cs t)"

definition Find :: "string \<Rightarrow> char \<Rightarrow> size_t" where
  "Find str t = find_from 0 (takeWhile (\<lambda>c. c \<noteq> CHR 0x00) str) t"

section \<open>Decimal text\<close>

definition digit :: "nat \<Rightarrow> char" where
  "digit d = char_of (48 + d)"

fun dec :: "nat \<Rightarrow> string" where
  "dec n = (if n < 10 then [digit n] else dec (n div 10) @ [digit (n mod 10)])"

declare dec.simps [simp del]

definition to_string :: "int \<Rightarrow> string" where
  "to_string i = (if i < 0 then CHR ''-'' # dec (nat (- i)) else dec (nat i))"

definition is_digit :: "char \<Rightarrow> bool" where
  "is_digit c \<longleftrightarrow> 48 \<le> (of_char c :: nat) \<and> (of_char c :: nat) \<le> 57"

definition digit_val :: "char \<Rightarrow> nat" where
  "digit_val c = of_char c - 48"

definition digits_val :: "string \<Rightarrow> nat" where
  "digits_val s = foldl (\<lambda>a c. 10 * a + digit_val c) 0 (takeWhile is_digit s)"

definition is_space :: "char \<Rightarrow> bool" where
  "is_space c \<longleftrightarrow> c = CHR '' '' \<or> (9 \<le> (of_char c :: nat) \<and> (of_char c :: nat) \<le> 13)"

text \<open>\<open>atoi\<close> and \<open>atoll\<close>, where the value fits their result type.\<close>

definition atoi :: "string \<Rightarrow> int" where
  "atoi s =
     (case dropWhile is_space s of
        [] \<Rightarrow> 0
      | c # cs \<Rightarrow> if c = CHR ''-'' then - int (digits_val cs)
                 else if c = CHR ''+'' then int (digits_val cs)
                 else int (digits_val (c # cs)))"

lemma of_char_digit: "d < 10 \<Longrightarrow> (of_char (digit d) :: nat) = 48 + d"
  by (simp add: digit_def)

lemma is_digit_digit [simp]: "d < 10 \<Longrightarrow> is_digit (digit d)"
  by (simp add: is_digit_def of_char_digit)

lemma digit_val_digit [simp]: "d < 10 \<Longrightarrow> digit_val (digit d) = d"
  by (simp add: digit_val_def of_char_digit)

lemma dec_digits: "list_all is_digit (dec n) \<and> dec n \<noteq> []"
proof (induction n rule: dec.induct)
  case (1 n)
  then show ?case by (subst (1 2) dec.simps) auto
qed

lemma foldl_dec: "foldl (\<lambda>a c. 10 * a + digit_val c) 0 (dec n) = n"
proof (induction n rule: dec.induct)
  case (1 n)
  then show ?case by (subst dec.simps) auto
qed

lemma digits_val_dec: "digits_val (dec n) = n"
  using dec_digits [of n] foldl_dec [of n]
  by (simp add: digits_val_def list_all_iff takeWhile_eq_all_conv [THEN iffD2])

lemma is_digit_not_space: "is_digit c \<Longrightarrow> \<not> is_space c \<and> c \<noteq> CHR ''-'' \<and> c \<noteq> CHR ''+''"
  by (auto simp: is_digit_def is_space_def)

lemma atoi_to_string: "atoi (to_string i) = i"
proof (cases "i < 0")
  case True
  then show ?thesis
    by (simp add: atoi_def to_string_def is_space_def digits_val_dec)
next
  case False
  obtain c cs where d: "dec (nat i) = c # cs" using dec_digits [of "nat i"] by (cases "dec (nat i)") auto
  then have "is_digit c" using dec_digits [of "nat i"] by simp
  then show ?thesis
    using False d digits_val_dec [of "nat i"] is_digit_not_space [of c]
    by (simp add: atoi_def to_string_def)
qed

definition size_to_string :: "size_t \<Rightarrow> string" where
  "size_to_string w = dec (unat w)"

lemma atoi_size_to_string: "atoi (size_to_string w) = int (unat w)"
  using atoi_to_string [of "int (unat w)"] by (simp add: size_to_string_def to_string_def)

text \<open>
  \<open>std::stoul\<close> in base 10: the exceptions it throws are caught nowhere and end the process.
\<close>

definition stoul :: "string \<Rightarrow> size_t result" where
  "stoul s =
     (let t = dropWhile is_space s;
          negative = (t \<noteq> [] \<and> hd t = CHR ''-'');
          t = (if t \<noteq> [] \<and> (hd t = CHR ''-'' \<or> hd t = CHR ''+'') then tl t else t)
      in if t = [] \<or> \<not> is_digit (hd t) then Inl (Fatal ''stoul: invalid argument'')
         else if 2 ^ 64 \<le> digits_val t then Inl (Fatal ''stoul: out of range'')
         else Inr (if negative then - of_nat (digits_val t) else of_nat (digits_val t)))"

lemma stoul_size_to_string: "stoul (size_to_string w) = Inr w"
proof -
  obtain c cs where d: "dec (unat w) = c # cs" using dec_digits [of "unat w"] by (cases "dec (unat w)") auto
  then have "is_digit c" using dec_digits [of "unat w"] by simp
  moreover have "digits_val (c # cs) = unat w" using digits_val_dec [of "unat w"] d by simp
  moreover have "unat w < 2 ^ 64" using unsigned_less [where 'a = nat, of w] by simp
  ultimately show ?thesis
    using is_digit_not_space [of c] by (simp add: stoul_def size_to_string_def d Let_def)
qed

section \<open>Properties\<close>

text \<open>Splitting what \<open>Join\<close> made with a one-character delimiter gives the words back, when
  they are non-empty and contain neither the delimiter nor a tab (the host list of the world).\<close>

theorem Split_Join:
  assumes "list_all (word_ok delim) ws"
  shows "Split delim (Join ws [delim]) = ws"
  using assms
proof (induction ws "[delim]" rule: Join.induct)
  case (3 w v ws)
  then show ?case by (simp add: Split_word_append)
qed (auto simp: Split_word)

lemma Split_Join_witness:
  "Split CHR '','' (Join [''node-0'', ''node-1''] '','') = [''node-0'', ''node-1'']"
  by (rule Split_Join) (simp add: word_ok_def is_delim_def)

text \<open>\<open>Split\<close> loses only delimiters: its words are non-empty and free of them, and their
  concatenation is the input without delimiters and tabs.\<close>

theorem Split_sound:
  "list_all (word_ok delim) (Split delim s) \<and>
   concat (Split delim s) = filter (\<lambda>c. c \<noteq> delim \<and> c \<noteq> CHR 0x09) s"
  using Split_words [of _ delim s] concat_Split [of delim s]
  by (auto simp: list_all_iff word_ok_def is_delim_def)

end
