(* ===== verification/Base64.thy ===== *)
theory Base64
  imports Text "HOL-Library.Word"
begin

text \<open>
  \<open>base64_encode\<close> and \<open>base64_decode\<close> of \<open>src/util/util.cpp\<close>, with their 32-bit accumulator, and
  their equivalence with the group-wise definition of base64 without padding.
\<close>

unbundle bit_operations_syntax

section \<open>The code\<close>

definition base64_chars :: string where
  "base64_chars = ''ABCDEFGHIJKLMNOPQRSTUVWXYZabcdefghijklmnopqrstuvwxyz0123456789+/''"

definition symbol :: "32 word \<Rightarrow> char" where
  "symbol w = base64_chars ! unat w"

type_synonym encoder = "nat \<times> 32 word \<times> string \<times> nat"

definition enc_step :: "encoder \<Rightarrow> char \<Rightarrow> encoder" where
  "enc_step st c =
     (case st of (counter, bit_stream, encoded, _) \<Rightarrow>
       let num_val = of_nat (of_char c) :: 32 word;
           offset = 16 - counter mod 3 * 8;
           bit_stream = bit_stream + push_bit offset num_val;
           encoded = (if offset = 16 then encoded @ [symbol (drop_bit 18 bit_stream AND 63)] else encoded);
           encoded = (if offset = 8 then encoded @ [symbol (drop_bit 12 bit_stream AND 63)] else encoded)
       in if offset = 0 \<and> counter \<noteq> 3
          then (counter + 1, 0,
                encoded @ [symbol (drop_bit 6 bit_stream AND 63), symbol (bit_stream AND 63)], offset)
          else (counter + 1, bit_stream, encoded, offset))"

definition base64_encode :: "string \<Rightarrow> string" where
  "base64_encode data =
     (case foldl enc_step (0, 0, [], 0) data of (counter, bit_stream, encoded, offset) \<Rightarrow>
        let encoded = (if offset = 16 then encoded @ [symbol (drop_bit 12 bit_stream AND 63)] else encoded)
        in if offset = 8 then encoded @ [symbol (drop_bit 6 bit_stream AND 63)] else encoded)"

definition low_char :: "32 word \<Rightarrow> char" where
  "low_char w = char_of (unat (w AND 255))"

fun dec_loop :: "nat \<Rightarrow> 32 word \<Rightarrow> string \<Rightarrow> string \<Rightarrow> string" where
  "dec_loop counter bit_stream decoded [] = decoded"
| "dec_loop counter bit_stream decoded (c # cs) =
     (let num_val = Find base64_chars c in
      if num_val \<noteq> - 1 then
        let offset = 18 - counter mod 4 * 6;
            bit_stream = bit_stream + ucast (push_bit offset num_val);
            decoded = (if offset = 12 then decoded @ [low_char (drop_bit 16 bit_stream)] else decoded);
            decoded = (if offset = 6 then decoded @ [low_char (drop_bit 8 bit_stream)] else decoded)
        in if offset = 0 \<and> counter \<noteq> 4
           then dec_loop (counter + 1) 0 (decoded @ [low_char bit_stream]) cs
           else dec_loop (counter + 1) bit_stream decoded cs
      else if c \<noteq> CHR ''='' then []
      else dec_loop (counter + 1) bit_stream decoded cs)"

definition base64_decode :: "string \<Rightarrow> string" where
  "base64_decode data = dec_loop 0 0 [] data"

section \<open>The reference\<close>

definition sym :: "nat \<Rightarrow> char" where
  "sym n = base64_chars ! n"

text \<open>Three bytes are four symbols; one or two bytes at the end are two or three.\<close>

fun encode_groups :: "nat list \<Rightarrow> nat list" where
  "encode_groups (a # b # c # r) =
     [a div 4, a mod 4 * 16 + b div 16, b mod 16 * 4 + c div 64, c mod 64] @ encode_groups r"
| "encode_groups [a, b] = [a div 4, a mod 4 * 16 + b div 16, b mod 16 * 4]"
| "encode_groups [a] = [a div 4, a mod 4 * 16]"
| "encode_groups [] = []"

definition codes :: "string \<Rightarrow> nat list" where
  "codes s = map of_char s"

section \<open>Bits of a group\<close>

lemma unat_and_63: "unat (x AND 63 :: 32 word) = unat x mod 64"
proof -
  have "x AND 63 = take_bit 6 x" by (simp add: take_bit_eq_mask mask_eq_exp_minus_1)
  then have "unat (x AND 63) = take_bit 6 (unat x)" by (simp add: unsigned_take_bit_eq)
  then show ?thesis by (simp add: take_bit_eq_mod)
qed

lemma unat_and_255: "unat (x AND 255 :: 32 word) = unat x mod 256"
proof -
  have "x AND 255 = take_bit 8 x" by (simp add: take_bit_eq_mask mask_eq_exp_minus_1)
  then have "unat (x AND 255) = take_bit 8 (unat x)" by (simp add: unsigned_take_bit_eq)
  then show ?thesis by (simp add: take_bit_eq_mod)
qed

lemma unat_drop: "unat (drop_bit n x :: 32 word) = unat x div 2 ^ n"
proof -
  have "unat x < 2 ^ 32" using unsigned_less [of x] by simp
  then have "unat (drop_bit n x) = drop_bit n (unat x)"
    by (simp add: unsigned_drop_bit_eq take_bit_nat_eq_self)
  then show ?thesis by (simp only: drop_bit_eq_div)
qed

lemma unat_small: "W < 2 ^ 32 \<Longrightarrow> unat (of_nat W :: 32 word) = W"
  by (simp add: unat_of_nat)

lemma symbol_drop: "W < 2 ^ 32 \<Longrightarrow> symbol (drop_bit n (of_nat W) AND 63) = sym (W div 2 ^ n mod 64)"
  by (simp only: symbol_def sym_def unat_and_63 unat_drop unat_small)

lemma symbol_low: "W < 2 ^ 32 \<Longrightarrow> symbol (of_nat W AND 63) = sym (W mod 64)"
  by (simp only: symbol_def sym_def unat_and_63 unat_small)

lemma low_char_drop: "W < 2 ^ 32 \<Longrightarrow> low_char (drop_bit n (of_nat W)) = char_of (W div 2 ^ n mod 256)"
  by (simp only: low_char_def unat_and_255 unat_drop unat_small)

lemma low_char_low: "W < 2 ^ 32 \<Longrightarrow> low_char (of_nat W) = char_of (W mod 256)"
  by (simp only: low_char_def unat_and_255 unat_small)

lemma first_sextet: "a < 256 \<Longrightarrow> a * 65536 div 262144 mod 64 = a div (4 :: nat)"
proof -
  assume a: "a < 256"
  have "a * 65536 = 262144 * (a div 4) + 65536 * (a mod 4)" using mult_div_mod_eq [of 4 a] by linarith
  moreover have "65536 * (a mod 4) < 262144" using mod_less_divisor [of 4 a] by linarith
  ultimately have "a * 65536 div 262144 = a div 4" by simp
  then show ?thesis using a by simp
qed

lemma split_by: "0 < m \<Longrightarrow> \<exists>q r. n = m * q + r \<and> r < m \<and> n div m = q \<and> n mod m = (r :: nat)"
  by (metis mult_div_mod_eq mod_less_divisor)

lemma digit_mod: "y < m \<Longrightarrow> (m * x + y) mod m = (y :: nat)"
  by simp

lemma second_sextet:
  assumes "b < 256"
  shows "(a * 65536 + b * 256) div 4096 mod 64 = a mod 4 * 16 + b div (16 :: nat)"
proof -
  obtain q r where b: "b = 16 * q + r" "r < 16" "b div 16 = q" using split_by [of 16 b, OF zero_less_numeral] by blast
  obtain u v where a: "a = 4 * u + v" "v < 4" "a mod 4 = v" using split_by [of 4 a, OF zero_less_numeral] by blast
  have "a * 65536 + b * 256 = 4096 * (a * 16 + q) + 256 * r" by (simp add: b(1))
  then have "(a * 65536 + b * 256) div 4096 = a * 16 + q" using b(2) by simp
  also have "\<dots> = 64 * u + (v * 16 + q)" by (simp add: a(1))
  finally show ?thesis using assms a b by simp
qed

lemma third_sextet:
  assumes "c < 256"
  shows "(a * 65536 + b * 256 + c) div 64 mod 64 = b mod 16 * 4 + c div (64 :: nat)"
proof -
  obtain q r where c: "c = 64 * q + r" "r < 64" "c div 64 = q" using split_by [of 64 c, OF zero_less_numeral] by blast
  obtain u v where b: "b = 16 * u + v" "v < 16" "b mod 16 = v" using split_by [of 16 b, OF zero_less_numeral] by blast
  have "a * 65536 + b * 256 + c = 64 * (a * 1024 + b * 4 + q) + r" by (simp add: c(1))
  then have "(a * 65536 + b * 256 + c) div 64 = a * 1024 + b * 4 + q" using c(2) by simp
  also have "\<dots> = 64 * (a * 16 + u) + (v * 4 + q)" by (simp add: b(1))
  finally have "(a * 65536 + b * 256 + c) div 64 = 64 * (a * 16 + u) + (v * 4 + q)" .
  moreover have "v * 4 + q < 64" using assms b(2) c(1) by linarith
  ultimately show ?thesis by (simp only: b(3) c(3) digit_mod)
qed

lemma fourth_sextet: "(a * 65536 + b * 256 + c) mod 64 = c mod (64 :: nat)"
proof -
  have "a * 65536 + b * 256 + c = c + 64 * (a * 1024 + b * 4)" by simp
  then show ?thesis by (simp only: mod_mult_self2)
qed

section \<open>The encoder\<close>

lemma enc_step_0:
  "a = of_char c \<Longrightarrow> enc_step (3 * k, 0, out, off) c = (3 * k + 1, of_nat (a * 65536), out @ [sym (a div 4)], 16)"
proof -
  assume a: "a = of_char c"
  then have lt: "a < 256" by simp
  have "push_bit 16 (of_nat a :: 32 word) = of_nat (a * 65536)" by (simp add: push_bit_eq_mult)
  moreover have "symbol (drop_bit 18 (of_nat (a * 65536)) AND 63) = sym (a div 4)"
    using symbol_drop [of "a * 65536" 18] first_sextet [OF lt] lt by simp
  ultimately show ?thesis using a by (simp add: enc_step_def Let_def)
qed

lemma enc_step_1:
  assumes "b = of_char c" and "a < 256"
  shows "enc_step (3 * k + 1, of_nat (a * 65536), out, off) c =
     (3 * k + 2, of_nat (a * 65536 + b * 256), out @ [sym (a mod 4 * 16 + b div 16)], 8)"
proof -
  have lt: "b < 256" using assms(1) by simp
  have "of_nat (a * 65536) + push_bit 8 (of_nat b :: 32 word) = of_nat (a * 65536 + b * 256)"
    by (simp add: push_bit_eq_mult)
  moreover have "symbol (drop_bit 12 (of_nat (a * 65536 + b * 256)) AND 63) = sym (a mod 4 * 16 + b div 16)"
    using symbol_drop [of "a * 65536 + b * 256" 12] second_sextet [OF lt] lt assms(2) by simp
  moreover have "(3 * k + 1) mod 3 = 1" by simp
  ultimately show ?thesis using assms(1) by (simp add: enc_step_def Let_def del: of_nat_add of_nat_mult)
qed

lemma enc_step_2:
  assumes "x = of_char c" and "a < 256" and "b < 256"
  shows "enc_step (3 * k + 2, of_nat (a * 65536 + b * 256), out, off) c =
     (3 * (k + 1), 0, out @ [sym (b mod 16 * 4 + x div 64), sym (x mod 64)], 0)"
proof -
  have lt: "x < 256" using assms(1) by simp
  have W: "a * 65536 + b * 256 + x < 2 ^ 32" using assms(2,3) lt by simp
  have "of_nat (a * 65536 + b * 256) + push_bit 0 (of_nat x :: 32 word) = of_nat (a * 65536 + b * 256 + x)"
    by simp
  moreover have "symbol (drop_bit 6 (of_nat (a * 65536 + b * 256 + x)) AND 63) = sym (b mod 16 * 4 + x div 64)"
    using symbol_drop [OF W, of 6] third_sextet [OF lt] by simp
  moreover have "symbol (of_nat (a * 65536 + b * 256 + x) AND 63) = sym (x mod 64)"
    using symbol_low [OF W] by (simp only: fourth_sextet)
  moreover have "(3 * k + 2) mod 3 = 2" "3 * k + 2 \<noteq> 3" by presburger+
  ultimately show ?thesis
    using assms(1) by (simp add: enc_step_def Let_def del: of_nat_add of_nat_mult)
qed

lemma of_char_less: "(of_char c :: nat) < 256"
  by simp

lemma enc_groups:
  "(case foldl enc_step (3 * k, 0, out, 0) s of (counter, bit_stream, encoded, offset) \<Rightarrow>
      let encoded = (if offset = 16 then encoded @ [symbol (drop_bit 12 bit_stream AND 63)] else encoded)
      in if offset = 8 then encoded @ [symbol (drop_bit 6 bit_stream AND 63)] else encoded) =
    out @ map sym (encode_groups (codes s))"
proof (induction "codes s" arbitrary: s k out rule: encode_groups.induct)
  case (1 a b c r)
  then obtain x y z s' where s: "s = x # y # z # s'" "a = of_char x" "b = of_char y" "c = of_char z" "r = codes s'"
    by (auto simp: codes_def)
  have "foldl enc_step (3 * k, 0, out, 0) s =
      foldl enc_step (3 * (k + 1), 0, out @ map sym [a div 4, a mod 4 * 16 + b div 16, b mod 16 * 4 + c div 64, c mod 64], 0) s'"
    using s enc_step_0 [OF s(2), of k out 0] enc_step_1 [OF s(3), of a k] enc_step_2 [OF s(4), of a b k]
    by (simp add: of_char_less)
  then show ?case using 1(1) [OF s(5), of "k + 1"] s by (simp add: codes_def)
next
  case (2 a b)
  then obtain x y where s: "s = [x, y]" "a = of_char x" "b = of_char y" by (auto simp: codes_def)
  have "a < 256" "b < 256" using s(2,3) by simp_all
  then have W: "a * 65536 + b * 256 < 2 ^ 32" by simp
  have "symbol (drop_bit 6 (of_nat (a * 65536 + b * 256)) AND 63) = sym (b mod 16 * 4)"
    using symbol_drop [OF W, of 6] third_sextet [of 0 a b] by simp
  then show ?case
    using s enc_step_0 [OF s(2), of k out 0] enc_step_1 [OF s(3), of a k] 2
    by (simp add: codes_def of_char_less)
next
  case (3 a)
  then obtain x where s: "s = [x]" "a = of_char x" by (auto simp: codes_def)
  have "a < 256" using s(2) by simp
  then have W: "a * 65536 < 2 ^ 32" by simp
  have "symbol (drop_bit 12 (of_nat (a * 65536)) AND 63) = sym (a mod 4 * 16)"
    using symbol_drop [OF W, of 12] second_sextet [of 0 a] by simp
  then show ?case using s enc_step_0 [OF s(2), of k out 0] 3 by (simp add: codes_def)
next
  case 4
  then show ?case by (simp add: codes_def)
qed

section \<open>The decoder\<close>

lemma chars_distinct: "distinct base64_chars \<and> length base64_chars = 64 \<and> CHR 0x00 \<notin> set base64_chars"
  unfolding base64_chars_def by code_simp

lemma find_from_nth:
  "distinct cs \<Longrightarrow> i < length cs \<Longrightarrow> find_from j cs (cs ! i) = j + of_nat i"
proof (induction cs arbitrary: i j)
  case (Cons c cs)
  then show ?case by (cases i) (auto simp: add.assoc)
qed simp

lemma Find_sym: "n < 64 \<Longrightarrow> Find base64_chars (sym n) = of_nat n"
proof -
  assume n: "n < 64"
  have "takeWhile (\<lambda>c. c \<noteq> CHR 0x00) base64_chars = base64_chars"
    using chars_distinct by (auto simp: takeWhile_eq_all_conv)
  then show ?thesis using n chars_distinct by (simp only: Find_def sym_def find_from_nth add_0)
qed

declare dec_loop.simps(2) [simp del]

text \<open>The accumulator after symbols of the values \<open>p\<close>, \<open>q\<close>, \<open>r\<close>, and what the decoder takes out of it.\<close>

lemma dec_step_at:
  assumes "n < 64" and "off = 18 - counter mod 4 * 6"
  shows "dec_loop counter (of_nat W) out (sym n # cs) =
     (let V = W + n * 2 ^ off;
          out = (if off = 12 then out @ [low_char (drop_bit 16 (of_nat V))] else out);
          out = (if off = 6 then out @ [low_char (drop_bit 8 (of_nat V))] else out)
      in if off = 0 \<and> counter \<noteq> 4 then dec_loop (counter + 1) 0 (out @ [low_char (of_nat V)]) cs
         else dec_loop (counter + 1) (of_nat V) out cs)"
proof -
  have small: "unat (of_nat n :: size_t) = n" using assms(1) by (simp add: unat_of_nat)
  have nz: "(of_nat n :: size_t) \<noteq> - 1"
  proof
    assume "(of_nat n :: size_t) = - 1"
    then have "n = unat (- 1 :: size_t)" using small by metis
    then show False using assms(1) by (simp add: unsigned_minus_1_eq_mask mask_eq_exp_minus_1)
  qed
  have u: "(ucast (push_bit off (of_nat n :: size_t)) :: 32 word) = of_nat (n * 2 ^ off)"
  proof -
    have "(2 :: nat) ^ off \<le> 2 ^ 18" using assms(2) by (intro power_increasing) simp_all
    then have "n * 2 ^ off \<le> 64 * 2 ^ 18" using assms(1) by (intro mult_le_mono) simp_all
    then have "unat (of_nat (n * 2 ^ off) :: size_t) = n * 2 ^ off" by (intro unat_of_nat_small) simp
    then have "(ucast (of_nat (n * 2 ^ off) :: size_t) :: 32 word) = of_nat (n * 2 ^ off)"
      by (metis of_nat_unat)
    then show ?thesis by (simp add: push_bit_eq_mult)
  qed
  show ?thesis
    unfolding dec_loop.simps(2) Let_def Find_sym [OF assms(1)] assms(2) [symmetric] u of_nat_add
    by (simp only: nz not_False_eq_True if_True)
qed

lemma first_byte:
  fixes a :: nat
  assumes "x < 16" and "a < 256"
  shows "(a div 4 * 262144 + (a mod 4 * 16 + x) * 4096) div 65536 mod 256 = a"
proof -
  obtain q r where a: "a = 4 * q + r" "a div 4 = q" "a mod 4 = r"
    using split_by [of 4 a, OF zero_less_numeral] by blast
  have "q * 262144 + (r * 16 + x) * 4096 = 65536 * a + 4096 * x" by (simp add: a(1))
  then have "(q * 262144 + (r * 16 + x) * 4096) div 65536 = a" using assms(1) by simp
  then show ?thesis using assms(2) by (simp only: a(2,3)) simp
qed

lemma second_byte:
  fixes b :: nat
  assumes "b < 256" and "y < 4"
  shows "(p * 262144 + (q * 16 + b div 16) * 4096 + (b mod 16 * 4 + y) * 64) div 256 mod 256 = b"
proof -
  obtain u v where b: "b = 16 * u + v" "b div 16 = u" "b mod 16 = v"
    using split_by [of 16 b, OF zero_less_numeral] by blast
  have "p * 262144 + (q * 16 + u) * 4096 + (v * 4 + y) * 64 = 256 * (p * 1024 + q * 256 + b) + 64 * y"
    by (simp add: b(1))
  then have "(p * 262144 + (q * 16 + u) * 4096 + (v * 4 + y) * 64) div 256 = 256 * (p * 4 + q) + b"
    using assms(2) by simp
  then show ?thesis using assms(1) by (simp only: b(2,3) digit_mod)
qed

lemma third_byte:
  fixes c :: nat
  assumes "c < 256"
  shows "(p * 262144 + q * 4096 + (r * 4 + c div 64) * 64 + c mod 64) mod 256 = c"
proof -
  obtain u v where c: "c = 64 * u + v" "c div 64 = u" "c mod 64 = v"
    using split_by [of 64 c, OF zero_less_numeral] by blast
  have "p * 262144 + q * 4096 + (r * 4 + u) * 64 + v = 256 * (p * 1024 + q * 16 + r) + c" by (simp add: c(1))
  then show ?thesis using assms by (simp only: c(2,3) digit_mod)
qed

text \<open>Two, three and four symbols from the start of a group.\<close>

lemma offsets:
  "18 = 18 - (4 * k) mod 4 * (6 :: nat)" "12 = 18 - (4 * k + 1) mod 4 * (6 :: nat)"
  "6 = 18 - (4 * k + 2) mod 4 * (6 :: nat)" "0 = 18 - (4 * k + 3) mod 4 * (6 :: nat)"
proof -
  have "(4 * k) mod 4 = 0" "(4 * k + 1) mod 4 = 1" "(4 * k + 2) mod 4 = 2" "(4 * k + 3) mod 4 = 3"
    by presburger+
  then show "18 = 18 - (4 * k) mod 4 * (6 :: nat)" "12 = 18 - (4 * k + 1) mod 4 * (6 :: nat)"
    "6 = 18 - (4 * k + 2) mod 4 * (6 :: nat)" "0 = 18 - (4 * k + 3) mod 4 * (6 :: nat)" by simp_all
qed

lemma dec_pair:
  assumes "p < 64" and "q < 64"
  shows "dec_loop (4 * k) 0 out (sym p # sym q # cs) =
     dec_loop (4 * k + 2) (of_nat (p * 262144 + q * 4096))
       (out @ [char_of ((p * 262144 + q * 4096) div 65536 mod 256)]) cs"
proof -
  have "p * 262144 + q * 4096 < 2 ^ 32" using assms by simp
  note byte = low_char_drop [OF this, of 16]
  have "dec_loop (4 * k) (of_nat 0) out (sym p # sym q # cs) =
      dec_loop (4 * k + 1) (of_nat (p * 262144)) out (sym q # cs)"
    unfolding dec_step_at [OF assms(1) offsets(1)] Let_def by simp
  also have "\<dots> = dec_loop (4 * k + 1 + 1) (of_nat (p * 262144 + q * 4096))
       (out @ [low_char (drop_bit 16 (of_nat (p * 262144 + q * 4096)))]) cs"
    unfolding dec_step_at [OF assms(2) offsets(2)] Let_def by (simp del: of_nat_add of_nat_mult)
  finally show ?thesis using byte by (simp del: of_nat_add of_nat_mult)
qed

lemma dec_triple:
  assumes "p < 64" and "q < 64" and "r < 64"
  shows "dec_loop (4 * k) 0 out (sym p # sym q # sym r # cs) =
     dec_loop (4 * k + 3) (of_nat (p * 262144 + q * 4096 + r * 64))
       (out @ [char_of ((p * 262144 + q * 4096) div 65536 mod 256),
               char_of ((p * 262144 + q * 4096 + r * 64) div 256 mod 256)]) cs"
proof -
  have "p * 262144 + q * 4096 + r * 64 < 2 ^ 32" using assms by simp
  note byte = low_char_drop [OF this, of 8]
  show ?thesis
    unfolding dec_pair [OF assms(1,2)] dec_step_at [OF assms(3) offsets(3)] Let_def
    using byte by (simp add: numeral_3_eq_3 del: of_nat_add of_nat_mult)
qed

lemma dec_quad:
  assumes "p < 64" and "q < 64" and "r < 64" and "s < 64"
  shows "dec_loop (4 * k) 0 out (sym p # sym q # sym r # sym s # cs) =
     dec_loop (4 * (k + 1)) 0
       (out @ [char_of ((p * 262144 + q * 4096) div 65536 mod 256),
               char_of ((p * 262144 + q * 4096 + r * 64) div 256 mod 256),
               char_of ((p * 262144 + q * 4096 + r * 64 + s) mod 256)]) cs"
proof -
  have "p * 262144 + q * 4096 + r * 64 + s < 2 ^ 32" using assms by simp
  note byte = low_char_low [OF this]
  have k: "4 * k + 3 \<noteq> 4" "4 * k + 3 + 1 = 4 * (k + 1)" by presburger+
  show ?thesis
    unfolding dec_triple [OF assms(1-3)] dec_step_at [OF assms(4) offsets(4)] Let_def
    unfolding k(2) using k(1) byte by (simp del: of_nat_add of_nat_mult)
qed

lemma sextet_bounds:
  fixes a b c :: nat
  assumes "a < 256" and "b < 256" and "c < 256"
  shows "a div 4 < 64" and "a mod 4 * 16 + b div 16 < 64" and "b mod 16 * 4 + c div 64 < 64" and "c mod 64 < 64"
    and "b div 16 < 16" and "c div 64 < 4"
proof -
  show s: "a div 4 < 64" "b div 16 < 16" "c div 64 < 4" "c mod 64 < 64" using assms by simp_all
  have "a mod 4 < 4" "b mod 16 < 16" by simp_all
  then show "a mod 4 * 16 + b div 16 < 64" "b mod 16 * 4 + c div 64 < 64" using s(2,3) by linarith+
qed

lemma decode_groups:
  "list_all (\<lambda>n. n < 256) ns \<Longrightarrow>
     dec_loop (4 * k) 0 out (map sym (encode_groups ns)) = out @ map char_of ns"
proof (induction ns arbitrary: k out rule: encode_groups.induct)
  case (1 a b c r)
  have lt: "a < 256" "b < 256" "c < 256" using "1.prems" by simp_all
  note sx = sextet_bounds [OF lt]
  note bytes = first_byte [OF sx(5) lt(1)] second_byte [OF lt(2) sx(6), of "a div 4" "a mod 4"]
    third_byte [OF lt(3), of "a div 4" "a mod 4 * 16 + b div 16" "b mod 16"]
  show ?case
    using "1.IH" [of "k + 1" "out @ [char_of a, char_of b, char_of c]"] "1.prems"
    by (simp only: encode_groups.simps append_Cons append_Nil list.map dec_quad [OF sx(1-4)] bytes) simp
next
  case (2 a b)
  have lt: "a < 256" "b < 256" "(0 :: nat) < 256" using "2.prems" by simp_all
  note sx = sextet_bounds [OF lt]
  have r: "b mod 16 * 4 < 64" using sx(3) by simp
  note bytes = first_byte [OF sx(5) lt(1)] second_byte [OF lt(2), of 0 "a div 4" "a mod 4"]
  show ?case
    using bytes by (simp only: encode_groups.simps list.map dec_triple [OF sx(1,2) r] dec_loop.simps(1)) simp
next
  case (3 a)
  have lt: "a < 256" "(0 :: nat) < 256" using "3.prems" by simp_all
  have sx: "a div 4 < 64" "a mod 4 * 16 < 64" using sextet_bounds [OF lt(1,2,2)] by simp_all
  show ?case
    using first_byte [of 0 a] lt(1)
    by (simp only: encode_groups.simps list.map dec_pair [OF sx] dec_loop.simps(1)) simp
qed simp

section \<open>Properties\<close>


end
