(* ===== verification/World.thy ===== *)
theory World
  imports Text
begin

text \<open>
  The training job of \<open>include/config/world.h\<close> (rank, world size and host list, from the
  environment) and the neighbours a node talks to (\<open>getNextNode\<close>, \<open>getPrevNode\<close>, \<open>getNodeIP\<close> of
  \<open>src/coordinator/client.cpp\<close>): the nodes form a ring.  Name resolution is a parameter.
\<close>

section \<open>The world state\<close>

record world =
  w_hostname :: string
  w_job_name :: string
  w_hosts :: "string list"
  w_world_size :: int
  w_node_rank :: int

definition WorldState_new :: "(string \<rightharpoonup> string) \<Rightarrow> world" where
  "WorldState_new env =
     (let hostname = GetEnv env ''HOSTNAME'' None in
      \<lparr>w_hostname = hostname,
       w_job_name = GetEnv env ''TRANSOM_JOBNAME'' (Some ''test-job''),
       w_hosts = Split CHR '','' (GetEnv env ''TRANSOM_HOSTS'' (Some hostname)),
       w_world_size = atoi (GetEnv env ''TRANSOM_WORLD_SIZE'' (Some ''1'')),
       w_node_rank = atoi (GetEnv env ''TRANSOM_RANK'' (Some ''0''))\<rparr>)"

text \<open>The vector of hosts is indexed without a bounds check.\<close>

definition host_at :: "world \<Rightarrow> int \<Rightarrow> string result" where
  "host_at w i =
     (if 0 \<le> i \<and> nat i < length (w_hosts w) then Inr (w_hosts w ! nat i)
      else Inl (UB ''host index out of range''))"

definition next_rank :: "world \<Rightarrow> int result" where
  "next_rank w =
     (if w_world_size w = 0 then Inl (UB ''remainder by zero'')
      else Inr (c_mod (w_node_rank w + 1) (w_world_size w)))"

definition prev_rank :: "world \<Rightarrow> int" where
  "prev_rank w = (if w_node_rank w = 0 then w_world_size w - 1 else w_node_rank w - 1)"

text \<open>
  \<open>ResolveHostname\<close>: a dotted address stands for itself, otherwise the first address the
  resolver lists (\<open>None\<close>: no such host).
\<close>

definition ResolveHostname ::
  "(string \<Rightarrow> bool) \<Rightarrow> (string \<Rightarrow> string list option) \<Rightarrow> string \<Rightarrow> string option" where
  "ResolveHostname is_ip gethostbyname h =
     (if is_ip h then Some h
      else case gethostbyname h of None \<Rightarrow> None | Some [] \<Rightarrow> None | Some (a # _) \<Rightarrow> Some a)"

text \<open>\<open>None\<close>: the host does not resolve, or the rank is not one of the world's.\<close>

definition getNextNode :: "(string \<Rightarrow> string option) \<Rightarrow> world \<Rightarrow> string option result" where
  "getNextNode resolve w =
     and_then (next_rank w) (\<lambda>i. and_then (host_at w i) (\<lambda>h. Inr (resolve h)))"

definition getPrevNode :: "(string \<Rightarrow> string option) \<Rightarrow> world \<Rightarrow> string option result" where
  "getPrevNode resolve w = and_then (host_at w (prev_rank w)) (\<lambda>h. Inr (resolve h))"

definition getNodeIP :: "(string \<Rightarrow> string option) \<Rightarrow> world \<Rightarrow> int \<Rightarrow> string option result" where
  "getNodeIP resolve w rank =
     (if rank < 0 \<or> w_world_size w \<le> rank then Inr None
      else and_then (host_at w rank) (\<lambda>h. Inr (resolve h)))"

section \<open>The ring\<close>

definition world_ok :: "world \<Rightarrow> bool" where
  "world_ok w \<longleftrightarrow> 0 < w_world_size w \<and> int (length (w_hosts w)) = w_world_size w \<and>
     0 \<le> w_node_rank w \<and> w_node_rank w < w_world_size w"

lemma next_rank_ok:
  assumes "world_ok w"
  shows "next_rank w = Inr ((w_node_rank w + 1) mod w_world_size w)"
  using assms by (simp add: next_rank_def world_ok_def c_mod_nonneg)

lemma prev_rank_ok:
  assumes "world_ok w"
  shows "prev_rank w = (w_node_rank w - 1) mod w_world_size w"
proof (cases "w_node_rank w = 0")
  case True
  then show ?thesis using assms
    by (simp add: prev_rank_def world_ok_def zmod_minus1)
next
  case False
  then show ?thesis using assms
    by (simp add: prev_rank_def world_ok_def)
qed

lemma host_at_ok:
  assumes "world_ok w" and "0 \<le> i" and "i < w_world_size w"
  shows "host_at w i = Inr (w_hosts w ! nat i)"
proof -
  have "i < int (length (w_hosts w))" using assms by (simp add: world_ok_def)
  then have "nat i < length (w_hosts w)" using assms(2) by linarith
  then show ?thesis using assms(2) by (simp add: host_at_def)
qed

text \<open>The nodes form a ring: with a consistent world (as many hosts as the world size, the rank
  inside it) both neighbours are hosts of the world, no index leaves the host list, and the
  predecessor of a node's successor is the node itself, so the node that keeps a backup is the
  node that is asked for it.\<close>

theorem neighbours_form_a_ring:
  assumes w: "world_ok w"
  shows "\<exists>nxt prv. getNextNode resolve w = Inr (resolve (w_hosts w ! nat nxt)) \<and>
     getPrevNode resolve w = Inr (resolve (w_hosts w ! nat prv)) \<and>
     next_rank w = Inr nxt \<and> prev_rank w = prv \<and>
     0 \<le> nxt \<and> nxt < w_world_size w \<and> 0 \<le> prv \<and> prv < w_world_size w \<and>
     prev_rank (w\<lparr>w_node_rank := nxt\<rparr>) = w_node_rank w \<and>
     next_rank (w\<lparr>w_node_rank := prv\<rparr>) = Inr (w_node_rank w)"
proof -
  let ?n = "w_world_size w" and ?r = "w_node_rank w"
  let ?nx = "(?r + 1) mod ?n" and ?pv = "(?r - 1) mod ?n"
  have n: "0 < ?n" and r: "0 \<le> ?r" "?r < ?n" using w by (simp_all add: world_ok_def)
  have b: "0 \<le> ?nx" "?nx < ?n" "0 \<le> ?pv" "?pv < ?n" using n by simp_all
  have w1: "world_ok (w\<lparr>w_node_rank := ?nx\<rparr>)" "world_ok (w\<lparr>w_node_rank := ?pv\<rparr>)"
    using w b by (simp_all add: world_ok_def)
  have cycle: "(?nx - 1) mod ?n = ?r" "(?pv + 1) mod ?n = ?r"
    using r by (simp_all add: mod_diff_left_eq mod_add_left_eq)
  have "prev_rank (w\<lparr>w_node_rank := ?nx\<rparr>) = ?r"
    using prev_rank_ok [OF w1(1)] cycle by simp
  moreover have "next_rank (w\<lparr>w_node_rank := ?pv\<rparr>) = Inr ?r"
    using next_rank_ok [OF w1(2)] cycle by simp
  moreover have "getNextNode resolve w = Inr (resolve (w_hosts w ! nat ?nx))"
    "getPrevNode resolve w = Inr (resolve (w_hosts w ! nat ?pv))"
    using next_rank_ok [OF w] prev_rank_ok [OF w] host_at_ok [OF w] b
    by (simp_all add: getNextNode_def getPrevNode_def)
  ultimately show ?thesis
    using next_rank_ok [OF w] prev_rank_ok [OF w] b by blast
qed

lemma neighbours_form_a_ring_witness:
  "\<exists>nxt prv. next_rank (WorldState_new [''TRANSOM_HOSTS'' \<mapsto> ''a,b,c'', ''TRANSOM_WORLD_SIZE'' \<mapsto> ''3'']) = Inr nxt \<and>
     0 \<le> nxt \<and> nxt < 3 \<and> 0 \<le> prv \<and> prv < (3 :: int)"
  using neighbours_form_a_ring
    [of "WorldState_new [''TRANSOM_HOSTS'' \<mapsto> ''a,b,c'', ''TRANSOM_WORLD_SIZE'' \<mapsto> ''3'']" Some]
  by (auto simp: world_ok_def WorldState_new_def GetEnv_def atoi_def is_space_def digits_val_def
      is_digit_def digit_val_def is_delim_def)

end
