(* ===== verification/MetaClient.thy ===== *)
theory MetaClient
  imports Api Text "HOL-Library.AList"
begin

text \<open>
  The metadata table of \<open>include/storage/metadata.h\<close> and \<open>src/storage/metadata.cpp\<close>.  The
  MySQL server is a parameter: a function from a statement's text and a database to a return
  code, a result set and the next database.  \<open>sql_server\<close> states the documented meaning of the
  few statement forms the client sends (\<open>REPLACE\<close>, \<open>SELECT\<close>, \<open>UPDATE\<close>, \<open>DELETE\<close> with quoted values);
  \<open>meta_table\<close> is the \<open>MetaClient\<close> interface the coordinator and the HTTP service rely on.
\<close>

section \<open>The interface\<close>

record 'db meta_client =
  mc_Save :: "Metadata \<Rightarrow> 'db \<Rightarrow> int \<times> 'db"
  mc_Load :: "Metadata \<Rightarrow> 'db \<Rightarrow> (int \<times> Metadata \<times> 'db) result"
  mc_UpdateState :: "string \<Rightarrow> CheckpointState \<Rightarrow> 'db \<Rightarrow> int \<times> 'db"
  mc_DeleteByFileName :: "string \<Rightarrow> 'db \<Rightarrow> int \<times> 'db"
  mc_BatchLoad :: "BatchLoadFilter \<Rightarrow> 'db \<Rightarrow> (int \<times> Metadata list \<times> 'db) result"

section \<open>MysqlClient\<close>

text \<open>\<open>mysql_query\<close> followed by \<open>mysql_store_result\<close>: the return code, the rows (if any).\<close>

type_synonym 'db mysql = "string \<Rightarrow> 'db \<Rightarrow> int \<times> string list list option \<times> 'db"

definition MYSQL_TABLE_NAME :: string where "MYSQL_TABLE_NAME = ''METADATA''"

text \<open>\<open>atoi\<close> and \<open>atoll\<close> are undefined outside the range of their result.\<close>

definition atoi_at :: "int \<Rightarrow> string \<Rightarrow> int result" where
  "atoi_at bound s =
     (if - bound \<le> atoi s \<and> atoi s < bound then Inr (atoi s) else Inl (UB ''atoi out of range''))"

text \<open>One row of \<open>SELECT *\<close>, copied over a metadata object (its job name stays).\<close>

fun metadata_of_row :: "Metadata \<Rightarrow> string list \<Rightarrow> Metadata result" where
  "metadata_of_row md [f, r, i, s, z] =
     and_then (atoi_at (2 ^ 31) r) (\<lambda>rank.
     and_then (atoi_at (2 ^ 31) s) (\<lambda>st.
     and_then (atoi_at (2 ^ 63) z) (\<lambda>n.
       Inr (md\<lparr>file_name := f, node_rank := rank, iteration := i, state := state_of st,
               msize := word_of_int n\<rparr>))))"
| "metadata_of_row md _ = Inl (UB ''row without five columns'')"

definition save_cmd :: "Metadata \<Rightarrow> string" where
  "save_cmd md =
     (let valueCmd = '''' @ [CHR 0x27] @ file_name md @ [CHR 0x27] @ '', '' @ [CHR 0x27] @
            to_string (node_rank md) @ [CHR 0x27] @ '', '' @ [CHR 0x27] @
            iteration md @ [CHR 0x27] @ '', '' @ [CHR 0x27] @
            to_string (state_code (state md)) @ [CHR 0x27] @ '', '' @ [CHR 0x27] @
            size_to_string (msize md) @ [CHR 0x27]
      in ''REPLACE INTO '' @ MYSQL_TABLE_NAME @ '' VALUES ('' @ valueCmd @ '');'')"

definition MysqlClient_Save :: "'db mysql \<Rightarrow> Metadata \<Rightarrow> 'db \<Rightarrow> int \<times> 'db" where
  "MysqlClient_Save sql md db =
     (case sql (save_cmd md) db of (ret, _, db') \<Rightarrow>
        if ret \<noteq> 0 then (STATUS_UNKNOWN_ERROR, db') else (STATUS_SUCCESS, db'))"

definition load_cmd :: "string \<Rightarrow> string" where
  "load_cmd f = ''SELECT * FROM '' @ MYSQL_TABLE_NAME @ '' WHERE FILE_NAME = '' @
     [CHR 0x27] @ f @ [CHR 0x27]"

definition MysqlClient_Load :: "'db mysql \<Rightarrow> Metadata \<Rightarrow> 'db \<Rightarrow> (int \<times> Metadata \<times> 'db) result" where
  "MysqlClient_Load sql md db =
     (case sql (load_cmd (file_name md)) db of (ret, res, db') \<Rightarrow>
        if ret \<noteq> 0 then Inr (STATUS_UNKNOWN_ERROR, md, db')
        else case res of
            None \<Rightarrow> Inl (UB ''no result set'')
          | Some [] \<Rightarrow> Inr (STATUS_NOT_FOUND, md, db')
          | Some [row] \<Rightarrow> and_then (metadata_of_row md row) (\<lambda>md'. Inr (STATUS_SUCCESS, md', db'))
          | Some (_ # _ # _) \<Rightarrow> Inr (STATUS_UNKNOWN_ERROR, md, db'))"

definition update_cmd :: "string \<Rightarrow> CheckpointState \<Rightarrow> string" where
  "update_cmd f st = ''UPDATE '' @ MYSQL_TABLE_NAME @ '' SET STATE='' @ [CHR 0x27] @
     to_string (state_code st) @ [CHR 0x27] @ '' WHERE FILE_NAME='' @ [CHR 0x27] @ f @ [CHR 0x27] @ '';''"

definition MysqlClient_UpdateState ::
  "'db mysql \<Rightarrow> string \<Rightarrow> CheckpointState \<Rightarrow> 'db \<Rightarrow> int \<times> 'db" where
  "MysqlClient_UpdateState sql f st db =
     (case sql (update_cmd f st) db of (ret, _, db') \<Rightarrow>
        if ret \<noteq> 0 then (STATUS_UNKNOWN_ERROR, db') else (STATUS_SUCCESS, db'))"

definition delete_cmd :: "string \<Rightarrow> string" where
  "delete_cmd f = ''DELETE FROM '' @ MYSQL_TABLE_NAME @ '' WHERE FILE_NAME='' @
     [CHR 0x27] @ f @ [CHR 0x27] @ '';''"

definition MysqlClient_DeleteByFileName :: "'db mysql \<Rightarrow> string \<Rightarrow> 'db \<Rightarrow> int \<times> 'db" where
  "MysqlClient_DeleteByFileName sql f db =
     (case sql (delete_cmd f) db of (ret, _, db') \<Rightarrow>
        if ret \<noteq> 0 then (STATUS_UNKNOWN_ERROR, db') else (STATUS_SUCCESS, db'))"

definition filter_terms :: "BatchLoadFilter \<Rightarrow> string list" where
  "filter_terms ft =
     (if 0 \<le> ft_node_rank ft
      then [''NODE_RANK = '' @ [CHR 0x27] @ to_string (ft_node_rank ft) @ [CHR 0x27]] else []) @
     (if 0 < length (ft_iteration ft)
      then [''ITERATION = '' @ [CHR 0x27] @ ft_iteration ft @ [CHR 0x27]] else []) @
     (if state_code PENDING \<le> state_code (ft_state ft) \<and> state_code (ft_state ft) < state_code STATE_NUM
      then [''STATE= '' @ [CHR 0x27] @ to_string (state_code (ft_state ft)) @ [CHR 0x27]] else [])"

definition batch_cmd :: "BatchLoadFilter \<Rightarrow> string" where
  "batch_cmd ft =
     (let filter_str = Join (filter_terms ft) '' AND '' in
      ''SELECT * FROM '' @ MYSQL_TABLE_NAME @
      (if filter_str = '''' then '''' else '' WHERE '' @ filter_str))"

fun metadata_of_rows :: "string list list \<Rightarrow> Metadata list result" where
  "metadata_of_rows [] = Inr []"
| "metadata_of_rows (row # rows) =
     and_then (metadata_of_row (new_Metadata '''' '''') row) (\<lambda>md.
     and_then (metadata_of_rows rows) (\<lambda>mds. Inr (md # mds)))"

definition MysqlClient_BatchLoad ::
  "'db mysql \<Rightarrow> BatchLoadFilter \<Rightarrow> 'db \<Rightarrow> (int \<times> Metadata list \<times> 'db) result" where
  "MysqlClient_BatchLoad sql ft db =
     (case sql (batch_cmd ft) db of (ret, res, db') \<Rightarrow>
        if ret \<noteq> 0 then Inr (STATUS_UNKNOWN_ERROR, [], db')
        else case res of
            None \<Rightarrow> Inl (UB ''no result set'')
          | Some [] \<Rightarrow> Inr (STATUS_NOT_FOUND, [], db')
          | Some rows \<Rightarrow> and_then (metadata_of_rows rows) (\<lambda>mds. Inr (STATUS_SUCCESS, mds, db')))"

definition mysql_client :: "'db mysql \<Rightarrow> 'db meta_client" where
  "mysql_client sql = \<lparr>mc_Save = MysqlClient_Save sql, mc_Load = MysqlClient_Load sql,
     mc_UpdateState = MysqlClient_UpdateState sql,
     mc_DeleteByFileName = MysqlClient_DeleteByFileName sql,
     mc_BatchLoad = MysqlClient_BatchLoad sql\<rparr>"

text \<open>
  The constructor: \<open>inited\<close> and \<open>connected\<close> are the answers of \<open>mysql_init\<close> and
  \<open>mysql_real_connect\<close>; only the first client of the process creates (and may flush) the table.
\<close>

definition create_cmd :: string where
  "create_cmd = ''CREATE TABLE IF NOT EXISTS '' @ MYSQL_TABLE_NAME @
     '' (FILE_NAME   varchar(512)   PRIMARY KEY     NOT NULL,'' @
     ''  NODE_RANK   INT                            NOT NULL,'' @
     ''  ITERATION   TEXT                           NOT NULL,'' @
     ''  STATE       INT                            NOT NULL,'' @
     ''  SIZE        BIGINT UNSIGNED                NOT NULL);''"

definition flush_cmd :: string where
  "flush_cmd = ''DELETE FROM '' @ MYSQL_TABLE_NAME @ '' ;''"

definition MysqlClient_new ::
  "(string \<rightharpoonup> string) \<Rightarrow> 'db mysql \<Rightarrow> bool \<Rightarrow> bool \<Rightarrow> bool \<Rightarrow> 'db \<Rightarrow> 'db result" where
  "MysqlClient_new env sql inited connected first db =
     (if \<not> inited then Inl (Fatal ''cannot init mysql'')
      else if \<not> connected then Inl (Fatal ''cannot connect to mysql'')
      else if \<not> first then Inr db
      else case sql create_cmd db of (ret, _, db') \<Rightarrow>
        if ret \<noteq> 0 then Inl (Fatal ''create table failed'')
        else if GetEnv env ''CKPT_ENGINE_MYSQL_FLUSH'' (Some ''false'') = ''true''
        then (case sql flush_cmd db' of (ret, _, db'') \<Rightarrow>
                if ret \<noteq> 0 then Inl (Fatal ''create table failed'') else Inr db'')
        else Inr db')"

definition GetClient :: "(string \<rightharpoonup> string) \<Rightarrow> 'db mysql \<Rightarrow> 'db meta_client result" where
  "GetClient env sql =
     (if GetEnv env ''CKPT_ENGINE_META_CLIENT'' (Some ''mysql'') = ''mysql''
      then Inr (mysql_client sql) else Inl (Fatal ''meta client config unsupported''))"

section \<open>The meaning of the statements\<close>

text \<open>
  The rows of the table under their primary key, and the statement forms in use.  \<open>sql_parse\<close>
  reads a statement's text: split at the quotes, ignore the blanks outside them.  Text with a
  backslash or NUL, and numbers not in canonical form, are outside the subset (\<open>None\<close>).  Names
  are compared as byte strings (a binary collation).
\<close>

record meta_row =
  mr_rank :: int
  mr_iteration :: string
  mr_state :: int
  mr_size :: size_t

datatype sql_cond = Name_is string | Rank_is int | Iteration_is string | State_is int

datatype sql_stmt = Replace string meta_row | Select "sql_cond list"
  | Update_state int "sql_cond list" | Delete "sql_cond list"

fun cond_holds :: "string \<Rightarrow> meta_row \<Rightarrow> sql_cond \<Rightarrow> bool" where
  "cond_holds f r (Name_is g) = (f = g)"
| "cond_holds f r (Rank_is i) = (mr_rank r = i)"
| "cond_holds f r (Iteration_is i) = (mr_iteration r = i)"
| "cond_holds f r (State_is i) = (mr_state r = i)"

definition row_matches :: "sql_cond list \<Rightarrow> string \<Rightarrow> meta_row \<Rightarrow> bool" where
  "row_matches cs f r = list_all (cond_holds f r) cs"

fun table_after :: "sql_stmt \<Rightarrow> (string \<rightharpoonup> meta_row) \<Rightarrow> (string \<rightharpoonup> meta_row)" where
  "table_after (Replace f r) t = t(f \<mapsto> r)"
| "table_after (Select cs) t = t"
| "table_after (Update_state s cs) t =
     (\<lambda>f. map_option (\<lambda>r. if row_matches cs f r then r\<lparr>mr_state := s\<rparr> else r) (t f))"
| "table_after (Delete cs) t =
     (\<lambda>f. case t f of None \<Rightarrow> None | Some r \<Rightarrow> if row_matches cs f r then None else Some r)"

definition row_text :: "string \<times> meta_row \<Rightarrow> string list" where
  "row_text = (\<lambda>(f, r). [f, to_string (mr_rank r), mr_iteration r, to_string (mr_state r),
     size_to_string (mr_size r)])"

text \<open>The result set of a \<open>SELECT\<close>: the matching rows, each once, in any order.\<close>

fun result_ok :: "sql_stmt \<Rightarrow> (string \<rightharpoonup> meta_row) \<Rightarrow> string list list option \<Rightarrow> bool" where
  "result_ok (Select cs) t res =
     (\<exists>kvs. res = Some (map row_text kvs) \<and> distinct (map fst kvs) \<and>
        set kvs = {(f, r). t f = Some r \<and> row_matches cs f r})"
| "result_ok _ t res = True"

fun pieces :: "string \<Rightarrow> string list" where
  "pieces [] = [[]]"
| "pieces (c # cs) =
     (if c = CHR 0x27 then [] # pieces cs
      else case pieces cs of [] \<Rightarrow> [[c]] | p # ps \<Rightarrow> (c # p) # ps)"

fun squeeze :: "bool \<Rightarrow> string list \<Rightarrow> string list" where
  "squeeze b [] = []"
| "squeeze True (p # ps) = filter (\<lambda>c. c \<noteq> CHR '' '') p # squeeze False ps"
| "squeeze False (p # ps) = p # squeeze True ps"

definition strip :: "string \<Rightarrow> string \<Rightarrow> string option" where
  "strip pre s = (if take (length pre) s = pre then Some (drop (length pre) s) else None)"

definition int_value :: "string \<Rightarrow> int option" where
  "int_value v = (if to_string (atoi v) = v \<and> int_range (atoi v) then Some (atoi v) else None)"

definition size_value :: "string \<Rightarrow> size_t option" where
  "size_value v = (let w = word_of_int (atoi v) in if size_to_string w = v then Some w else None)"

definition sql_cond_of :: "string \<Rightarrow> string \<Rightarrow> sql_cond option" where
  "sql_cond_of col v =
     (if col = ''FILE_NAME='' then Some (Name_is v)
      else if col = ''ITERATION='' then Some (Iteration_is v)
      else if col = ''NODE_RANK='' then map_option Rank_is (int_value v)
      else if col = ''STATE='' then map_option State_is (int_value v)
      else None)"

fun parse_where :: "string list \<Rightarrow> sql_cond list option" where
  "parse_where [] = None"
| "parse_where [e] = (if e = [] \<or> e = '';'' then Some [] else None)"
| "parse_where (kw # v # rest) =
     Option.bind (strip ''AND'' kw) (\<lambda>col.
     Option.bind (sql_cond_of col v) (\<lambda>c.
     Option.bind (parse_where rest) (\<lambda>cs. Some (c # cs))))"

definition parse_tail :: "string \<Rightarrow> string list \<Rightarrow> sql_cond list option" where
  "parse_tail h rest =
     (if (h = [] \<or> h = '';'') \<and> rest = [] then Some []
      else Option.bind (strip ''WHERE'' h) (\<lambda>col. parse_where ((''AND'' @ col) # rest)))"

fun parse_replace :: "string list \<Rightarrow> sql_stmt option" where
  "parse_replace [f, c1, r, c2, i, c3, s, c4, z, e] =
     (if c1 = '','' \<and> c2 = '','' \<and> c3 = '','' \<and> c4 = '','' \<and> e = '');''
      then Option.bind (int_value r) (\<lambda>r. Option.bind (int_value s) (\<lambda>s.
           Option.bind (size_value z) (\<lambda>z.
             Some (Replace f \<lparr>mr_rank = r, mr_iteration = i, mr_state = s, mr_size = z\<rparr>))))
      else None)"
| "parse_replace _ = None"

fun parse_tokens :: "string list \<Rightarrow> sql_stmt option" where
  "parse_tokens [] = None"
| "parse_tokens (h # rest) =
     (if h = ''REPLACEINTOMETADATAVALUES('' then parse_replace rest
      else if h = ''UPDATEMETADATASETSTATE='' then
        (case rest of s # w # rest' \<Rightarrow>
           Option.bind (int_value s) (\<lambda>s. map_option (Update_state s) (parse_tail w rest'))
         | _ \<Rightarrow> None)
      else case strip ''SELECT*FROMMETADATA'' h of
          Some t \<Rightarrow> map_option Select (parse_tail t rest)
        | None \<Rightarrow> Option.bind (strip ''DELETEFROMMETADATA'' h)
            (\<lambda>t. map_option Delete (parse_tail t rest)))"

definition sql_parse :: "string \<Rightarrow> sql_stmt option" where
  "sql_parse text =
     (if CHR 0x5C \<in> set text \<or> CHR 0x00 \<in> set text then None
      else parse_tokens (squeeze True (pieces text)))"

text \<open>
  A server for the table, with \<open>tbl\<close> reading the rows off a database: a statement of the subset
  fails and changes nothing, or has its effect and result.
\<close>

definition sql_server :: "'db mysql \<Rightarrow> ('db \<Rightarrow> string \<rightharpoonup> meta_row) \<Rightarrow> bool" where
  "sql_server sql tbl \<longleftrightarrow>
     (\<forall>text st db ret res db'. sql_parse text = Some st \<longrightarrow> sql text db = (ret, res, db') \<longrightarrow>
        (if ret \<noteq> 0 then tbl db' = tbl db
         else tbl db' = table_after st (tbl db) \<and> result_ok st (tbl db) res))"

section \<open>The client's texts parse\<close>

definition clean :: "string \<Rightarrow> bool" where
  "clean s \<longleftrightarrow> list_all (\<lambda>c. c \<noteq> CHR 0x27 \<and> c \<noteq> CHR 0x5C \<and> c \<noteq> CHR 0x00) s"

fun render :: "string list \<Rightarrow> string" where
  "render [] = []"
| "render [p] = p"
| "render (p # v # ps) = p @ CHR 0x27 # render (v # ps)"

lemma pieces_no_quote: "CHR 0x27 \<notin> set p \<Longrightarrow> pieces p = [p]"
  by (induction p) auto

lemma pieces_quote: "CHR 0x27 \<notin> set p \<Longrightarrow> pieces (p @ CHR 0x27 # rest) = p # pieces rest"
  by (induction p) auto

lemma clean_no_quote: "clean p \<Longrightarrow> CHR 0x27 \<notin> set p"
  by (auto simp: clean_def list_all_iff)

lemma pieces_render: "ps \<noteq> [] \<Longrightarrow> list_all clean ps \<Longrightarrow> pieces (render ps) = ps"
  by (induction ps rule: render.induct) (auto simp: pieces_no_quote pieces_quote clean_no_quote)

lemma clean_render: "list_all clean ps \<Longrightarrow> CHR 0x5C \<notin> set (render ps) \<and> CHR 0x00 \<notin> set (render ps)"
  by (induction ps rule: render.induct) (auto simp: clean_def list_all_iff)

lemma sql_parse_render:
  assumes "ps \<noteq> []" and "list_all clean ps"
  shows "sql_parse (render ps) = parse_tokens (squeeze True ps)"
  using assms clean_render [OF assms(2)] by (simp add: sql_parse_def pieces_render)

lemma sql_parse_text:
  "t = render ps \<Longrightarrow> list_all clean ps \<Longrightarrow> ps \<noteq> [] \<Longrightarrow> parse_tokens (squeeze True ps) = st \<Longrightarrow>
     sql_parse t = st"
  by (simp add: sql_parse_render)

lemmas parse_simps = strip_def parse_tail_def sql_cond_of_def MYSQL_TABLE_NAME_def

lemma is_digit_clean: "is_digit c \<Longrightarrow> c \<noteq> CHR 0x27 \<and> c \<noteq> CHR 0x5C \<and> c \<noteq> CHR 0x00"
  by (auto simp: is_digit_def)

lemma clean_dec: "clean (dec n)"
  using dec_digits [of n] is_digit_clean by (auto simp: clean_def list_all_iff)

lemma clean_to_string [simp]: "clean (to_string i)"
  using clean_dec by (auto simp: to_string_def clean_def)

lemma clean_size_to_string [simp]: "clean (size_to_string w)"
  by (simp add: size_to_string_def clean_dec)

lemma int_value_to_string [simp]: "int_range i \<Longrightarrow> int_value (to_string i) = Some i"
  by (simp add: int_value_def atoi_to_string)

lemma size_value_to_string [simp]: "size_value (size_to_string w) = Some w"
  by (simp add: size_value_def Let_def atoi_size_to_string)

definition row_of :: "Metadata \<Rightarrow> meta_row" where
  "row_of md = \<lparr>mr_rank = node_rank md, mr_iteration = iteration md,
     mr_state = state_code (state md), mr_size = msize md\<rparr>"

definition savable :: "Metadata \<Rightarrow> bool" where
  "savable md \<longleftrightarrow> clean (file_name md) \<and> clean (iteration md) \<and> int_range (node_rank md) \<and>
     int_range (state_code (state md))"

lemma parse_save:
  assumes "savable md"
  shows "sql_parse (save_cmd md) = Some (Replace (file_name md) (row_of md))"
proof (rule sql_parse_text)
  show "save_cmd md = render [''REPLACE INTO METADATA VALUES ('', file_name md, '', '', to_string (node_rank md), '', '',
    iteration md, '', '', to_string (state_code (state md)), '', '', size_to_string (msize md), '');'']"
    by (simp add: save_cmd_def MYSQL_TABLE_NAME_def)
qed (use assms in \<open>simp_all add: parse_simps savable_def row_of_def, simp_all add: clean_def\<close>)

lemma parse_load:
  assumes "clean f"
  shows "sql_parse (load_cmd f) = Some (Select [Name_is f])"
proof (rule sql_parse_text)
  show "load_cmd f = render [''SELECT * FROM METADATA WHERE FILE_NAME = '', f, [] :: string]"
    by (simp add: load_cmd_def MYSQL_TABLE_NAME_def)
qed (use assms in \<open>simp_all add: parse_simps savable_def row_of_def, simp_all add: clean_def\<close>)

lemma parse_update:
  assumes "clean f" and "int_range (state_code st)"
  shows "sql_parse (update_cmd f st) = Some (Update_state (state_code st) [Name_is f])"
proof (rule sql_parse_text)
  show "update_cmd f st = render [''UPDATE METADATA SET STATE='', to_string (state_code st), '' WHERE FILE_NAME='', f, '';'']"
    by (simp add: update_cmd_def MYSQL_TABLE_NAME_def)
qed (use assms in \<open>simp_all add: parse_simps savable_def row_of_def, simp_all add: clean_def\<close>)

lemma parse_delete:
  assumes "clean f"
  shows "sql_parse (delete_cmd f) = Some (Delete [Name_is f])"
proof (rule sql_parse_text)
  show "delete_cmd f = render [''DELETE FROM METADATA WHERE FILE_NAME='', f, '';'']"
    by (simp add: delete_cmd_def MYSQL_TABLE_NAME_def)
qed (use assms in \<open>simp_all add: parse_simps savable_def row_of_def, simp_all add: clean_def\<close>)

text \<open>A filter selects by the fields that are set.\<close>

definition filter_conds :: "BatchLoadFilter \<Rightarrow> sql_cond list" where
  "filter_conds ft =
     (if 0 \<le> ft_node_rank ft then [Rank_is (ft_node_rank ft)] else []) @
     (if ft_iteration ft \<noteq> [] then [Iteration_is (ft_iteration ft)] else []) @
     (if 0 \<le> state_code (ft_state ft) \<and> state_code (ft_state ft) < 6
      then [State_is (state_code (ft_state ft))] else [])"

definition filter_usable :: "BatchLoadFilter \<Rightarrow> bool" where
  "filter_usable ft \<longleftrightarrow> int_range (ft_node_rank ft) \<and> clean (ft_iteration ft)"

fun where_pieces :: "bool \<Rightarrow> (string \<times> string) list \<Rightarrow> string list" where
  "where_pieces b [] = [[]]"
| "where_pieces b ((col, v) # cvs) = ((if b then '' AND '' else []) @ col) # v # where_pieces True cvs"

definition filter_columns :: "BatchLoadFilter \<Rightarrow> (string \<times> string) list" where
  "filter_columns ft =
     (if 0 \<le> ft_node_rank ft then [(''NODE_RANK = '', to_string (ft_node_rank ft))] else []) @
     (if ft_iteration ft \<noteq> [] then [(''ITERATION = '', ft_iteration ft)] else []) @
     (if 0 \<le> state_code (ft_state ft) \<and> state_code (ft_state ft) < 6
      then [(''STATE= '', to_string (state_code (ft_state ft)))] else [])"

lemma filter_terms_columns:
  "filter_terms ft = map (\<lambda>(col, v). col @ [CHR 0x27] @ v @ [CHR 0x27]) (filter_columns ft)"
  by (simp add: filter_terms_def filter_columns_def)

lemma render_Cons: "ps \<noteq> [] \<Longrightarrow> render (p # ps) = p @ CHR 0x27 # render ps"
  by (cases ps) auto

lemma render_append: "ps \<noteq> [] \<Longrightarrow> render ((x @ p) # ps) = x @ render (p # ps)"
  by (cases ps) auto

lemma where_pieces_nonempty [simp]: "where_pieces b cvs \<noteq> []"
  by (cases cvs) auto

lemma render_where:
  "cvs \<noteq> [] \<Longrightarrow> render (where_pieces False cvs) =
     Join (map (\<lambda>(col, v). col @ [CHR 0x27] @ v @ [CHR 0x27]) cvs) '' AND ''"
proof (induction cvs rule: induct_list012)
  case (3 x y cvs)
  obtain c1 v1 c2 v2 where xy: "x = (c1, v1)" "y = (c2, v2)" by (cases x, cases y)
  have "render (where_pieces True (y # cvs)) = '' AND '' @ render (where_pieces False (y # cvs))"
    by (simp add: xy render_Cons)
  then show ?case using 3 by (simp add: xy render_Cons del: where_pieces.simps(2))
      (simp add: xy render_Cons)
qed (auto simp: render_Cons)

lemma parse_batch:
  assumes "filter_usable ft"
  shows "sql_parse (batch_cmd ft) = Some (Select (filter_conds ft))"
proof (cases "filter_columns ft = []")
  case True
  then have "filter_terms ft = []" "filter_conds ft = []"
    by (auto simp: filter_terms_columns filter_columns_def filter_conds_def split: if_splits)
  then have "batch_cmd ft = render [''SELECT * FROM METADATA'']"
    by (simp add: batch_cmd_def MYSQL_TABLE_NAME_def)
  then show ?thesis
    by (rule sql_parse_text) (simp_all add: parse_simps \<open>filter_conds ft = []\<close>, simp add: clean_def)
next
  case False
  then obtain col v cvs where cvs: "filter_columns ft = (col, v) # cvs"
    by (cases "filter_columns ft") auto
  let ?ps = "(''SELECT * FROM METADATA WHERE '' @ col) # v # where_pieces True cvs"
  have join: "Join (filter_terms ft) '' AND '' = render (where_pieces False (filter_columns ft))"
    using render_where [OF False] by (simp add: filter_terms_columns)
  have "render (where_pieces False (filter_columns ft)) = col @ CHR 0x27 # render (v # where_pieces True cvs)"
    by (simp add: cvs render_Cons)
  then have cmd: "batch_cmd ft = render ?ps"
    by (simp add: batch_cmd_def join MYSQL_TABLE_NAME_def render_Cons Let_def)
  have ok: "int_range (state_code (ft_state ft))"
    if "0 \<le> state_code (ft_state ft)" "state_code (ft_state ft) < 6"
    using that by (simp add: int_range_def)
  have "list_all clean ?ps \<and> parse_tokens (squeeze True ?ps) = Some (Select (filter_conds ft))"
    using cvs assms ok
    by (auto simp: filter_columns_def filter_conds_def filter_usable_def parse_simps clean_def
        clean_to_string [unfolded clean_def] split: if_splits)
  then show ?thesis by (intro sql_parse_text [OF cmd]) auto
qed

section \<open>The contract of the metadata table\<close>

definition row_ok :: "meta_row \<Rightarrow> bool" where
  "row_ok r \<longleftrightarrow> int_range (mr_rank r) \<and> int_range (mr_state r) \<and> unat (mr_size r) < 2 ^ 63"

definition table_ok :: "(string \<rightharpoonup> meta_row) \<Rightarrow> bool" where
  "table_ok t \<longleftrightarrow> (\<forall>f r. t f = Some r \<longrightarrow> row_ok r)"

definition with_row :: "Metadata \<Rightarrow> string \<Rightarrow> meta_row \<Rightarrow> Metadata" where
  "with_row md f r = md\<lparr>file_name := f, node_rank := mr_rank r, iteration := mr_iteration r,
     state := state_of (mr_state r), msize := mr_size r\<rparr>"

definition set_state :: "CheckpointState \<Rightarrow> meta_row \<Rightarrow> meta_row" where
  "set_state st r = r\<lparr>mr_state := state_code st\<rparr>"

text \<open>
  Every operation either reports an error and leaves the table alone, or does what its name
  says; reading never changes the table.
\<close>

locale meta_table =
  fixes mc :: "'db meta_client"
    and tbl :: "'db \<Rightarrow> string \<rightharpoonup> meta_row"
  assumes load: "clean (file_name md) \<Longrightarrow> table_ok (tbl db) \<Longrightarrow>
      \<exists>rc md' db'. mc_Load mc md db = Inr (rc, md', db') \<and> tbl db' = tbl db \<and>
        (rc = STATUS_UNKNOWN_ERROR \<and> md' = md \<or>
         rc = STATUS_NOT_FOUND \<and> md' = md \<and> tbl db (file_name md) = None \<or>
         rc = STATUS_SUCCESS \<and> (\<exists>r. tbl db (file_name md) = Some r \<and> md' = with_row md (file_name md) r))"
    and save: "savable md \<Longrightarrow> mc_Save mc md db = (rc, db') \<Longrightarrow>
        rc = STATUS_UNKNOWN_ERROR \<and> tbl db' = tbl db \<or>
        rc = STATUS_SUCCESS \<and> tbl db' = (tbl db)(file_name md \<mapsto> row_of md)"
    and update: "clean f \<Longrightarrow> int_range (state_code st) \<Longrightarrow> mc_UpdateState mc f st db = (rc, db') \<Longrightarrow>
        rc = STATUS_UNKNOWN_ERROR \<and> tbl db' = tbl db \<or>
        rc = STATUS_SUCCESS \<and> tbl db' = (tbl db)(f := map_option (set_state st) (tbl db f))"
    and delete: "clean f \<Longrightarrow> mc_DeleteByFileName mc f db = (rc, db') \<Longrightarrow>
        rc = STATUS_UNKNOWN_ERROR \<and> tbl db' = tbl db \<or>
        rc = STATUS_SUCCESS \<and> tbl db' = (tbl db)(f := None)"
    and batch: "filter_usable ft \<Longrightarrow> table_ok (tbl db) \<Longrightarrow>
      \<exists>rc mds db'. mc_BatchLoad mc ft db = Inr (rc, mds, db') \<and> tbl db' = tbl db \<and>
        (rc = STATUS_UNKNOWN_ERROR \<and> mds = [] \<or>
         rc = (if mds = [] then STATUS_NOT_FOUND else STATUS_SUCCESS) \<and> distinct (map file_name mds) \<and>
         set mds = {with_row (new_Metadata [] []) f r | f r.
                      tbl db f = Some r \<and> row_matches (filter_conds ft) f r})"
begin

lemma save_then_load:
  assumes "savable md" and "table_ok (tbl db)" and "unat (msize md) < 2 ^ 63"
    and "mc_Save mc md db = (STATUS_SUCCESS, db1)"
    and "file_name key = file_name md"
    and "mc_Load mc key db1 = Inr (STATUS_SUCCESS, md', db2)"
  shows "md' = md\<lparr>job_name := job_name key, state := state_of (state_code (state md))\<rparr>"
proof -
  have t: "tbl db1 = (tbl db)(file_name md \<mapsto> row_of md)"
    using save [OF assms(1,4)] by (auto simp: status_defs)
  have "row_ok (row_of md)"
    using assms(1,3) by (simp add: row_ok_def row_of_def savable_def)
  then have "table_ok (tbl db1)" using assms(2) by (simp add: t table_ok_def)
  moreover have "clean (file_name key)" using assms(1,5) by (simp add: savable_def)
  ultimately show ?thesis
    using load [of key db1] assms(5,6) t
    by (auto simp: status_defs with_row_def row_of_def)
qed

end

text \<open>A table whose server does not fail.\<close>

locale reliable_table = meta_table mc tbl
  for mc :: "'db meta_client" and tbl :: "'db \<Rightarrow> string \<rightharpoonup> meta_row" +
  assumes load_succeeds: "clean (file_name md) \<Longrightarrow> mc_Load mc md db = Inr (rc, md', db') \<Longrightarrow>
      rc \<noteq> STATUS_UNKNOWN_ERROR"
    and update_succeeds: "clean f \<Longrightarrow> int_range (state_code st) \<Longrightarrow>
      fst (mc_UpdateState mc f st db) = STATUS_SUCCESS"
begin

lemma load_row:
  assumes "clean (file_name md)" and "table_ok (tbl db)"
  shows "\<exists>db'. tbl db' = tbl db \<and> mc_Load mc md db =
     Inr (case tbl db (file_name md) of
            None \<Rightarrow> (STATUS_NOT_FOUND, md, db')
          | Some r \<Rightarrow> (STATUS_SUCCESS, with_row md (file_name md) r, db'))"
  using load [OF assms] load_succeeds [OF assms(1)] by fastforce

lemma update_row:
  assumes "clean f" and "int_range (state_code st)"
  shows "\<exists>db'. mc_UpdateState mc f st db = (STATUS_SUCCESS, db') \<and>
     tbl db' = (tbl db)(f := map_option (set_state st) (tbl db f))"
  using update [OF assms, of db] update_succeeds [OF assms, of db]
  by (cases "mc_UpdateState mc f st db") (auto simp: status_defs)

end

lemma atoi_at_to_string: "- b \<le> i \<Longrightarrow> i < b \<Longrightarrow> atoi_at b (to_string i) = Inr i"
  by (simp add: atoi_at_def atoi_to_string)

lemma atoi_at_size:
  assumes "unat w < 2 ^ 63"
  shows "atoi_at (2 ^ 63) (size_to_string w) = Inr (int (unat w))"
proof -
  have "int (unat w) < int (2 ^ 63)" using assms by (simp only: of_nat_less_iff)
  then have "int (unat w) < 2 ^ 63" by (simp only: of_nat_power of_nat_numeral)
  then show ?thesis
    using order_trans [of "- (2 ^ 63)" 0 "uint w"] by (simp add: atoi_at_def atoi_size_to_string)
qed

lemma metadata_of_row_text:
  assumes "row_ok r"
  shows "metadata_of_row md (row_text (f, r)) = Inr (with_row md f r)"
  using assms
  using atoi_at_size [of "mr_size r"]
  by (simp add: row_text_def row_ok_def int_range_def atoi_at_to_string with_row_def)

lemma metadata_of_rows_text:
  "list_all (\<lambda>(f, r). row_ok r) kvs \<Longrightarrow>
     metadata_of_rows (map row_text kvs) =
       Inr (map (\<lambda>(f, r). with_row (new_Metadata [] []) f r) kvs)"
  by (induction kvs) (auto simp: metadata_of_row_text)

lemma sql_serverD:
  assumes "sql_server sql tbl" and "sql_parse text = Some st" and "sql text db = (ret, res, db')"
  shows "ret \<noteq> 0 \<and> tbl db' = tbl db \<or>
         ret = 0 \<and> tbl db' = table_after st (tbl db) \<and> result_ok st (tbl db) res"
proof -
  have "if ret \<noteq> 0 then tbl db' = tbl db
    else tbl db' = table_after st (tbl db) \<and> result_ok st (tbl db) res"
    using assms(1) [unfolded sql_server_def, rule_format, OF assms(2,3)] .
  then show ?thesis by (simp split: if_splits)
qed

lemma select_name:
  assumes "result_ok (Select [Name_is f]) t res"
  shows "res = Some (case t f of None \<Rightarrow> [] | Some r \<Rightarrow> [row_text (f, r)])"
proof -
  obtain kvs where kvs: "res = Some (map row_text kvs)" "distinct (map fst kvs)"
      "set kvs = {(g, r). t g = Some r \<and> g = f}"
    using assms by (auto simp: row_matches_def)
  show ?thesis
  proof (cases "t f")
    case None
    then have "set kvs = {}" using kvs(3) by auto
    then show ?thesis using kvs(1) None by simp
  next
    case (Some r)
    then have "set kvs = {(f, r)}" using kvs(3) by auto
    moreover have "distinct kvs" using kvs(2) by (simp add: distinct_map)
    ultimately have "length kvs = 1" using distinct_card [of kvs] by simp
    then obtain x where "kvs = [x]" by (cases kvs) auto
    then show ?thesis using kvs(1) Some \<open>set kvs = {(f, r)}\<close> by simp
  qed
qed

lemma update_table:
  "table_after (Update_state (state_code st) [Name_is f]) t = t(f := map_option (set_state st) (t f))"
  by (rule ext) (simp add: row_matches_def set_state_def [abs_def] option.map_ident)

lemma delete_table: "table_after (Delete [Name_is f]) t = t(f := None)"
  by (rule ext) (auto simp: row_matches_def split: option.splits)

lemma mysql_load:
  assumes "sql_server sql tbl" and "clean (file_name md)" and "table_ok (tbl db)"
  shows "\<exists>rc md' db'. MysqlClient_Load sql md db = Inr (rc, md', db') \<and> tbl db' = tbl db \<and>
        (rc = STATUS_UNKNOWN_ERROR \<and> md' = md \<or>
         rc = STATUS_NOT_FOUND \<and> md' = md \<and> tbl db (file_name md) = None \<or>
         rc = STATUS_SUCCESS \<and> (\<exists>r. tbl db (file_name md) = Some r \<and> md' = with_row md (file_name md) r))"
proof (cases "sql (load_cmd (file_name md)) db")
  case (fields ret res db')
  from sql_serverD [OF assms(1) parse_load [OF assms(2)] fields]
  have "ret \<noteq> 0 \<and> tbl db' = tbl db \<or> ret = 0 \<and> tbl db' = tbl db \<and>
    res = Some (case tbl db (file_name md) of None \<Rightarrow> [] | Some r \<Rightarrow> [row_text (file_name md, r)])"
    using select_name by fastforce
  then show ?thesis using assms(3)
    by (auto simp: MysqlClient_Load_def fields metadata_of_row_text table_ok_def
        split: option.splits)
qed

lemma mysql_batch:
  assumes "sql_server sql tbl" and "filter_usable ft" and t: "table_ok (tbl db)"
  shows "\<exists>rc mds db'. MysqlClient_BatchLoad sql ft db = Inr (rc, mds, db') \<and> tbl db' = tbl db \<and>
        (rc = STATUS_UNKNOWN_ERROR \<and> mds = [] \<or>
         rc = (if mds = [] then STATUS_NOT_FOUND else STATUS_SUCCESS) \<and> distinct (map file_name mds) \<and>
         set mds = {with_row (new_Metadata [] []) f r | f r.
                      tbl db f = Some r \<and> row_matches (filter_conds ft) f r})"
proof (cases "sql (batch_cmd ft) db")
  case (fields ret res db')
  let ?md = "\<lambda>(f, r). with_row (new_Metadata [] []) f r"
  from sql_serverD [OF assms(1) parse_batch [OF assms(2)] fields] show ?thesis
  proof
    assume "ret \<noteq> 0 \<and> tbl db' = tbl db"
    then show ?thesis by (auto simp: MysqlClient_BatchLoad_def fields)
  next
    assume "ret = 0 \<and> tbl db' = table_after (Select (filter_conds ft)) (tbl db) \<and>
      result_ok (Select (filter_conds ft)) (tbl db) res"
    then obtain kvs where kvs: "ret = 0" "tbl db' = tbl db" "res = Some (map row_text kvs)"
        "distinct (map fst kvs)"
        "set kvs = {(f, r). tbl db f = Some r \<and> row_matches (filter_conds ft) f r}"
      by auto
    have "list_all (\<lambda>(f, r). row_ok r) kvs"
      using t kvs(5) by (auto simp: list_all_iff table_ok_def)
    then have rows: "metadata_of_rows (map row_text kvs) = Inr (map ?md kvs)"
      by (rule metadata_of_rows_text)
    have names: "map file_name (map ?md kvs) = map fst kvs"
      by (simp add: with_row_def case_prod_unfold)
    have "MysqlClient_BatchLoad sql ft db =
        Inr (if kvs = [] then STATUS_NOT_FOUND else STATUS_SUCCESS, map ?md kvs, db')"
      using kvs(1,3) rows by (cases kvs) (simp_all add: MysqlClient_BatchLoad_def fields)
    moreover have "set (map ?md kvs) = {with_row (new_Metadata [] []) f r | f r.
                      tbl db f = Some r \<and> row_matches (filter_conds ft) f r}"
      using kvs(5) by (auto simp: image_iff)
    moreover have "distinct (map file_name (map ?md kvs))"
      unfolding names by (rule kvs(4))
    ultimately show ?thesis using kvs(2) by (simp del: map_map set_map)
  qed
qed

text \<open>\<open>MysqlClient\<close> implements the contract over any such server.\<close>

lemma mysql_meta_table:
  assumes s: "sql_server sql tbl"
  shows "meta_table (mysql_client sql) tbl"
proof
  fix md db rc db'
  assume "savable md" "mc_Save (mysql_client sql) md db = (rc, db')"
  then show "rc = STATUS_UNKNOWN_ERROR \<and> tbl db' = tbl db \<or>
        rc = STATUS_SUCCESS \<and> tbl db' = (tbl db)(file_name md \<mapsto> row_of md)"
    by (auto simp: mysql_client_def MysqlClient_Save_def split: prod.splits if_splits
        dest!: sql_serverD [OF s parse_save])
next
  fix f st db rc db'
  assume "clean f" "int_range (state_code st)" "mc_UpdateState (mysql_client sql) f st db = (rc, db')"
  then show "rc = STATUS_UNKNOWN_ERROR \<and> tbl db' = tbl db \<or>
        rc = STATUS_SUCCESS \<and> tbl db' = (tbl db)(f := map_option (set_state st) (tbl db f))"
    by (auto simp: mysql_client_def MysqlClient_UpdateState_def
        split: prod.splits if_splits dest!: sql_serverD [OF s parse_update, unfolded update_table])
next
  fix f db rc db'
  assume "clean f" "mc_DeleteByFileName (mysql_client sql) f db = (rc, db')"
  then show "rc = STATUS_UNKNOWN_ERROR \<and> tbl db' = tbl db \<or>
        rc = STATUS_SUCCESS \<and> tbl db' = (tbl db)(f := None)"
    by (auto simp: mysql_client_def MysqlClient_DeleteByFileName_def
        split: prod.splits if_splits dest!: sql_serverD [OF s parse_delete, unfolded delete_table])
qed (simp_all add: mysql_client_def mysql_load [OF s] mysql_batch [OF s])

section \<open>A server in memory\<close>

text \<open>A server that keeps the rows in a list: what the contract asks for can be had.\<close>

type_synonym mem_db = "(string \<times> meta_row) list"

fun mem_exec :: "sql_stmt \<Rightarrow> mem_db \<Rightarrow> string list list option \<times> mem_db" where
  "mem_exec (Replace f r) db = (None, AList.update f r db)"
| "mem_exec (Select cs) db =
     (Some (map row_text (filter (\<lambda>(f, r). row_matches cs f r) (AList.clearjunk db))), db)"
| "mem_exec (Update_state s cs) db =
     (None, map (\<lambda>(f, r). (f, if row_matches cs f r then r\<lparr>mr_state := s\<rparr> else r)) db)"
| "mem_exec (Delete cs) db =
     (None, filter (\<lambda>(f, r). \<not> row_matches cs f r) (AList.clearjunk db))"

definition mem_sql :: "mem_db mysql" where
  "mem_sql text db =
     (if text = create_cmd then (0, None, db)
      else case sql_parse text of
          None \<Rightarrow> (1, None, db)
        | Some st \<Rightarrow> (case mem_exec st db of (res, db') \<Rightarrow> (0, res, db')))"

lemma map_of_map_rows:
  "map_of (map (\<lambda>(f, r). (f, g f r)) db) f = map_option (g f) (map_of db f)"
  by (induction db) auto

lemma map_of_filter_distinct:
  "distinct (map fst db) \<Longrightarrow>
     map_of (filter (\<lambda>(f, r). \<not> P f r) db) f =
       (case map_of db f of None \<Rightarrow> None | Some r \<Rightarrow> if P f r then None else Some r)"
proof (induction db)
  case (Cons kv db)
  obtain k v where kv: "kv = (k, v)" by (cases kv)
  show ?case
  proof (cases "f = k")
    case True
    then have "map_of db f = None" using Cons.prems kv by (simp add: map_of_eq_None_iff)
    then show ?thesis using Cons True kv by (simp split: option.splits)
  next
    case False
    then show ?thesis using Cons kv by simp
  qed
qed simp

lemma mem_exec_ok:
  "mem_exec st db = (res, db') \<Longrightarrow>
     map_of db' = table_after st (map_of db) \<and> result_ok st (map_of db) res"
proof (cases st)
  case (Select cs)
  assume e: "mem_exec st db = (res, db')"
  let ?kvs = "filter (\<lambda>(f, r). row_matches cs f r) (AList.clearjunk db)"
  have "distinct (map fst ?kvs)"
    using distinct_clearjunk [of db] by (simp add: distinct_map_filter)
  moreover have "set ?kvs = {(f, r). map_of db f = Some r \<and> row_matches cs f r}"
    using map_of_clearjunk [of db] distinct_clearjunk [of db]
    by (auto simp: map_of_eq_Some_iff [symmetric])
  ultimately show ?thesis using e Select by auto
qed (auto simp: update_conv' map_of_map_rows map_of_filter_distinct map_of_clearjunk
    distinct_clearjunk fun_eq_iff)

lemma create_not_parsed: "sql_parse create_cmd = None"
proof -
  have "create_cmd = render [create_cmd]" by simp
  moreover have "list_all clean [create_cmd]"
    by (simp add: clean_def create_cmd_def MYSQL_TABLE_NAME_def)
  ultimately show ?thesis
    by (rule sql_parse_text) (simp_all add: create_cmd_def parse_simps)
qed

lemma mem_sql_server: "sql_server mem_sql map_of"
  unfolding sql_server_def
proof (intro allI impI)
  fix cmd st db ret res db'
  assume p: "sql_parse cmd = Some st" and s: "mem_sql cmd db = (ret, res, db')"
  then have "cmd \<noteq> create_cmd" using create_not_parsed by auto
  then have "ret = 0" "mem_exec st db = (res, db')"
    using p s by (auto simp: mem_sql_def split: prod.splits)
  then show "if ret \<noteq> 0 then map_of db' = map_of db
    else map_of db' = table_after st (map_of db) \<and> result_ok st (map_of db) res"
    using mem_exec_ok by simp
qed

lemma mem_sql_parsed:
  "sql_parse text = Some st \<Longrightarrow> mem_sql text db = (0, mem_exec st db)"
  using create_not_parsed by (auto simp: mem_sql_def split: prod.splits)

lemma mem_select_name:
  assumes "mem_exec (Select [Name_is f]) db = (res, db')"
  shows "\<exists>rows. res = Some rows \<and> length rows \<le> 1"
proof -
  have "res = Some (case map_of db f of None \<Rightarrow> [] | Some r \<Rightarrow> [row_text (f, r)])"
    using mem_exec_ok [OF assms] select_name by blast
  then show ?thesis by (auto split: option.splits)
qed

text \<open>The interface, interpreted on \<open>MysqlClient\<close> over that server.\<close>

interpretation memdb: meta_table "mysql_client mem_sql" map_of
  by (rule mysql_meta_table [OF mem_sql_server])

interpretation memrel: reliable_table "mysql_client mem_sql" map_of
proof
  fix md db rc md' db'
  assume "clean (file_name md)" "mc_Load (mysql_client mem_sql) md db = Inr (rc, md', db')"
  then show "rc \<noteq> STATUS_UNKNOWN_ERROR"
    using mem_sql_parsed [OF parse_load, of "file_name md" db]
      mem_select_name [of "file_name md" db] prod.collapse
    by (cases "mem_exec (Select [Name_is (file_name md)]) db")
      (auto simp: mysql_client_def MysqlClient_Load_def status_defs and_then_Inr_iff
        split: list.splits)
next
  fix f st db
  assume "clean f" "int_range (state_code st)"
  then show "fst (mc_UpdateState (mysql_client mem_sql) f st db) = STATUS_SUCCESS"
    using mem_sql_parsed [OF parse_update, of f st db]
    by (simp add: mysql_client_def MysqlClient_UpdateState_def)
qed

section \<open>Properties\<close>

text \<open>C27: Over a MySQL server (for the statement forms the client sends), the metadata \<open>MysqlClient\<close>
  saved is loaded back field by field under the same file name, whatever the job, when names hold
  no quote, backslash or NUL and the size is below 2^63: the statement texts, the decimal forms
  and the column order of \<open>Save\<close> and \<open>Load\<close> agree.\<close>

theorem mysql_save_then_load:
  assumes "sql_server sql tbl" and "savable md" and "table_ok (tbl db)" and "unat (msize md) < 2 ^ 63"
    and "MysqlClient_Save sql md db = (STATUS_SUCCESS, db1)"
    and "MysqlClient_Load sql (new_Metadata job (file_name md)) db1 = Inr (STATUS_SUCCESS, md', db2)"
  shows "md' = md\<lparr>job_name := job, state := state_of (state_code (state md))\<rparr>"
  using meta_table.save_then_load [OF mysql_meta_table [OF assms(1)] assms(2-4),
      of db1 "new_Metadata job (file_name md)"] assms(5,6)
  by (simp add: mysql_client_def new_Metadata_def)

lemma demo_savable: "savable demo_metadata"
  by (simp add: savable_def demo_metadata_def clean_def int_range_def)

lemma demo_save: "MysqlClient_Save mem_sql demo_metadata [] = (STATUS_SUCCESS, [(''f0'', row_of demo_metadata)])"
  using mem_sql_parsed [OF parse_save [OF demo_savable], of "[]"]
  by (simp add: MysqlClient_Save_def) (simp add: demo_metadata_def)

lemma demo_row_ok: "row_ok (row_of demo_metadata)"
  by (simp add: row_ok_def row_of_def demo_metadata_def int_range_def)

lemma demo_load:
  "MysqlClient_Load mem_sql (new_Metadata ''other'' ''f0'') [(''f0'', row_of demo_metadata)] =
     Inr (STATUS_SUCCESS, with_row (new_Metadata ''other'' ''f0'') ''f0'' (row_of demo_metadata),
          [(''f0'', row_of demo_metadata)])"
proof -
  have "clean ''f0''" by (simp add: clean_def)
  from mem_sql_parsed [OF parse_load [OF this]] show ?thesis
    using demo_row_ok
    by (simp add: MysqlClient_Load_def new_Metadata_def row_matches_def metadata_of_row_text)
qed

lemma mysql_save_then_load_witness:
  "with_row (new_Metadata ''other'' ''f0'') ''f0'' (row_of demo_metadata) =
     demo_metadata\<lparr>job_name := ''other'', state := state_of (state_code (state demo_metadata))\<rparr>"
proof (rule mysql_save_then_load [OF mem_sql_server demo_savable _ _ demo_save])
  have "file_name demo_metadata = ''f0''" by (simp add: demo_metadata_def)
  then show "MysqlClient_Load mem_sql (new_Metadata ''other'' (file_name demo_metadata))
      [(''f0'', row_of demo_metadata)] =
     Inr (STATUS_SUCCESS, with_row (new_Metadata ''other'' ''f0'') ''f0'' (row_of demo_metadata),
          [(''f0'', row_of demo_metadata)])"
    by (simp only: demo_load)
qed (simp_all add: table_ok_def demo_metadata_def)

text \<open>C28: \<open>BatchLoad\<close> returns exactly the rows its filter selects (rank when not negative, iteration
  when not empty, state when it is one of the six), each once, or reports that there are none,
  or fails with nothing; it never changes the table.\<close>

theorem mysql_batch_load_exact:
  assumes "sql_server sql tbl" and "filter_usable ft" and "table_ok (tbl db)"
  shows "\<exists>rc mds db'. MysqlClient_BatchLoad sql ft db = Inr (rc, mds, db') \<and> tbl db' = tbl db \<and>
     (rc = STATUS_UNKNOWN_ERROR \<and> mds = [] \<or>
      rc = (if mds = [] then STATUS_NOT_FOUND else STATUS_SUCCESS) \<and> distinct (map file_name mds) \<and>
      set mds = {with_row (new_Metadata [] []) f r | f r. tbl db f = Some r \<and>
        (ft_node_rank ft < 0 \<or> mr_rank r = ft_node_rank ft) \<and>
        (ft_iteration ft = [] \<or> mr_iteration r = ft_iteration ft) \<and>
        (state_code (ft_state ft) \<notin> {0..5} \<or> mr_state r = state_code (ft_state ft))})"
proof -
  have "row_matches (filter_conds ft) f r \<longleftrightarrow>
      (ft_node_rank ft < 0 \<or> mr_rank r = ft_node_rank ft) \<and>
      (ft_iteration ft = [] \<or> mr_iteration r = ft_iteration ft) \<and>
      (state_code (ft_state ft) \<notin> {0..5} \<or> mr_state r = state_code (ft_state ft))" for f r
    by (auto simp: row_matches_def filter_conds_def)
  then show ?thesis using mysql_batch [OF assms] by simp
qed

lemma mysql_batch_load_exact_witness:
  "\<exists>rc mds db'. MysqlClient_BatchLoad mem_sql
      \<lparr>ft_node_rank = -1, ft_iteration = ''7'', ft_state = STATE_ANY\<rparr> [(''f0'', row_of demo_metadata)] =
      Inr (rc, mds, db') \<and> map_of db' = map_of [(''f0'', row_of demo_metadata)]"
proof -
  have "filter_usable \<lparr>ft_node_rank = -1, ft_iteration = ''7'', ft_state = STATE_ANY\<rparr>"
    by (simp add: filter_usable_def int_range_def clean_def)
  moreover have "table_ok (map_of [(''f0'', row_of demo_metadata)])"
    using demo_row_ok by (simp add: table_ok_def)
  ultimately show ?thesis
    using mysql_batch_load_exact [OF mem_sql_server] by blast
qed

end
