(* ===== verification/Coordinator.thy ===== *)
theory Coordinator
  imports Operator Store MetaClient World
begin

text \<open>
  The reconciliation of \<open>src/coordinator/coordinator.cpp\<close>: one call of \<open>Coordinator::Reconcile\<close>
  takes a checkpoint file one state further (backup to the next node, then to disk), marks it
  broken when its data is gone, or deletes it when it is obsolescent.  Its state is the node:
  the metadata table, the cache index, the memory account, the memory, the disk; the peer's
  answers and the disk's are parameters with a state \<open>'p\<close> of their own.  \<open>ckpt_step\<close> is the life
  of a checkpoint file as an abstract step relation, which \<open>Reconcile\<close> refines.
\<close>

section \<open>Writing to disk\<close>

text \<open>
  \<open>Persistence::WriteToDisk\<close>: the file cannot be opened, or \<open>fwrite\<close> reports \<open>n\<close> bytes, \<open>k\<close> bytes
  have reached the (truncated) file, and \<open>fclose\<close> succeeds or not; a closed file holds what was
  written.
\<close>

datatype disk_outcome = Open_fails | Fwrite nat nat bool

definition WriteToDisk ::
  "disk_outcome \<Rightarrow> string \<Rightarrow> byte list \<Rightarrow> (string \<rightharpoonup> byte list) \<Rightarrow> bool \<times> (string \<rightharpoonup> byte list)" where
  "WriteToDisk out f data disk =
     (case out of
        Open_fails \<Rightarrow> (False, disk)
      | Fwrite n k shut \<Rightarrow>
          if n \<noteq> length data then (False, disk(f \<mapsto> take k data))
          else if \<not> shut then (False, disk(f \<mapsto> take k data))
          else (True, disk(f \<mapsto> data)))"

text \<open>\<open>fopen(f, "a")\<close>: create the file if there is none.\<close>

definition append_open :: "bool \<Rightarrow> string \<Rightarrow> (string \<rightharpoonup> byte list) \<Rightarrow> (string \<rightharpoonup> byte list)" where
  "append_open ok f disk = (if ok \<and> disk f = None then disk(f \<mapsto> []) else disk)"

section \<open>The node\<close>

record ('db, 'p) node =
  n_db :: 'db
  n_store :: storage
  n_mon :: monitor
  n_mem :: "size_t \<rightharpoonup> byte list"
  n_disk :: "string \<rightharpoonup> byte list"
  n_out :: 'p

record ('db, 'p) env =
  e_vars :: "string \<rightharpoonup> string"
  e_world :: world
  e_client :: "'db meta_client result"
  e_backup :: "InterNodeBackupRequest \<Rightarrow> 'p \<Rightarrow> bool \<times> 'p"
  e_write :: "string \<Rightarrow> byte list \<Rightarrow> 'p \<Rightarrow> disk_outcome \<times> 'p"
  e_touch :: "string \<Rightarrow> 'p \<Rightarrow> bool \<times> 'p"

definition rank_of :: "('db, 'p) env \<Rightarrow> int" where
  "rank_of e = w_node_rank (e_world e)"

definition persistent_off :: "('db, 'p) env \<Rightarrow> bool" where
  "persistent_off e \<longleftrightarrow> GetEnv (e_vars e) ''CKPT_ENGINE_ENABLE_PERSISTENT'' (Some ''on'') = ''off''"

text \<open>Reading \<open>n\<close> bytes behind a pointer: the start of a mapped block.\<close>

definition read_block :: "(size_t \<rightharpoonup> byte list) \<Rightarrow> size_t \<Rightarrow> size_t \<Rightarrow> byte list result" where
  "read_block mem a n =
     (case mem a of
        None \<Rightarrow> Inl (UB ''read of unmapped memory'')
      | Some bs \<Rightarrow> if unat n \<le> length bs then Inr (take (unat n) bs)
                   else Inl (UB ''read beyond the mapping''))"

fun apply_effect :: "os_effect \<Rightarrow> (size_t \<rightharpoonup> byte list) \<Rightarrow> (size_t \<rightharpoonup> byte list)" where
  "apply_effect (Close fd) mem = mem"
| "apply_effect (Munmap a n) mem = mem(a := None)"

section \<open>The handlers of Reconcile\<close>

text \<open>The lambdas of \<open>Reconcile\<close>, in its order.\<close>

definition checkDataCompletion ::
  "('db, 'p) env \<Rightarrow> Metadata \<Rightarrow> ('db, 'p) node \<Rightarrow> DataEntry option result" where
  "checkDataCompletion e md n =
     (if msize md = 0 then Inr None else Storage_Load (rank_of e) md (n_store n))"

definition updateState ::
  "'db meta_client \<Rightarrow> Metadata \<Rightarrow> CheckpointState \<Rightarrow> ('db, 'p) node \<Rightarrow> bool \<times> ('db, 'p) node" where
  "updateState mc md st n =
     (if state md = st then (True, n)
      else case mc_UpdateState mc (file_name md) st (n_db n) of
        (rc, db) \<Rightarrow> (IsSuccess rc, n\<lparr>n_db := db\<rparr>))"

definition backUp ::
  "('db, 'p) env \<Rightarrow> Metadata \<Rightarrow> DataEntry \<Rightarrow> bool \<Rightarrow> ('db, 'p) node \<Rightarrow> bool \<times> ('db, 'p) node" where
  "backUp e md entry only_metadata n =
     (case e_backup e \<lparr>bk_metadata = md, bk_data_entry = entry, bk_only_metadata = only_metadata\<rparr> (n_out n) of
        (ok, p) \<Rightarrow> (ok, n\<lparr>n_out := p\<rparr>))"

definition persistence ::
  "('db, 'p) env \<Rightarrow> Metadata \<Rightarrow> DataEntry \<Rightarrow> ('db, 'p) node \<Rightarrow> (bool \<times> ('db, 'p) node) result" where
  "persistence e md entry n =
     (if node_rank md \<noteq> rank_of e then Inr (True, n)
      else and_then (read_block (n_mem n) (address entry) (msize md)) (\<lambda>data.
        case e_write e (file_name md) data (n_out n) of (out, p) \<Rightarrow>
          (case WriteToDisk out (file_name md) data (n_disk n) of (ok, disk) \<Rightarrow>
             Inr (ok, n\<lparr>n_disk := disk, n_out := p\<rparr>))))"

definition deleteCkpt ::
  "('db, 'p) env \<Rightarrow> Metadata \<Rightarrow> ('db, 'p) node \<Rightarrow> (bool \<times> ('db, 'p) node) result" where
  "deleteCkpt e md n =
     and_then (Storage_Delete (rank_of e) md (n_store n) (n_mon n)) (\<lambda>(ok, fx, st, mon).
       Inr (ok, n\<lparr>n_store := st, n_mon := mon, n_mem := fold apply_effect fx (n_mem n)\<rparr>))"

definition touch_file :: "('db, 'p) env \<Rightarrow> string \<Rightarrow> ('db, 'p) node \<Rightarrow> ('db, 'p) node" where
  "touch_file e f n =
     (case e_touch e f (n_out n) of (ok, p) \<Rightarrow>
        n\<lparr>n_disk := append_open ok f (n_disk n), n_out := p\<rparr>)"

section \<open>Reconcile\<close>

text \<open>The cases of the switch; the answer is \<open>do_not_requeue\<close>.\<close>

definition reconcile_cached ::
  "('db, 'p) env \<Rightarrow> 'db meta_client \<Rightarrow> Metadata \<Rightarrow> DataEntry \<Rightarrow> ('db, 'p) node \<Rightarrow>
   (bool \<times> ('db, 'p) node) result" where
  "reconcile_cached e mc md entry n =
     (let world_size = w_world_size (e_world e);
          to_update_state = (if 1 < world_size then BACKED_UP else PERSISTENT);
          finish = (\<lambda>n. Inr (False, snd (updateState mc md to_update_state n)))
      in if world_size < 2
         then (if persistent_off e then Inr (True, touch_file e (file_name md) n)
               else and_then (persistence e md entry n)
                      (\<lambda>(ok, n). if ok then finish n else Inr (False, n)))
         else (case backUp e md entry False n of (ok, n) \<Rightarrow>
                 if ok then finish n else Inr (False, n)))"

definition reconcile_backed_up ::
  "('db, 'p) env \<Rightarrow> 'db meta_client \<Rightarrow> Metadata \<Rightarrow> DataEntry \<Rightarrow> ('db, 'p) node \<Rightarrow>
   (bool \<times> ('db, 'p) node) result" where
  "reconcile_backed_up e mc md entry n =
     (if persistent_off e then Inr (True, touch_file e (file_name md) n)
      else and_then (persistence e md entry n) (\<lambda>(ok, n).
        if \<not> ok then Inr (True, n)
        else Inr (False, snd (updateState mc md PERSISTENT n))))"

definition reconcile_obsolescent ::
  "('db, 'p) env \<Rightarrow> Metadata \<Rightarrow> DataEntry \<Rightarrow> ('db, 'p) node \<Rightarrow> (bool \<times> ('db, 'p) node) result" where
  "reconcile_obsolescent e md entry n =
     (case (if 1 < w_world_size (e_world e) \<and> node_rank md = rank_of e
            then backUp e md entry True n else (True, n)) of (ok, n) \<Rightarrow>
        if \<not> ok then Inr (False, n)
        else and_then (deleteCkpt e md n) (\<lambda>(ok, n). Inr (ok, n)))"

definition reconcile_complete ::
  "('db, 'p) env \<Rightarrow> 'db meta_client \<Rightarrow> Metadata \<Rightarrow> DataEntry \<Rightarrow> ('db, 'p) node \<Rightarrow>
   (bool \<times> ('db, 'p) node) result" where
  "reconcile_complete e mc md entry n =
     (case state md of
        PENDING \<Rightarrow> Inr (True, n)
      | CACHED \<Rightarrow> reconcile_cached e mc md entry n
      | BACKED_UP \<Rightarrow> reconcile_backed_up e mc md entry n
      | PERSISTENT \<Rightarrow> Inr (True, n)
      | OBSOLESCENT \<Rightarrow> reconcile_obsolescent e md entry n
      | BROKEN \<Rightarrow> Inr (True, n)
      | _ \<Rightarrow> Inl (Fatal ''abnormal checkpoint state''))"

definition reconcile_loaded ::
  "('db, 'p) env \<Rightarrow> 'db meta_client \<Rightarrow> Metadata \<Rightarrow> ('db, 'p) node \<Rightarrow>
   (bool \<times> ('db, 'p) node) result" where
  "reconcile_loaded e mc md n =
     (if node_rank md \<noteq> rank_of e \<and> state md \<noteq> OBSOLESCENT then Inr (True, n)
      else and_then (checkDataCompletion e md n) (\<lambda>found.
        case found of
          None \<Rightarrow> if state md = OBSOLESCENT then Inr (True, n)
                  else Inr (updateState mc md BROKEN n)
        | Some entry \<Rightarrow> reconcile_complete e mc md entry n))"

definition Reconcile ::
  "('db, 'p) env \<Rightarrow> string \<Rightarrow> ('db, 'p) node \<Rightarrow> (bool \<times> ('db, 'p) node) result" where
  "Reconcile e key n =
     and_then (e_client e) (\<lambda>mc.
     and_then (mc_Load mc (new_Metadata (w_job_name (e_world e)) key) (n_db n)) (\<lambda>(rc, md, db).
       if \<not> IsSuccess rc then Inr (IsNotFound rc, n\<lparr>n_db := db\<rparr>)
       else reconcile_loaded e mc md (n\<lparr>n_db := db\<rparr>)))"

section \<open>The life of a checkpoint file\<close>

text \<open>
  The abstract view of one file: its row in the table and its content on disk.  \<open>data\<close> is what
  the node still holds of it in memory (\<open>None\<close>: nothing, or no size; \<open>Inl\<close>: unmapped), \<open>multi\<close> tells whether there
  are other nodes.  An error of the table, of the peer or of the disk is a step that stays, or
  that leaves a prefix of the data in the file.
\<close>

definition in_state :: "CheckpointState \<Rightarrow> meta_row \<Rightarrow> bool" where
  "in_state st r \<longleftrightarrow> mr_state r = state_code st"

definition persistable :: "bool \<Rightarrow> meta_row \<Rightarrow> bool" where
  "persistable multi r \<longleftrightarrow> in_state BACKED_UP r \<or> in_state CACHED r \<and> \<not> multi"

inductive ckpt_step ::
  "int \<Rightarrow> bool \<Rightarrow> byte list result option \<Rightarrow> meta_row option \<times> byte list option \<Rightarrow>
   meta_row option \<times> byte list option \<Rightarrow> bool"
  for rank multi data where
  stay: "ckpt_step rank multi data s s"
| touch: "ckpt_step rank multi data (r, None) (r, Some [])"
| lose: "mr_rank r = rank \<Longrightarrow> data = None \<Longrightarrow> \<not> in_state OBSOLESCENT r \<Longrightarrow>
    ckpt_step rank multi data (Some r, f) (Some (set_state BROKEN r), f)"
| back_up: "mr_rank r = rank \<Longrightarrow> multi \<Longrightarrow> data \<noteq> None \<Longrightarrow> in_state CACHED r \<Longrightarrow>
    ckpt_step rank multi data (Some r, f) (Some (set_state BACKED_UP r), f)"
| spill: "mr_rank r = rank \<Longrightarrow> data = Some (Inr bs) \<Longrightarrow> persistable multi r \<Longrightarrow>
    ckpt_step rank multi data (Some r, f) (Some r, Some (take k bs))"
| persist: "mr_rank r = rank \<Longrightarrow> data = Some (Inr bs) \<Longrightarrow> persistable multi r \<Longrightarrow>
    ckpt_step rank multi data (Some r, f) (Some (set_state PERSISTENT r), Some bs)"

inductive_cases ckpt_stepE: "ckpt_step rank multi data s t"

definition data_at ::
  "('db, 'p) env \<Rightarrow> ('db \<Rightarrow> string \<rightharpoonup> meta_row) \<Rightarrow> string \<Rightarrow> ('db, 'p) node \<Rightarrow> byte list result option" where
  "data_at e tbl key n =
     (case tbl (n_db n) key of
        None \<Rightarrow> None
      | Some r \<Rightarrow>
          if mr_size r = 0 then None
          else map_option (\<lambda>entry. read_block (n_mem n) (address entry) (mr_size r))
                 (own_dict (n_store n) key))"

definition moves ::
  "('db, 'p) env \<Rightarrow> ('db \<Rightarrow> string \<rightharpoonup> meta_row) \<Rightarrow> string \<Rightarrow> ('db, 'p) node \<Rightarrow> ('db, 'p) node \<Rightarrow> bool" where
  "moves e tbl key n n' \<longleftrightarrow>
     ckpt_step (rank_of e) (1 < w_world_size (e_world e)) (data_at e tbl key n)
       (tbl (n_db n) key, n_disk n key) (tbl (n_db n') key, n_disk n' key) \<and>
     (\<forall>f. f \<noteq> key \<longrightarrow> tbl (n_db n') f = tbl (n_db n) f \<and> n_disk n' f = n_disk n f)"

lemma moves_stay:
  "tbl (n_db n') = tbl (n_db n) \<Longrightarrow> n_disk n' = n_disk n \<Longrightarrow> moves e tbl key n n'"
  by (simp add: moves_def ckpt_step.stay)

lemma with_row_simps [simp]:
  "file_name (with_row md f r) = f" "node_rank (with_row md f r) = mr_rank r"
  "state (with_row md f r) = state_of (mr_state r)" "msize (with_row md f r) = mr_size r"
  by (simp_all add: with_row_def)

lemma state_of_eq: "state_of i = st \<Longrightarrow> i = state_code st"
  using state_code_of [of i] by simp

text \<open>What each handler does to table and disk; \<open>up\<close> is the row with its new state.\<close>

context meta_table
begin

lemma updateState_cases:
  assumes "clean f" and "int_range (state_code st)" and "tbl (n_db n) f = Some r"
    and "updateState mc (with_row md f r) st n = (ok, n')"
  shows "\<exists>db. n' = n\<lparr>n_db := db\<rparr> \<and>
     (\<not> ok \<and> tbl db = tbl (n_db n) \<or> ok \<and> tbl db = (tbl (n_db n))(f \<mapsto> set_state st r))"
proof (cases "state_of (mr_state r) = st")
  case True
  then have "set_state st r = r" by (cases r) (auto simp: set_state_def dest: state_of_eq)
  moreover have "ok" "n' = n" using assms(4) True by (simp_all add: updateState_def)
  ultimately show ?thesis using assms(3) by (intro exI [of _ "n_db n"]) (simp add: fun_upd_idem)
next
  case False
  obtain rc db where u: "mc_UpdateState mc f st (n_db n) = (rc, db)"
    by (cases "mc_UpdateState mc f st (n_db n)")
  then have "ok = IsSuccess rc" "n' = n\<lparr>n_db := db\<rparr>"
    using assms(4) False by (simp_all add: updateState_def)
  then show ?thesis using update [OF assms(1,2) u] assms(3) by (auto simp: status_defs)
qed

lemma finish_cases:
  assumes "clean f" and "int_range (state_code st)" and "tbl (n_db n) f = Some r"
  shows "\<exists>db. snd (updateState mc (with_row md f r) st n) = n\<lparr>n_db := db\<rparr> \<and>
     (tbl db = tbl (n_db n) \<or> tbl db = (tbl (n_db n))(f \<mapsto> set_state st r))"
  using updateState_cases [OF assms, of md] by (cases "updateState mc (with_row md f r) st n") auto

end

lemma WriteToDisk_cases:
  "WriteToDisk out f data disk = (ok, disk') \<Longrightarrow>
     (\<not> ok \<and> (disk' = disk \<or> (\<exists>k. disk' = disk(f \<mapsto> take k data)))) \<or>
     (ok \<and> disk' = disk(f \<mapsto> data))"
  by (auto simp: WriteToDisk_def split: disk_outcome.splits if_splits)

lemma persistence_cases:
  assumes "persistence e (with_row md f r) entry n = Inr (ok, n')" and "mr_rank r = rank_of e"
  shows "\<exists>bs p disk. read_block (n_mem n) (address entry) (mr_size r) = Inr bs \<and>
     n' = n\<lparr>n_disk := disk, n_out := p\<rparr> \<and>
     (\<not> ok \<and> (disk = n_disk n \<or> (\<exists>k. disk = (n_disk n)(f \<mapsto> take k bs))) \<or>
      ok \<and> disk = (n_disk n)(f \<mapsto> bs))"
proof -
  obtain bs where bs: "read_block (n_mem n) (address entry) (mr_size r) = Inr bs"
    using assms by (auto simp: persistence_def and_then_Inr_iff)
  obtain out p where w: "e_write e f bs (n_out n) = (out, p)"
    by (cases "e_write e f bs (n_out n)")
  obtain ok' disk where d: "WriteToDisk out f bs (n_disk n) = (ok', disk)"
    by (cases "WriteToDisk out f bs (n_disk n)")
  have "ok = ok'" "n' = n\<lparr>n_disk := disk, n_out := p\<rparr>"
    using assms bs w d by (auto simp: persistence_def)
  then show ?thesis using bs WriteToDisk_cases [OF d] by blast
qed

lemma moves_touch: "moves e tbl key n (touch_file e key n)"
  by (auto simp: moves_def touch_file_def append_open_def ckpt_step.stay ckpt_step.touch
      split: prod.splits)

text \<open>A write that may be followed by the update of the state.\<close>

lemma moves_write:
  assumes r: "tbl (n_db n) key = Some r" "mr_rank r = rank_of e" "mr_size r \<noteq> 0"
    and entry: "own_dict (n_store n) key = Some entry"
    and bs: "read_block (n_mem n) (address entry) (mr_size r) = Inr bs"
    and p: "persistable (1 < w_world_size (e_world e)) r"
    and d: "n_disk n' = n_disk n \<or> (\<exists>k. n_disk n' = (n_disk n)(key \<mapsto> take k bs))"
    and t: "tbl (n_db n') = tbl (n_db n)"
  shows "moves e tbl key n n'"
proof -
  have data: "data_at e tbl key n = Some (Inr bs)" using r entry bs by (simp add: data_at_def)
  show ?thesis using d
  proof
    assume "n_disk n' = n_disk n"
    with t show ?thesis by (rule moves_stay)
  next
    assume "\<exists>k. n_disk n' = (n_disk n)(key \<mapsto> take k bs)"
    then show ?thesis
      using r p t data ckpt_step.spill [of r "rank_of e" "Some (Inr bs)" bs] by (auto simp: moves_def)
  qed
qed

lemma moves_persist:
  assumes r: "tbl (n_db n) key = Some r" "mr_rank r = rank_of e" "mr_size r \<noteq> 0"
    and entry: "own_dict (n_store n) key = Some entry"
    and bs: "read_block (n_mem n) (address entry) (mr_size r) = Inr bs"
    and p: "persistable (1 < w_world_size (e_world e)) r"
    and d: "n_disk n' = (n_disk n)(key \<mapsto> bs)"
    and t: "tbl (n_db n') = tbl (n_db n) \<or>
            tbl (n_db n') = (tbl (n_db n))(key \<mapsto> set_state PERSISTENT r)"
  shows "moves e tbl key n n'"
proof -
  have data: "data_at e tbl key n = Some (Inr bs)" using r entry bs by (simp add: data_at_def)
  show ?thesis using t
  proof
    assume "tbl (n_db n') = tbl (n_db n)"
    then show ?thesis
      using d by (intro moves_write [where tbl = tbl, OF r entry bs p] disjI2 exI [of _ "length bs"]) auto
  next
    assume "tbl (n_db n') = (tbl (n_db n))(key \<mapsto> set_state PERSISTENT r)"
    then show ?thesis
      using r p d data ckpt_step.persist [of r "rank_of e" "Some (Inr bs)" bs] by (auto simp: moves_def)
  qed
qed

text \<open>The state of a loaded file is one of the six, or the process ends.\<close>

lemma in_state_of [simp]: "state_of (mr_state r) = st \<Longrightarrow> in_state st r"
  by (auto simp: in_state_def)

context meta_table
begin

lemma if_negated: "(if \<not> b then x else y) = (if b then y else x)"
  by simp

text \<open>Writing the data out and, when that succeeded, updating the state.\<close>

lemma persistence_moves:
  assumes key: "clean key" and r: "tbl (n_db n) key = Some r" "mr_rank r = rank_of e" "mr_size r \<noteq> 0"
    and entry: "own_dict (n_store n) key = Some entry"
    and p: "persistable (1 < w_world_size (e_world e)) r"
    and run: "and_then (persistence e (with_row md key r) entry n) (\<lambda>(ok, n).
      if ok then Inr (False, snd (updateState mc (with_row md key r) PERSISTENT n)) else Inr (d, n)) =
      Inr (don, n')"
  shows "moves e tbl key n n'"
proof (cases "persistence e (with_row md key r) entry n")
  case (Inl f)
  then show ?thesis using run by simp
next
  case (Inr x)
  obtain ok n1 where x: "x = (ok, n1)" by (cases x)
  have w: "persistence e (with_row md key r) entry n = Inr (ok, n1)" using Inr x by simp
  obtain bs q disk where bs: "read_block (n_mem n) (address entry) (mr_size r) = Inr bs"
      "n1 = n\<lparr>n_disk := disk, n_out := q\<rparr>"
      "\<not> ok \<and> (disk = n_disk n \<or> (\<exists>k. disk = (n_disk n)(key \<mapsto> take k bs))) \<or>
       ok \<and> disk = (n_disk n)(key \<mapsto> bs)"
    using persistence_cases [OF w r(2)] by blast
  obtain db where db: "snd (updateState mc (with_row md key r) PERSISTENT n1) = n1\<lparr>n_db := db\<rparr>"
      "tbl db = tbl (n_db n1) \<or> tbl db = (tbl (n_db n1))(key \<mapsto> set_state PERSISTENT r)"
    using finish_cases [OF key, of PERSISTENT n1 r md] r(1) bs(2) by (auto simp: int_range_def)
  show ?thesis
  proof (cases ok)
    case True
    then show ?thesis using run w db bs
      by (intro moves_persist [where tbl = tbl, OF r entry bs(1) p]) auto
  next
    case False
    then show ?thesis using run w bs
      by (intro moves_write [where tbl = tbl, OF r entry bs(1) p]) auto
  qed
qed

lemma reconcile_cached_moves:
  assumes key: "clean key" and r: "tbl (n_db n) key = Some r" "mr_rank r = rank_of e" "mr_size r \<noteq> 0"
    and entry: "own_dict (n_store n) key = Some entry" and st: "state_of (mr_state r) = CACHED"
    and run: "reconcile_cached e mc (with_row md key r) entry n = Inr (don, n')"
  shows "moves e tbl key n n'"
proof (cases "w_world_size (e_world e) < 2")
  case True
  show ?thesis
  proof (cases "persistent_off e")
    case True
    then show ?thesis using run \<open>w_world_size (e_world e) < 2\<close> moves_touch
      by (auto simp: reconcile_cached_def)
  next
    case False
    have "persistable (1 < w_world_size (e_world e)) r"
      using True st by (simp add: persistable_def)
    then show ?thesis using False True run
      by (intro persistence_moves [OF key r entry]) (auto simp: reconcile_cached_def)
  qed
next
  case False
  obtain ok n1 where b: "backUp e (with_row md key r) entry False n = (ok, n1)"
    by (cases "backUp e (with_row md key r) entry False n")
  then obtain q where n1: "n1 = n\<lparr>n_out := q\<rparr>" by (auto simp: backUp_def split: prod.splits)
  have fin: "n' = (if ok then snd (updateState mc (with_row md key r) BACKED_UP n1) else n1)"
    using run False b by (auto simp: reconcile_cached_def split: if_splits)
  obtain db where db: "snd (updateState mc (with_row md key r) BACKED_UP n1) = n1\<lparr>n_db := db\<rparr>"
      "tbl db = tbl (n_db n1) \<or> tbl db = (tbl (n_db n1))(key \<mapsto> set_state BACKED_UP r)"
    using finish_cases [OF key, of BACKED_UP n1 r md] r(1) n1 by (auto simp: int_range_def)
  have "data_at e tbl key n \<noteq> None"
    using r entry by (auto simp: data_at_def split: sum.splits)
  then have "ckpt_step (rank_of e) (1 < w_world_size (e_world e)) (data_at e tbl key n)
      (Some r, n_disk n key) (Some (set_state BACKED_UP r), n_disk n key)"
    using r st False by (intro ckpt_step.back_up) auto
  then show ?thesis using fin db n1 r
    by (cases ok) (auto simp: moves_def ckpt_step.stay)
qed

lemma reconcile_backed_up_moves:
  assumes key: "clean key" and r: "tbl (n_db n) key = Some r" "mr_rank r = rank_of e" "mr_size r \<noteq> 0"
    and entry: "own_dict (n_store n) key = Some entry" and st: "state_of (mr_state r) = BACKED_UP"
    and run: "reconcile_backed_up e mc (with_row md key r) entry n = Inr (don, n')"
  shows "moves e tbl key n n'"
proof (cases "persistent_off e")
  case True
  then show ?thesis using run moves_touch by (auto simp: reconcile_backed_up_def)
next
  case False
  have "persistable (1 < w_world_size (e_world e)) r"
    using st by (simp add: persistable_def)
  then show ?thesis using False run
    by (intro persistence_moves [OF key r entry, where md = md and d = True and don = don])
       (simp_all add: reconcile_backed_up_def if_negated)
qed

end

lemma deleteCkpt_frame:
  "deleteCkpt e md n = Inr (ok, n') \<Longrightarrow> n_db n' = n_db n \<and> n_disk n' = n_disk n"
  by (auto simp: deleteCkpt_def and_then_Inr_iff)

lemma backUp_frame:
  "backUp e md entry om n = (ok, n') \<Longrightarrow> \<exists>p. n' = n\<lparr>n_out := p\<rparr>"
  by (auto simp: backUp_def split: prod.splits)

lemma reconcile_obsolescent_frame:
  assumes "reconcile_obsolescent e md entry n = Inr (don, n')"
  shows "n_db n' = n_db n \<and> n_disk n' = n_disk n"
proof -
  obtain ok n1 where b: "(if 1 < w_world_size (e_world e) \<and> node_rank md = rank_of e
      then backUp e md entry True n else (True, n)) = (ok, n1)"
    by (cases "if 1 < w_world_size (e_world e) \<and> node_rank md = rank_of e
      then backUp e md entry True n else (True, n)")
  then have "n_db n1 = n_db n \<and> n_disk n1 = n_disk n"
    by (auto split: if_splits dest: backUp_frame)
  then show ?thesis using assms b
    by (cases ok) (auto simp: reconcile_obsolescent_def and_then_Inr_iff dest: deleteCkpt_frame)
qed

context meta_table
begin

lemma reconcile_loaded_moves:
  assumes key: "clean key" and r: "tbl (n_db n) key = Some r"
    and run: "reconcile_loaded e mc (with_row md key r) n = Inr (don, n')"
  shows "moves e tbl key n n'"
proof -
  let ?md = "with_row md key r"
  consider (skip) "n' = n"
    | (lost) "mr_rank r = rank_of e" "checkDataCompletion e ?md n = Inr None"
        "state ?md \<noteq> OBSOLESCENT" "updateState mc ?md BROKEN n = (don, n')"
    | (found) entry where "checkDataCompletion e ?md n = Inr (Some entry)"
        "mr_rank r = rank_of e \<or> state ?md = OBSOLESCENT"
        "reconcile_complete e mc ?md entry n = Inr (don, n')"
  proof (cases "mr_rank r \<noteq> rank_of e \<and> state ?md \<noteq> OBSOLESCENT")
    case True
    then show ?thesis using run skip by (simp add: reconcile_loaded_def)
  next
    case False
    then obtain x where x: "checkDataCompletion e ?md n = Inr x"
      using run by (auto simp: reconcile_loaded_def and_then_Inr_iff)
    show ?thesis
      using run x False skip lost found
      by (cases x) (auto simp: reconcile_loaded_def split: if_splits)
  qed
  then show ?thesis
  proof cases
    case skip
    then show ?thesis by (simp add: moves_stay)
  next
    case lost
    have "data_at e tbl key n = None"
      using lost(1,2) r
      by (auto simp: checkDataCompletion_def Storage_Load_def data_at_def split: if_splits)
    moreover have "\<not> in_state OBSOLESCENT r"
      using lost(3) by (auto simp: in_state_def state_of_def)
    ultimately have "ckpt_step (rank_of e) (1 < w_world_size (e_world e)) (data_at e tbl key n)
        (Some r, n_disk n key) (Some (set_state BROKEN r), n_disk n key)"
      using lost(1) by (intro ckpt_step.lose)
    then show ?thesis
      using updateState_cases [OF key _ r lost(4)] r
      by (auto simp: moves_def int_range_def ckpt_step.stay)
  next
    case found
    have own: "own_dict (n_store n) key = Some entry" "mr_size r \<noteq> 0" if "mr_rank r = rank_of e"
      using found(1) that by (auto simp: checkDataCompletion_def Storage_Load_def split: if_splits)
    show ?thesis
    proof (cases "state ?md")
      case CACHED
      then show ?thesis
        using found own by (intro reconcile_cached_moves [OF key r]) (auto simp: reconcile_complete_def)
    next
      case BACKED_UP
      then show ?thesis
        using found own by (intro reconcile_backed_up_moves [OF key r]) (auto simp: reconcile_complete_def)
    next
      case OBSOLESCENT
      then show ?thesis
        using found(3)
        by (intro moves_stay) (auto simp: reconcile_complete_def dest!: reconcile_obsolescent_frame)
    qed (use found(3) in \<open>auto simp: reconcile_complete_def moves_stay\<close>)
  qed
qed

lemma moves_db: "tbl db = tbl (n_db n) \<Longrightarrow> moves e tbl key (n\<lparr>n_db := db\<rparr>) n' = moves e tbl key n n'"
  by (simp add: moves_def data_at_def cong: option.case_cong if_cong)

lemma Reconcile_cases:
  assumes "e_client e = Inr mc" and key: "clean key" and t: "table_ok (tbl (n_db n))"
  shows "\<exists>db. tbl db = tbl (n_db n) \<and>
     (Reconcile e key n = Inr (False, n\<lparr>n_db := db\<rparr>) \<or>
      tbl (n_db n) key = None \<and> Reconcile e key n = Inr (True, n\<lparr>n_db := db\<rparr>) \<or>
      (\<exists>r md. tbl (n_db n) key = Some r \<and>
        Reconcile e key n = reconcile_loaded e mc (with_row md key r) (n\<lparr>n_db := db\<rparr>)))"
proof -
  let ?md = "new_Metadata (w_job_name (e_world e)) key"
  have f: "file_name ?md = key" by (simp add: new_Metadata_def)
  obtain rc md db where l: "mc_Load mc ?md (n_db n) = Inr (rc, md, db)" "tbl db = tbl (n_db n)"
      "rc = STATUS_UNKNOWN_ERROR \<or> rc = STATUS_NOT_FOUND \<and> tbl (n_db n) key = None \<or>
       rc = STATUS_SUCCESS \<and> (\<exists>r. tbl (n_db n) key = Some r \<and> md = with_row ?md key r)"
    using load [of ?md "n_db n"] key t unfolding f by blast
  show ?thesis
    by (rule exI [of _ db], use l assms(1) in \<open>auto simp: Reconcile_def status_defs\<close>)
qed

lemma Reconcile_moves:
  assumes "e_client e = Inr mc" and "clean key" and "table_ok (tbl (n_db n))"
    and "Reconcile e key n = Inr (don, n')"
  shows "moves e tbl key n n'"
proof -
  obtain db where db: "tbl db = tbl (n_db n)"
    "Reconcile e key n = Inr (False, n\<lparr>n_db := db\<rparr>) \<or>
      tbl (n_db n) key = None \<and> Reconcile e key n = Inr (True, n\<lparr>n_db := db\<rparr>) \<or>
      (\<exists>r md. tbl (n_db n) key = Some r \<and>
        Reconcile e key n = reconcile_loaded e mc (with_row md key r) (n\<lparr>n_db := db\<rparr>))"
    using Reconcile_cases [OF assms(1-3)] by blast
  show ?thesis
  proof (cases "\<exists>r md. tbl (n_db n) key = Some r \<and>
        Reconcile e key n = reconcile_loaded e mc (with_row md key r) (n\<lparr>n_db := db\<rparr>)")
    case True
    then obtain r md where rm: "tbl (n_db n) key = Some r"
        "reconcile_loaded e mc (with_row md key r) (n\<lparr>n_db := db\<rparr>) = Inr (don, n')"
      using assms(4) by auto
    have "moves e tbl key (n\<lparr>n_db := db\<rparr>) n'"
      using rm db(1) by (intro reconcile_loaded_moves [OF assms(2)]) auto
    then show ?thesis using moves_db [OF db(1)] by simp
  next
    case False
    then have "n' = n\<lparr>n_db := db\<rparr>" using db(2) assms(4) by auto
    then show ?thesis using db(1) by (simp add: moves_stay)
  qed
qed

end

section \<open>Files on disk\<close>

text \<open>A file the table calls persistent is on disk with its full length.\<close>

definition persist_ok :: "('db, 'p) env \<Rightarrow> ('db \<Rightarrow> string \<rightharpoonup> meta_row) \<Rightarrow> ('db, 'p) node \<Rightarrow> bool" where
  "persist_ok e tbl n \<longleftrightarrow>
     (\<forall>f r. tbl (n_db n) f = Some r \<longrightarrow> mr_rank r = rank_of e \<longrightarrow> in_state PERSISTENT r \<longrightarrow>
        (\<exists>bs. n_disk n f = Some bs \<and> length bs = unat (mr_size r)))"

lemma set_state_simps [simp]:
  "mr_rank (set_state st r) = mr_rank r" "mr_size (set_state st r) = mr_size r"
  "mr_iteration (set_state st r) = mr_iteration r" "mr_state (set_state st r) = state_code st"
  by (simp_all add: set_state_def)

lemma row_ok_set_state: "row_ok r \<Longrightarrow> int_range (state_code st) \<Longrightarrow> row_ok (set_state st r)"
  by (simp add: row_ok_def)

lemma data_at_length:
  "data_at e tbl key n = Some (Inr bs) \<Longrightarrow> tbl (n_db n) key = Some r \<Longrightarrow> length bs = unat (mr_size r)"
  by (auto simp: data_at_def read_block_def split: if_splits option.splits)

lemma moves_row_ok:
  assumes "moves e tbl key n n'" and "table_ok (tbl (n_db n))"
  shows "table_ok (tbl (n_db n'))"
proof -
  have "row_ok r" if "tbl (n_db n') key = Some r" for r
  proof -
    have "tbl (n_db n) key = Some r0 \<Longrightarrow> row_ok r0" for r0 using assms(2) by (simp add: table_ok_def)
    with assms(1) that show ?thesis
      by (auto simp: moves_def intro!: row_ok_set_state elim!: ckpt_stepE) (auto simp: int_range_def)
  qed
  moreover have "row_ok r" if "f \<noteq> key" "tbl (n_db n') f = Some r" for f r
    using assms that by (auto simp: moves_def table_ok_def)
  ultimately show ?thesis unfolding table_ok_def by metis
qed

lemma moves_persist_ok:
  assumes m: "moves e tbl key n n'" and p: "persist_ok e tbl n"
  shows "persist_ok e tbl n'"
  unfolding persist_ok_def
proof (intro allI impI)
  fix f r assume r: "tbl (n_db n') f = Some r" "mr_rank r = rank_of e" "in_state PERSISTENT r"
  show "\<exists>bs. n_disk n' f = Some bs \<and> length bs = unat (mr_size r)"
  proof (cases "f = key")
    case False
    then show ?thesis using m p r by (auto simp: moves_def persist_ok_def)
  next
    case True
    have old: "\<exists>bs. n_disk n key = Some bs \<and> length bs = unat (mr_size r)"
      if "tbl (n_db n) key = Some r"
      using p r that by (auto simp: persist_ok_def)
    have "ckpt_step (rank_of e) (1 < w_world_size (e_world e)) (data_at e tbl key n)
       (tbl (n_db n) key, n_disk n key) (Some r, n_disk n' key)"
      using m r(1) True by (simp add: moves_def)
    then show ?thesis
      using old r True
      by (elim ckpt_stepE) (auto simp: persistable_def in_state_def dest: data_at_length)
  qed
qed

section \<open>Properties\<close>


text \<open>C4: However often and in whatever order the work queue runs \<open>Reconcile\<close>, and whatever the
  peer, the disk and the table answer, a file of this node that the table calls persistent is on
  disk with its full size.\<close>

theorem persistent_means_on_disk:
  assumes "meta_table mc tbl" and "e_client e = Inr mc" and "\<forall>k \<in> set q. clean k"
    and "table_ok (tbl (n_db n))" and "persist_ok e tbl n"
    and "drain (Reconcile e) many q n = Inr (q', n')"
  shows "persist_ok e tbl n'"
proof -
  let ?I = "\<lambda>n. table_ok (tbl (n_db n)) \<and> persist_ok e tbl n"
  have "?I n'' " if "k \<in> {k. clean k}" "?I n" "Reconcile e k n = Inr (don, n'')" for k n don n''
  proof -
    have "moves e tbl k n n''"
      using that by (intro meta_table.Reconcile_moves [OF assms(1,2)]) auto
    then show ?thesis using that moves_row_ok moves_persist_ok by blast
  qed
  then show ?thesis
    using drain_invariant [where K = "{k. clean k}" and I = ?I and h = "Reconcile e"] assms(3-6) by blast
qed

text \<open>A node whose rank 0 of a two-node job has one file in memory.\<close>

definition demo_world :: "int \<Rightarrow> world" where
  "demo_world sz = \<lparr>w_hostname = ''a'', w_job_name = ''job'', w_hosts = [''a'', ''b''],
     w_world_size = sz, w_node_rank = 0\<rparr>"

definition demo_env :: "int \<Rightarrow> disk_outcome \<Rightarrow> bool \<Rightarrow> (mem_db, unit) env" where
  "demo_env sz out peer = \<lparr>e_vars = Map.empty, e_world = demo_world sz,
     e_client = Inr (mysql_client mem_sql), e_backup = (\<lambda>_ p. (peer, p)),
     e_write = (\<lambda>_ data p. (out, p)), e_touch = (\<lambda>_ p. (True, p))\<rparr>"

definition demo_row :: "CheckpointState \<Rightarrow> meta_row" where
  "demo_row st = \<lparr>mr_rank = 0, mr_iteration = ''7'', mr_state = state_code st, mr_size = 3\<rparr>"

definition demo_node :: "CheckpointState \<Rightarrow> (mem_db, unit) node" where
  "demo_node st = \<lparr>n_db = [(''f0'', demo_row st)],
     n_store = \<lparr>own_dict = [''f0'' \<mapsto> \<lparr>address = 4096, pid = 1, memfd = 5\<rparr>], backup_dict = Map.empty\<rparr>,
     n_mon = demo_monitor, n_mem = [4096 \<mapsto> [1, 2, 3]], n_disk = Map.empty, n_out = ()\<rparr>"

lemma demo_clean: "clean ''f0''"
  by (simp add: clean_def)

lemma demo_table_ok: "state_ok st \<Longrightarrow> table_ok (map_of (n_db (demo_node st)))"
  by (simp add: demo_node_def table_ok_def row_ok_def demo_row_def int_range_def state_ok_def)

lemma demo_load_row:
  assumes "state_ok st"
  shows "MysqlClient_Load mem_sql (new_Metadata ''job'' ''f0'') [(''f0'', demo_row st)] =
     Inr (STATUS_SUCCESS, with_row (new_Metadata ''job'' ''f0'') ''f0'' (demo_row st), [(''f0'', demo_row st)])"
proof -
  have "row_ok (demo_row st)"
    using assms by (simp add: row_ok_def demo_row_def int_range_def state_ok_def)
  then show ?thesis
    using mem_sql_parsed [OF parse_load [OF demo_clean]]
    by (simp add: MysqlClient_Load_def new_Metadata_def row_matches_def metadata_of_row_text)
qed

lemma demo_update:
  assumes "state_ok st"
  shows "MysqlClient_UpdateState mem_sql ''f0'' st [(''f0'', demo_row st')] =
     (STATUS_SUCCESS, [(''f0'', demo_row st)])"
proof -
  have "int_range (state_code st)" using assms by (simp add: state_ok_def)
  from mem_sql_parsed [OF parse_update [OF demo_clean this]] show ?thesis
    by (simp add: MysqlClient_UpdateState_def row_matches_def demo_row_def)
qed

lemmas demo_run = Reconcile_def demo_env_def demo_node_def demo_world_def mysql_client_def
  demo_load_row demo_update reconcile_loaded_def rank_of_def checkDataCompletion_def Storage_Load_def
  reconcile_complete_def reconcile_cached_def reconcile_backed_up_def backUp_def updateState_def
  persistent_off_def GetEnv_def persistence_def read_block_def WriteToDisk_def
  status_defs Let_def state_of_def

lemma demo_backup_run:
  "Reconcile (demo_env 2 (Fwrite 3 3 True) True) ''f0'' (demo_node CACHED) = Inr (False, demo_node BACKED_UP)"
  by (simp add: demo_run) (simp add: demo_row_def)


lemma demo_persist_run:
  "Reconcile (demo_env 2 (Fwrite 3 3 True) True) ''f0'' (demo_node BACKED_UP) =
     Inr (False, (demo_node PERSISTENT)\<lparr>n_disk := [''f0'' \<mapsto> [1, 2, 3]]\<rparr>)"
  by (simp add: demo_run) (simp add: demo_row_def)

lemma persistent_means_on_disk_witness:
  "persist_ok (demo_env 2 (Fwrite 3 3 True) True) map_of
     ((demo_node PERSISTENT)\<lparr>n_disk := [''f0'' \<mapsto> [1, 2, 3]]\<rparr>)"
  using persistent_means_on_disk [OF memdb.meta_table_axioms,
      where e = "demo_env 2 (Fwrite 3 3 True) True" and q = "[''f0'']" and many = 2 and
        n = "demo_node CACHED" and q' = "[''f0'']"]
  by (simp add: demo_backup_run demo_persist_run numeral_2_eq_2 demo_table_ok demo_clean)
     (simp add: demo_env_def demo_node_def persist_ok_def demo_row_def in_state_def)

text \<open>A write to disk that fails is tried again for a file that is cached on a single node, but
  given up for a backed-up file: \<open>Reconcile\<close> asks not to be called again, the table keeps saying
  backed up, and the failed write has replaced the file's former content by at most a prefix.\<close>

theorem backed_up_write_failure_is_final:
  assumes "e_client e = Inr mc"
    and "mc_Load mc (new_Metadata (w_job_name (e_world e)) key) (n_db n) = Inr (STATUS_SUCCESS, with_row md key r, db)"
    and "mr_rank r = rank_of e" and "mr_size r \<noteq> 0" and "key \<noteq> []"
    and "own_dict (n_store n) key = Some entry"
    and "read_block (n_mem n) (address entry) (mr_size r) = Inr bs"
    and "\<not> persistent_off e"
    and "e_write e key bs (n_out n) = (Fwrite k k True, p)" and "k \<noteq> length bs"
    and "in_state BACKED_UP r \<or> in_state CACHED r \<and> w_world_size (e_world e) < 2"
  shows "Reconcile e key n = Inr (in_state BACKED_UP r,
     n\<lparr>n_db := db, n_disk := (n_disk n)(key \<mapsto> take k bs), n_out := p\<rparr>)"
  using assms
  by (auto simp: Reconcile_def status_defs reconcile_loaded_def checkDataCompletion_def
      Storage_Load_def reconcile_complete_def reconcile_backed_up_def reconcile_cached_def
      persistence_def WriteToDisk_def in_state_def state_of_def Let_def)

lemma backed_up_write_failure_is_final_witness:
  "Reconcile (demo_env 2 (Fwrite 1 1 True) True) ''f0'' (demo_node BACKED_UP) =
     Inr (True, (demo_node BACKED_UP)\<lparr>n_disk := [''f0'' \<mapsto> [1]]\<rparr>)"
  using backed_up_write_failure_is_final [where e = "demo_env 2 (Fwrite 1 1 True) True" and key = "''f0''"
      and n = "demo_node BACKED_UP" and r = "demo_row BACKED_UP" and bs = "[1, 2, 3]" and k = 1]
    demo_load_row [of BACKED_UP]
  by (simp add: demo_env_def demo_node_def demo_world_def mysql_client_def rank_of_def
      persistent_off_def GetEnv_def read_block_def demo_row_def in_state_def)



end
