(* ===== verification/Progress.thy ===== *)
theory Progress
  imports Coordinator
begin

text \<open>
  Progress of reconciliation: the work queue of the operator, running \<open>Coordinator::Reconcile\<close>,
  runs empty and leaves every file of the node on disk.
\<close>

section \<open>Reconciliation comes to an end\<close>

text \<open>
  When table, peer and disk answer, no file of the node is obsolescent and the data of its own
  files is in memory, every call returns and takes its file one state further, so that the
  queue runs empty: \<open>Reconcile\<close> is a \<open>reconciler\<close>.
\<close>

definition reliable :: "('db, 'p) env \<Rightarrow> bool" where
  "reliable e \<longleftrightarrow> \<not> persistent_off e \<and> (\<forall>req p. fst (e_backup e req p)) \<and>
     (\<forall>f data p. \<exists>k. fst (e_write e f data p) = Fwrite (length data) k True)"

definition live_row :: "meta_row \<Rightarrow> bool" where
  "live_row r \<longleftrightarrow> in_state PENDING r \<or> in_state CACHED r \<or> in_state BACKED_UP r \<or>
     in_state PERSISTENT r \<or> in_state BROKEN r"

definition settled :: "('db, 'p) env \<Rightarrow> ('db \<Rightarrow> string \<rightharpoonup> meta_row) \<Rightarrow> ('db, 'p) node \<Rightarrow> bool" where
  "settled e tbl n \<longleftrightarrow> table_ok (tbl (n_db n)) \<and>
     (\<forall>f r. tbl (n_db n) f = Some r \<longrightarrow> live_row r \<and>
        (mr_rank r = rank_of e \<longrightarrow>
           (\<exists>bs. data_at e tbl f n = Some (Inr bs) \<and> (in_state PERSISTENT r \<longrightarrow> n_disk n f = Some bs))))"

text \<open>How often a key goes back to the queue.\<close>

definition togo :: "('db, 'p) env \<Rightarrow> ('db \<Rightarrow> string \<rightharpoonup> meta_row) \<Rightarrow> string \<Rightarrow> ('db, 'p) node \<Rightarrow> nat" where
  "togo e tbl f n =
     (case tbl (n_db n) f of
        None \<Rightarrow> 0
      | Some r \<Rightarrow> if mr_rank r \<noteq> rank_of e then 0
                  else if in_state BACKED_UP r then 1
                  else if in_state CACHED r then (if 1 < w_world_size (e_world e) then 2 else 1)
                  else 0)"

definition on_disk :: "('db, 'p) env \<Rightarrow> ('db \<Rightarrow> string \<rightharpoonup> meta_row) \<Rightarrow> string \<Rightarrow> ('db, 'p) node \<Rightarrow> bool" where
  "on_disk e tbl f n \<longleftrightarrow>
     (\<forall>r. tbl (n_db n) f = Some r \<longrightarrow> mr_rank r = rank_of e \<longrightarrow>
        in_state PENDING r \<or> in_state BROKEN r \<or>
        in_state PERSISTENT r \<and> (\<exists>bs. data_at e tbl f n = Some (Inr bs) \<and> n_disk n f = Some bs))"

text \<open>The two outcomes of a call: nothing left to do, or one state further.\<close>

definition advances ::
  "('db, 'p) env \<Rightarrow> ('db \<Rightarrow> string \<rightharpoonup> meta_row) \<Rightarrow> string \<Rightarrow> ('db, 'p) node \<Rightarrow> ('db, 'p) node \<Rightarrow> bool" where
  "advances e tbl f n n' \<longleftrightarrow>
     (\<exists>r bs. tbl (n_db n) f = Some r \<and> mr_rank r = rank_of e \<and> data_at e tbl f n = Some (Inr bs) \<and>
        (1 < w_world_size (e_world e) \<and> in_state CACHED r \<and>
           tbl (n_db n') = (tbl (n_db n))(f \<mapsto> set_state BACKED_UP r) \<and> n_disk n' = n_disk n \<or>
         persistable (1 < w_world_size (e_world e)) r \<and>
           tbl (n_db n') = (tbl (n_db n))(f \<mapsto> set_state PERSISTENT r) \<and>
           n_disk n' = (n_disk n)(f \<mapsto> bs)))"

definition same_memory :: "('db, 'p) node \<Rightarrow> ('db, 'p) node \<Rightarrow> bool" where
  "same_memory n n' \<longleftrightarrow> n_store n' = n_store n \<and> n_mem n' = n_mem n"

definition outcome ::
  "('db, 'p) env \<Rightarrow> ('db \<Rightarrow> string \<rightharpoonup> meta_row) \<Rightarrow> string \<Rightarrow> ('db, 'p) node \<Rightarrow> bool \<Rightarrow> ('db, 'p) node \<Rightarrow> bool" where
  "outcome e tbl f n don n' \<longleftrightarrow> same_memory n n' \<and>
     (if don then togo e tbl f n = 0 \<and> tbl (n_db n') = tbl (n_db n) \<and> n_disk n' = n_disk n
      else advances e tbl f n n')"

lemma settledD:
  assumes "settled e tbl n" and "tbl (n_db n) f = Some r"
  shows "live_row r" and "mr_rank r = rank_of e \<Longrightarrow>
    \<exists>bs. data_at e tbl f n = Some (Inr bs) \<and> (in_state PERSISTENT r \<longrightarrow> n_disk n f = Some bs)"
  using assms by (simp_all add: settled_def)

lemma persistence_reliable:
  assumes "reliable e" and "mr_rank r = rank_of e"
    and "read_block (n_mem n) (address entry) (mr_size r) = Inr bs"
  shows "\<exists>p. persistence e (with_row md f r) entry n =
     Inr (True, n\<lparr>n_disk := (n_disk n)(f \<mapsto> bs), n_out := p\<rparr>)"
proof -
  obtain k where "fst (e_write e f bs (n_out n)) = Fwrite (length bs) k True"
    using assms(1) unfolding reliable_def by blast
  then show ?thesis
    using assms by (cases "e_write e f bs (n_out n)") (auto simp: persistence_def WriteToDisk_def)
qed

lemma backUp_reliable:
  assumes "reliable e"
  obtains p where "backUp e md entry om n = (True, n\<lparr>n_out := p\<rparr>)"
proof -
  let ?req = "\<lparr>bk_metadata = md, bk_data_entry = entry, bk_only_metadata = om\<rparr>"
  have "fst (e_backup e ?req (n_out n))" using assms by (simp add: reliable_def)
  then show thesis
    by (cases "e_backup e ?req (n_out n)") (auto simp: backUp_def intro: that)
qed

lemma in_state_iff: "state_ok st \<Longrightarrow> in_state st r \<longleftrightarrow> state_of (mr_state r) = st"
  by (auto simp: in_state_def state_ok_def)

context reliable_table
begin

lemma finish_reliable:
  assumes "clean f" and "tbl (n_db n) f = Some r" and "int_range (state_code st)" and "\<not> in_state st r"
  shows "\<exists>db. updateState mc (with_row md f r) st n = (True, n\<lparr>n_db := db\<rparr>) \<and>
     tbl db = (tbl (n_db n))(f \<mapsto> set_state st r)"
  using update_row [OF assms(1,3), of "n_db n"] assms(2,4)
  by (auto simp: updateState_def status_defs)

lemma loaded_reliable:
  assumes e: "reliable e" and key: "clean key" "key \<noteq> []" and s: "settled e tbl n"
    and r: "tbl (n_db n) key = Some r"
  shows "\<exists>don n'. reconcile_loaded e mc (with_row md key r) n = Inr (don, n') \<and> outcome e tbl key n don n'"
proof (cases "mr_rank r = rank_of e")
  case False
  have "live_row r" using s r by (simp add: settled_def)
  then have "state_of (mr_state r) \<noteq> OBSOLESCENT"
    by (auto simp: live_row_def in_state_def state_of_def)
  then show ?thesis using False r
    by (auto simp: reconcile_loaded_def togo_def same_memory_def outcome_def)
next
  case own: True
  obtain bs where bs: "data_at e tbl key n = Some (Inr bs)"
    using s r own by (auto simp: settled_def)
  then obtain entry where entry: "mr_size r \<noteq> 0" "own_dict (n_store n) key = Some entry"
      "read_block (n_mem n) (address entry) (mr_size r) = Inr bs"
    using r by (auto simp: data_at_def split: if_splits)
  have run: "reconcile_loaded e mc (with_row md key r) n =
      reconcile_complete e mc (with_row md key r) entry n"
    using own entry key(2) by (simp add: reconcile_loaded_def checkDataCompletion_def Storage_Load_def)
  have pers: "\<exists>p. persistence e (with_row md key r) entry n =
     Inr (True, n\<lparr>n_disk := (n_disk n)(key \<mapsto> bs), n_out := p\<rparr>)"
    by (rule persistence_reliable [OF e own entry(3)])
  have int: "int_range (state_code BACKED_UP)" "int_range (state_code PERSISTENT)"
    by (simp_all add: int_range_def)
  have off: "\<not> persistent_off e" using e by (simp add: reliable_def)
  have live: "live_row r" using s r by (auto simp: settled_def)
  then consider "in_state PENDING r \<or> in_state PERSISTENT r \<or> in_state BROKEN r"
    | (cached) "in_state CACHED r" | (backed) "in_state BACKED_UP r"
    by (auto simp: live_row_def)
  then show ?thesis
  proof cases
    case 1
    then have "state_of (mr_state r) = PENDING \<or> state_of (mr_state r) = PERSISTENT \<or>
        state_of (mr_state r) = BROKEN" and "\<not> in_state BACKED_UP r" "\<not> in_state CACHED r"
      by (auto simp: in_state_iff)
    then have "reconcile_loaded e mc (with_row md key r) n = Inr (True, n)" "togo e tbl key n = 0"
      using run r by (auto simp: reconcile_complete_def togo_def)
    then show ?thesis by (auto simp: outcome_def same_memory_def)
  next
    case backed
    obtain p where p: "persistence e (with_row md key r) entry n =
       Inr (True, n\<lparr>n_disk := (n_disk n)(key \<mapsto> bs), n_out := p\<rparr>)" using pers by blast
    have n: "\<not> in_state PERSISTENT r" using backed by (simp add: in_state_def)
    obtain db where db: "updateState mc (with_row md key r) PERSISTENT
        (n\<lparr>n_disk := (n_disk n)(key \<mapsto> bs), n_out := p\<rparr>) =
        (True, n\<lparr>n_disk := (n_disk n)(key \<mapsto> bs), n_out := p, n_db := db\<rparr>)"
        "tbl db = (tbl (n_db n))(key \<mapsto> set_state PERSISTENT r)"
      using finish_reliable [OF key(1) _ int(2) n,
          of "n\<lparr>n_disk := (n_disk n)(key \<mapsto> bs), n_out := p\<rparr>" md] r by auto
    have "reconcile_loaded e mc (with_row md key r) n =
        Inr (False, n\<lparr>n_disk := (n_disk n)(key \<mapsto> bs), n_out := p, n_db := db\<rparr>)"
      using run p db(1) off backed
      by (simp add: reconcile_complete_def reconcile_backed_up_def in_state_iff)
    then show ?thesis using r own bs backed db(2)
      by (auto simp: outcome_def same_memory_def advances_def persistable_def)
  next
    case cached
    have n: "\<not> in_state PERSISTENT r" "\<not> in_state BACKED_UP r"
      using cached by (simp_all add: in_state_def)
    show ?thesis
    proof (cases "w_world_size (e_world e) < 2")
      case True
      obtain p where p: "persistence e (with_row md key r) entry n =
         Inr (True, n\<lparr>n_disk := (n_disk n)(key \<mapsto> bs), n_out := p\<rparr>)" using pers by blast
      obtain db where db: "updateState mc (with_row md key r) PERSISTENT
          (n\<lparr>n_disk := (n_disk n)(key \<mapsto> bs), n_out := p\<rparr>) =
          (True, n\<lparr>n_disk := (n_disk n)(key \<mapsto> bs), n_out := p, n_db := db\<rparr>)"
          "tbl db = (tbl (n_db n))(key \<mapsto> set_state PERSISTENT r)"
        using finish_reliable [OF key(1) _ int(2) n(1),
            of "n\<lparr>n_disk := (n_disk n)(key \<mapsto> bs), n_out := p\<rparr>" md] r by auto
      have "reconcile_loaded e mc (with_row md key r) n =
          Inr (False, n\<lparr>n_disk := (n_disk n)(key \<mapsto> bs), n_out := p, n_db := db\<rparr>)"
        using run p db(1) off cached True
        by (simp add: reconcile_complete_def reconcile_cached_def in_state_iff)
      then show ?thesis using r own bs cached db(2) True
        by (auto simp: outcome_def same_memory_def advances_def persistable_def)
    next
      case False
      obtain p where p: "backUp e (with_row md key r) entry False n = (True, n\<lparr>n_out := p\<rparr>)"
        by (rule backUp_reliable [OF e])
      obtain db where db: "updateState mc (with_row md key r) BACKED_UP (n\<lparr>n_out := p\<rparr>) =
          (True, n\<lparr>n_out := p, n_db := db\<rparr>)"
          "tbl db = (tbl (n_db n))(key \<mapsto> set_state BACKED_UP r)"
        using finish_reliable [OF key(1) _ int(1) n(2), of "n\<lparr>n_out := p\<rparr>" md] r by auto
      have "reconcile_loaded e mc (with_row md key r) n = Inr (False, n\<lparr>n_out := p, n_db := db\<rparr>)"
        using run p db(1) cached False
        by (simp add: reconcile_complete_def reconcile_cached_def in_state_iff)
      then show ?thesis using r own bs cached db(2) False
        by (auto simp: outcome_def same_memory_def advances_def)
    qed
  qed
qed

end

lemma data_at_same:
  assumes "same_memory n n'" and "map_option mr_size (tbl (n_db n') f) = map_option mr_size (tbl (n_db n) f)"
  shows "data_at e tbl f n' = data_at e tbl f n"
  using assms by (auto simp: data_at_def same_memory_def split: option.splits)

lemma advances_size:
  "advances e tbl f n n' \<Longrightarrow> map_option mr_size (tbl (n_db n') g) = map_option mr_size (tbl (n_db n) g)"
  by (auto simp: advances_def)

lemma advances_settled:
  assumes a: "advances e tbl f n n'" and m: "same_memory n n'" and s: "settled e tbl n"
  shows "settled e tbl n'"
proof -
  have data: "data_at e tbl g n' = data_at e tbl g n" for g
    using data_at_same [OF m advances_size [OF a]] .
  have named: "int_range (state_code BACKED_UP)" "int_range (state_code PERSISTENT)"
    by (simp_all add: int_range_def)
  have "table_ok (tbl (n_db n'))"
    using a s row_ok_set_state named unfolding advances_def settled_def table_ok_def
    by (auto split: if_splits)
  moreover have "live_row r \<and> (mr_rank r = rank_of e \<longrightarrow>
      (\<exists>bs. data_at e tbl g n' = Some (Inr bs) \<and> (in_state PERSISTENT r \<longrightarrow> n_disk n' g = Some bs)))"
    if r: "tbl (n_db n') g = Some r" for g r
  proof (cases "g = f")
    case True
    then show ?thesis using a r unfolding data
      by (auto simp: advances_def live_row_def in_state_def)
  next
    case False
    then have "tbl (n_db n) g = Some r" "n_disk n' g = n_disk n g"
      using a r by (auto simp: advances_def)
    then show ?thesis using s unfolding data settled_def by metis
  qed
  ultimately show ?thesis by (simp add: settled_def)
qed

lemma stays_settled:
  assumes "tbl (n_db n') = tbl (n_db n)" and "n_disk n' = n_disk n" and "same_memory n n'"
    and "settled e tbl n"
  shows "settled e tbl n'"
proof -
  have "data_at e tbl g n' = data_at e tbl g n" for g
    using assms by (intro data_at_same) auto
  then show ?thesis using assms by (simp add: settled_def)
qed

lemma togo_same: "tbl (n_db n') = tbl (n_db n) \<Longrightarrow> togo e tbl g n' = togo e tbl g n"
  by (simp add: togo_def)

lemma advances_togo:
  assumes "advances e tbl f n n'"
  shows "togo e tbl f n' < togo e tbl f n" and "togo e tbl g n' \<le> togo e tbl g n"
  using assms by (auto simp: advances_def togo_def persistable_def in_state_def)

lemma advances_on_disk:
  assumes a: "advances e tbl f n n'" and m: "same_memory n n'" and g: "on_disk e tbl g n"
  shows "on_disk e tbl g n'"
proof -
  have "data_at e tbl g n' = data_at e tbl g n"
    using data_at_same [OF m advances_size [OF a]] .
  then show ?thesis
    using a g by (cases "g = f") (auto simp: advances_def on_disk_def in_state_def persistable_def)
qed

lemma outcome_settled: "outcome e tbl f n don n' \<Longrightarrow> settled e tbl n \<Longrightarrow> settled e tbl n'"
  using advances_settled stays_settled unfolding outcome_def by (metis (full_types))

lemma togo_on_disk:
  "settled e tbl n \<Longrightarrow> togo e tbl f n = 0 \<Longrightarrow> on_disk e tbl f n"
  using settledD [of e tbl n f]
  by (fastforce simp: togo_def on_disk_def live_row_def split: if_splits)

definition usable_key :: "string \<Rightarrow> bool" where
  "usable_key f \<longleftrightarrow> clean f \<and> f \<noteq> []"

context reliable_table
begin

lemma Reconcile_reliable:
  assumes e: "reliable e" "e_client e = Inr mc" and key: "usable_key key" and s: "settled e tbl n"
  shows "\<exists>don n'. Reconcile e key n = Inr (don, n') \<and> outcome e tbl key n don n'"
proof -
  let ?md = "new_Metadata (w_job_name (e_world e)) key"
  have f: "file_name ?md = key" by (simp add: new_Metadata_def)
  have t: "table_ok (tbl (n_db n))" using s by (simp add: settled_def)
  obtain db where db: "tbl db = tbl (n_db n)" "mc_Load mc ?md (n_db n) =
     Inr (case tbl (n_db n) key of None \<Rightarrow> (STATUS_NOT_FOUND, ?md, db)
          | Some r \<Rightarrow> (STATUS_SUCCESS, with_row ?md key r, db))"
  proof -
    have "clean (file_name ?md)" using key by (simp add: f usable_key_def)
    from load_row [OF this t, unfolded f] show ?thesis using that by blast
  qed
  let ?n = "n\<lparr>n_db := db\<rparr>"
  have s': "settled e tbl ?n"
    using db(1) by (intro stays_settled [OF _ _ _ s]) (simp_all add: same_memory_def)
  show ?thesis
  proof (cases "tbl (n_db n) key")
    case None
    then show ?thesis using e(2) db
      by (auto simp: Reconcile_def status_defs same_memory_def togo_def outcome_def)
  next
    case (Some r)
    have run: "Reconcile e key n = reconcile_loaded e mc (with_row ?md key r) ?n"
      using e(2) db Some by (simp add: Reconcile_def status_defs)
    have same: "outcome e tbl key ?n don n' = outcome e tbl key n don n'" for don n'
      using data_at_same [of n ?n tbl key e] db(1)
      by (simp add: outcome_def togo_def advances_def same_memory_def)
    show ?thesis
      using loaded_reliable [OF e(1) _ _ s', of key r ?md] key Some db(1) same unfolding run usable_key_def
      by simp
  qed
qed

lemma Reconcile_outcome:
  "reliable e \<Longrightarrow> e_client e = Inr mc \<Longrightarrow> usable_key key \<Longrightarrow> settled e tbl n \<Longrightarrow>
     Reconcile e key n = Inr (don, n') \<Longrightarrow> outcome e tbl key n don n'"
  using Reconcile_reliable by fastforce

lemma Reconcile_reconciler:
  assumes e: "reliable e" "e_client e = Inr mc"
  shows "reconciler (Reconcile e) (settled e tbl) (togo e tbl) (on_disk e tbl) usable_key"
proof
  fix n key assume k: "usable_key key" "settled e tbl n"
  then show "\<exists>don n'. Reconcile e key n = Inr (don, n') \<and> settled e tbl n'"
    using Reconcile_reliable [OF e k] outcome_settled by blast
next
  fix n key n' assume "usable_key key" "settled e tbl n" "Reconcile e key n = Inr (False, n')"
  from Reconcile_outcome [OF e this] show "togo e tbl key n' < togo e tbl key n"
    using advances_togo(1) by (auto simp: outcome_def)
next
  fix n key don n' g assume "usable_key key" "settled e tbl n" "Reconcile e key n = Inr (don, n')"
  from Reconcile_outcome [OF e this] show "togo e tbl g n' \<le> togo e tbl g n"
    using advances_togo(2) [of e tbl key n n' g] togo_same [of tbl n' n e g]
    by (cases don) (simp_all add: outcome_def)
next
  fix n key n' assume k: "usable_key key" "settled e tbl n" "Reconcile e key n = Inr (True, n')"
  note out = Reconcile_outcome [OF e k]
  have "settled e tbl n'" using outcome_settled [OF out k(2)] .
  moreover have "togo e tbl key n' = 0" using out by (simp add: outcome_def togo_def)
  ultimately show "on_disk e tbl key n'" by (rule togo_on_disk)
next
  fix n key don n' g
  assume k: "usable_key key" "settled e tbl n" "Reconcile e key n = Inr (don, n')"
    and g: "on_disk e tbl g n"
  from Reconcile_outcome [OF e k] g show "on_disk e tbl g n'"
    using advances_on_disk [of e tbl key n n' g] data_at_same [of n n' tbl g e]
    by (cases don) (simp_all add: outcome_def on_disk_def)
qed

end

text \<open>The contract, interpreted on a two-node world over \<open>MysqlClient\<close>.\<close>

definition steady_env :: "(mem_db, unit) env" where
  "steady_env = (demo_env 2 Open_fails True)
     \<lparr>e_write := (\<lambda>_ data p. (Fwrite (length data) (length data) True, p))\<rparr>"

lemma steady_reliable: "reliable steady_env" "e_client steady_env = Inr (mysql_client mem_sql)"
  by (simp_all add: steady_env_def demo_env_def reliable_def persistent_off_def GetEnv_def)

interpretation steady: reconciler "Reconcile steady_env" "settled steady_env map_of"
  "togo steady_env map_of" "on_disk steady_env map_of" usable_key
  by (rule memrel.Reconcile_reconciler [OF steady_reliable])

section \<open>Properties\<close>


definition demo_operator :: "string operator" where
  "demo_operator = \<lparr>op_queue = push_locked ''f0'' (channel_new 4), op_limiter = rl_new\<rparr>"

lemma demo_settled: "settled steady_env map_of (demo_node CACHED)"
  by (simp add: settled_def demo_table_ok)
     (simp add: demo_node_def steady_env_def demo_env_def demo_world_def rank_of_def demo_row_def
       data_at_def read_block_def live_row_def in_state_def)


end
