(* ===== verification/Bootstrap.thy ===== *)
theory Bootstrap
  imports World
begin


text \<open>
  The two threads of \<open>Coordinator::bootstrap\<close>: fetching the node's files back from the next node
  (then from the file system), and asking the previous node for its backups.  Attempt \<open>i\<close>
  succeeds or not; the result is the list of pauses in seconds, \<open>None\<close> for a thread that never
  ends.
\<close>

definition BOOTSTRAP_MAX_RETRY_INTERVAL_SECONDS :: nat where "BOOTSTRAP_MAX_RETRY_INTERVAL_SECONDS = 10"
definition BOOTSTRAP_MIN_RETRY_INTERVAL_SECONDS :: nat where "BOOTSTRAP_MIN_RETRY_INTERVAL_SECONDS = 1"

partial_function (option) retrieve_loop :: "(nat \<Rightarrow> bool) \<Rightarrow> nat \<Rightarrow> nat \<Rightarrow> (nat list \<times> bool) option" where
  "retrieve_loop att i wait =
     (if wait \<le> BOOTSTRAP_MAX_RETRY_INTERVAL_SECONDS
      then (if att i then Some ([], True)
            else Option.bind (retrieve_loop att (Suc i) (wait * 2)) (\<lambda>(ps, ok). Some (wait # ps, ok)))
      else Some ([], False))"

partial_function (option) trigger_loop :: "(nat \<Rightarrow> bool) \<Rightarrow> nat \<Rightarrow> nat \<Rightarrow> nat list option" where
  "trigger_loop att i wait =
     (if att i then Some []
      else Option.bind (trigger_loop att (Suc i)
             (if wait \<le> BOOTSTRAP_MAX_RETRY_INTERVAL_SECONDS then wait * 2 else wait))
             (\<lambda>ps. Some (wait # ps)))"

datatype retrieved = From_next_node | From_file_system bool

definition bootstrap ::
  "(string \<rightharpoonup> string) \<Rightarrow> world \<Rightarrow> (nat \<Rightarrow> bool) \<Rightarrow> bool \<Rightarrow> (nat \<Rightarrow> bool) \<Rightarrow>
   (retrieved \<times> nat list \<times> nat list) option option" where
  "bootstrap vars w retrive_checkpoint from_file_system trigger_checkpoint =
     (if GetEnv vars ''CKPT_ENGINE_SKIP_BOOTSTRAP'' (Some ''off'') = ''on'' then Some None
      else if w_world_size w < 2 then Some None
      else Option.bind (retrieve_loop retrive_checkpoint 0 BOOTSTRAP_MIN_RETRY_INTERVAL_SECONDS) (\<lambda>(ps, ok).
           Option.bind (trigger_loop trigger_checkpoint 0 BOOTSTRAP_MIN_RETRY_INTERVAL_SECONDS) (\<lambda>qs.
             Some (Some (if ok then From_next_node else From_file_system from_file_system, ps, qs)))))"

lemma retrieve_loop_run:
  "retrieve_loop att 0 BOOTSTRAP_MIN_RETRY_INTERVAL_SECONDS =
     Some (if att 0 then ([], True) else if att 1 then ([1], True) else if att 2 then ([1, 2], True)
           else if att 3 then ([1, 2, 4], True) else ([1, 2, 4, 8], False))"
  by (simp add: retrieve_loop.simps BOOTSTRAP_MAX_RETRY_INTERVAL_SECONDS_def
      BOOTSTRAP_MIN_RETRY_INTERVAL_SECONDS_def numeral_eq_Suc)

lemma retrieve_loop_cases:
  "\<exists>ps ok. retrieve_loop att 0 BOOTSTRAP_MIN_RETRY_INTERVAL_SECONDS = Some (ps, ok) \<and>
     (ok \<longleftrightarrow> (\<exists>i < 4. att i)) \<and> (\<not> ok \<longrightarrow> ps = [1, 2, 4, 8]) \<and> length ps \<le> 4"
proof -
  have "(\<exists>i < 4. att i) \<longleftrightarrow> att 0 \<or> att 1 \<or> att 2 \<or> att 3"
    by (auto simp: less_Suc_eq numeral_eq_Suc)
  then show ?thesis by (simp add: retrieve_loop_run)
qed

lemma trigger_loop_stops:
  "(\<forall>j < k. \<not> att (i + j)) \<Longrightarrow> att (i + k) \<Longrightarrow> wait \<in> {1, 2, 4, 8, 16} \<Longrightarrow>
     \<exists>ps. trigger_loop att i wait = Some ps \<and> length ps = k \<and> set ps \<subseteq> {1, 2, 4, 8, 16}"
proof (induction k arbitrary: i wait)
  case 0
  then show ?case by (simp add: trigger_loop.simps)
next
  case (Suc k)
  let ?wait' = "if wait \<le> BOOTSTRAP_MAX_RETRY_INTERVAL_SECONDS then wait * 2 else wait"
  have "\<not> att i" using Suc.prems(1) by (metis add_0_right zero_less_Suc)
  moreover have "\<forall>j < k. \<not> att (Suc i + j)" using Suc.prems(1) by auto
  moreover have "?wait' \<in> {1, 2, 4, 8, 16}"
    using Suc.prems(3) by (auto simp: BOOTSTRAP_MAX_RETRY_INTERVAL_SECONDS_def)
  ultimately obtain ps where "trigger_loop att (Suc i) ?wait' = Some ps" "length ps = k"
      "set ps \<subseteq> {1, 2, 4, 8, 16}"
    using Suc.IH [of "Suc i" ?wait'] Suc.prems(2) by auto
  then show ?case using \<open>\<not> att i\<close> Suc.prems(3) by (subst trigger_loop.simps) auto
qed

lemma trigger_loop_needs_success:
  "trigger_loop att i wait = Some ps \<Longrightarrow> \<exists>j. att j"
  by (rule trigger_loop.raw_induct [where P = "\<lambda>att i wait ps. \<exists>j. att j"])
     (auto simp: bind_eq_Some_conv split: if_splits)

text \<open>Bootstrap fetches from the next node at most four times, pausing 1, 2, 4 and 8 seconds,
  before it turns to the file system, and it returns if and only if it is skipped or the previous
  node answers some request for a backup; it then asked that node once more than it paused, and
  no pause was longer than 16 seconds.\<close>

theorem bootstrap_returns:
  "(bootstrap vars w retrive fs trigger \<noteq> None \<longleftrightarrow>
      GetEnv vars ''CKPT_ENGINE_SKIP_BOOTSTRAP'' (Some ''off'') = ''on'' \<or> w_world_size w < 2 \<or> (\<exists>i. trigger i)) \<and>
   (case bootstrap vars w retrive fs trigger of
      Some (Some (src, ps, qs)) \<Rightarrow>
        (src = From_next_node \<longleftrightarrow> (\<exists>i < 4. retrive i)) \<and> (src \<noteq> From_next_node \<longrightarrow> ps = [1, 2, 4, 8]) \<and>
        length ps \<le> 4 \<and> trigger (length qs) \<and> (\<forall>i < length qs. \<not> trigger i) \<and> set qs \<subseteq> {1, 2, 4, 8, 16}
    | _ \<Rightarrow> True)"
proof (cases "GetEnv vars ''CKPT_ENGINE_SKIP_BOOTSTRAP'' (Some ''off'') = ''on'' \<or> w_world_size w < 2")
  case True
  then show ?thesis by (auto simp: bootstrap_def)
next
  case False
  let ?att = "trigger_loop trigger 0 BOOTSTRAP_MIN_RETRY_INTERVAL_SECONDS"
  obtain ps ok where r: "retrieve_loop retrive 0 BOOTSTRAP_MIN_RETRY_INTERVAL_SECONDS = Some (ps, ok)"
      "ok \<longleftrightarrow> (\<exists>i < 4. retrive i)" "\<not> ok \<longrightarrow> ps = [1, 2, 4, 8]" "length ps \<le> 4"
    using retrieve_loop_cases by blast
  have b: "bootstrap vars w retrive fs trigger = Option.bind ?att
      (\<lambda>qs. Some (Some (if ok then From_next_node else From_file_system fs, ps, qs)))"
    using False r(1) by (simp add: bootstrap_def)
  show ?thesis
  proof (cases "\<exists>i. trigger i")
    case True
    define k where "k = (LEAST i. trigger i)"
    have k: "trigger k" "\<forall>i < k. \<not> trigger i"
      using True LeastI_ex not_less_Least unfolding k_def by blast+
    obtain qs where "?att = Some qs" "length qs = k" "set qs \<subseteq> {1, 2, 4, 8, 16}"
      using trigger_loop_stops [of k trigger 0] k by (auto simp: BOOTSTRAP_MIN_RETRY_INTERVAL_SECONDS_def)
    then show ?thesis using b r k False True by auto
  next
    case no: False
    then have "?att = None" using trigger_loop_needs_success by fastforce
    then show ?thesis using b False no by simp
  qed
qed

lemma bootstrap_returns_witness:
  "bootstrap Map.empty \<lparr>w_hostname = ''a'', w_job_name = ''job'', w_hosts = [''a'', ''b''], w_world_size = 2,
     w_node_rank = 0\<rparr> (\<lambda>_. False) True (\<lambda>i. i = 1) \<noteq> None"
  using bootstrap_returns [of Map.empty "\<lparr>w_hostname = ''a'', w_job_name = ''job'', w_hosts = [''a'', ''b''],
     w_world_size = 2, w_node_rank = 0\<rparr>" "\<lambda>_. False" True "\<lambda>i. i = 1"]
  by blast

end
