(* ===== verification/Memcpy.thy ===== *)
theory Memcpy
  imports Prelude "HOL-Library.Multiset"
begin

text \<open>
  The copy kernel of the Python package, \<open>transom_memcpy\<close> of
  \<open>src/transomSnapshot/transom_memcpy/transom_memcpy.cpp\<close>: the serialised metadata and the tensors
  of a checkpoint are copied into a shared memory file by concurrent threads.  The work is a
  list of copies (destination offset, bytes); a schedule is any order of them.  Sizes are
  natural numbers: they are sizes of mapped memory, so their sums do not wrap.
\<close>

section \<open>Tensors and copies\<close>

definition BUFFER_SIZE :: nat where "BUFFER_SIZE = 1024 * 512"
definition BUFFER_NUMS :: nat where "BUFFER_NUMS = 2"

record tensor =
  t_data :: "byte list"
  t_size :: size_t
  t_device :: bool

type_synonym copy = "nat \<times> byte list"

text \<open>\<open>n\<close> bytes of \<open>data\<close> from position \<open>k\<close>, for the same place after \<open>off\<close>.\<close>

definition piece :: "nat \<Rightarrow> byte list \<Rightarrow> nat \<Rightarrow> nat \<Rightarrow> copy" where
  "piece off data k n = (off + k, take n (drop k data))"

definition host_copies :: "nat \<Rightarrow> byte list \<Rightarrow> copy list" where
  "host_copies off data =
     (let num_threads = 4; per = length data div num_threads; rest = length data mod num_threads in
      map (\<lambda>j. piece off data (per * j) per) [0..<num_threads] @
      [piece off data (per * num_threads) rest])"

text \<open>
  The first thread copies the first half of the full blocks, the second the blocks after them;
  the remainder is copied by the calling thread.
\<close>

definition device_copies :: "nat \<Rightarrow> byte list \<Rightarrow> copy list" where
  "device_copies off data =
     (let shared_nums = length data div BUFFER_SIZE; shared_remainder = length data mod BUFFER_SIZE;
          per = shared_nums div BUFFER_NUMS in
      map (\<lambda>j. piece off data (BUFFER_SIZE * j) BUFFER_SIZE) [0..<per] @
      map (\<lambda>j. piece off data (per * BUFFER_SIZE + BUFFER_SIZE * j) BUFFER_SIZE) [0..<per] @
      [piece off data (shared_nums * BUFFER_SIZE) shared_remainder])"

fun tensor_copies :: "bool \<Rightarrow> nat \<Rightarrow> tensor list \<Rightarrow> copy list" where
  "tensor_copies cuda off [] = []"
| "tensor_copies cuda off (t # ts) =
     (off, size_bytes (t_size t)) #
     (if cuda then device_copies (off + 8) (t_data t) else host_copies (off + 8) (t_data t)) @
     tensor_copies cuda (off + 8 + length (t_data t)) ts"

fun total_offset :: "nat \<Rightarrow> tensor list \<Rightarrow> nat" where
  "total_offset off [] = off"
| "total_offset off (t # ts) = total_offset (off + 8 + length (t_data t)) ts"

definition put_bytes :: "copy \<Rightarrow> byte list \<Rightarrow> byte list result" where
  "put_bytes c shm =
     (case c of (off, bs) \<Rightarrow>
        if off + length bs \<le> length shm then Inr (splice shm off bs)
        else Inl (UB ''write outside the mapping''))"

fun run_copies :: "copy list \<Rightarrow> byte list \<Rightarrow> byte list result" where
  "run_copies [] shm = Inr shm"
| "run_copies (c # cs) shm = and_then (put_bytes c shm) (run_copies cs)"

text \<open>
  The whole call: the descriptor, the size of the file behind it, whether it can be mapped, the
  arguments, the order \<open>sched\<close> the threads run in, the content of the file.  The last tensor
  decides for all of them whether they are on the device.
\<close>

definition transom_memcpy ::
  "int \<Rightarrow> nat \<Rightarrow> bool \<Rightarrow> byte list \<Rightarrow> tensor list \<Rightarrow> nat \<Rightarrow> (copy list \<Rightarrow> copy list) \<Rightarrow> byte list \<Rightarrow>
     (bool \<times> byte list) result" where
  "transom_memcpy fd file_size map_ok metadata tensors shm_size sched shm =
     (if fd < 0 then Inr (False, shm)
      else if file_size \<noteq> shm_size then Inr (False, shm)
      else if \<not> map_ok then Inr (False, shm)
      else
        let use_cuda = (tensors \<noteq> [] \<and> t_device (last tensors)) in
        if \<not> list_all (\<lambda>t. t_device t = use_cuda) tensors then Inl (UB ''tensor on the other device'')
        else
          let copies = (0, metadata) # tensor_copies use_cuda (length metadata) tensors;
              offset = total_offset 0 tensors in
          and_then (run_copies (sched copies) shm)
            (\<lambda>shm. Inr (offset + length metadata = shm_size, shm)))"

text \<open>What the file is meant to hold.\<close>

definition tensor_layout :: "tensor list \<Rightarrow> byte list" where
  "tensor_layout ts = concat (map (\<lambda>t. size_bytes (t_size t) @ t_data t) ts)"

section \<open>Copies out of a common target\<close>

definition of_target :: "byte list \<Rightarrow> copy \<Rightarrow> bool" where
  "of_target T c \<longleftrightarrow> fst c + length (snd c) \<le> length T \<and> take (length (snd c)) (drop (fst c) T) = snd c"

definition covers :: "nat \<Rightarrow> copy \<Rightarrow> bool" where
  "covers i c \<longleftrightarrow> fst c \<le> i \<and> i < fst c + length (snd c)"

lemma put_of_target:
  assumes "of_target T c" and "length shm = length T"
  shows "\<exists>shm'. put_bytes c shm = Inr shm' \<and> length shm' = length T \<and>
     (\<forall>i < length T. shm' ! i = (if covers i c then T ! i else shm ! i))"
proof -
  obtain off bs where c: "c = (off, bs)" by fastforce
  have b: "off + length bs \<le> length T" "take (length bs) (drop off T) = bs"
    using assms(1) c by (simp_all add: of_target_def)
  have "splice shm off bs ! i = (if covers i c then T ! i else shm ! i)" if "i < length T" for i
  proof (cases "covers i c")
    case True
    then have i: "off \<le> i" "i - off < length bs" using c by (auto simp: covers_def)
    have "bs ! (i - off) = take (length bs) (drop off T) ! (i - off)" using b(2) by simp
    also have "\<dots> = T ! i" using i b(1) by simp
    finally show ?thesis using True i b(1) assms(2) by (simp add: splice_def nth_append)
  next
    case False
    then show ?thesis using b c assms(2) that by (auto simp: splice_def covers_def nth_append not_le not_less)
  qed
  then show ?thesis using b c assms(2) by (simp add: put_bytes_def length_splice)
qed

lemma run_of_target:
  assumes "list_all (of_target T) cs" and "length shm = length T"
  shows "\<exists>shm'. run_copies cs shm = Inr shm' \<and> length shm' = length T \<and>
     (\<forall>i < length T. shm' ! i = (if \<exists>c \<in> set cs. covers i c then T ! i else shm ! i))"
  using assms
proof (induction cs arbitrary: shm)
  case (Cons c cs)
  obtain shm1 where s1: "put_bytes c shm = Inr shm1" "length shm1 = length T"
      "\<forall>i < length T. shm1 ! i = (if covers i c then T ! i else shm ! i)"
    using put_of_target [of T c shm] Cons.prems by auto
  obtain shm2 where s2: "run_copies cs shm1 = Inr shm2" "length shm2 = length T"
      "\<forall>i < length T. shm2 ! i = (if \<exists>c \<in> set cs. covers i c then T ! i else shm1 ! i)"
    using Cons.IH [OF _ s1(2)] Cons.prems by auto
  show ?case using s1 s2 by (intro exI [of _ shm2]) auto
qed simp

section \<open>What the threads of a tensor cover\<close>

lemma length_piece: "k + n \<le> length data \<Longrightarrow> length (snd (piece off data k n)) = n"
  by (simp add: piece_def)

lemma covers_piece:
  "k + n \<le> length data \<Longrightarrow>
     covers i (piece off data k n) \<longleftrightarrow> off \<le> i \<and> k \<le> i - off \<and> i - off < k + n"
  by (auto simp: covers_def piece_def)

lemma piece_of_target:
  assumes "drop off T = data @ rest" and "off \<le> length T" and "k + n \<le> length data"
  shows "of_target T (piece off data k n)"
proof -
  have "length T = off + length data + length rest"
    using arg_cong [OF assms(1), of length] assms(2) by simp
  moreover have "drop (off + k) T = drop k data @ rest"
    using assms(1,3) by (simp add: add.commute [of off k] flip: drop_drop)
  ultimately show ?thesis using assms(3) by (simp add: of_target_def piece_def)
qed

lemma scaled_interval:
  fixes b :: nat
  shows "(\<exists>j < k. b * j \<le> x \<and> x < b * j + b) \<longleftrightarrow> x < b * k"
proof
  assume "\<exists>j < k. b * j \<le> x \<and> x < b * j + b"
  then obtain j where j: "j < k" "x < b * j + b" by blast
  have "b * Suc j \<le> b * k" using j(1) by (intro mult_le_mono2) simp
  then show "x < b * k" using j(2) by simp
next
  assume x: "x < b * k"
  then have b: "0 < b" by (cases b) simp_all
  have "x div b < k" using x b by (simp add: div_less_iff_less_mult mult.commute)
  moreover have "b * (x div b) \<le> x" "x < b * (x div b) + b"
    using mult_div_mod_eq [of b x] mod_less_divisor [OF b, of x] by linarith+
  ultimately show "\<exists>j < k. b * j \<le> x \<and> x < b * j + b" by blast
qed

lemma ex_cong_less: "(\<And>j. j < (k :: nat) \<Longrightarrow> P j \<longleftrightarrow> Q j) \<Longrightarrow> (\<exists>j < k. P j) \<longleftrightarrow> (\<exists>j < k. Q j)"
  by blast

lemma ex_less_conj: "(\<exists>j < (k :: nat). A \<and> B \<and> P j) \<longleftrightarrow> A \<and> B \<and> (\<exists>j < k. P j)"
  by blast

lemma covers_pieces:
  assumes fit: "\<And>j. j < k \<Longrightarrow> s + b * j + b \<le> length data"
  shows "(\<exists>j < k. covers i (piece off data (s + b * j) b)) \<longleftrightarrow>
     off \<le> i \<and> s \<le> i - off \<and> i - off < s + b * k"
proof -
  have one: "covers i (piece off data (s + b * j) b) \<longleftrightarrow>
      off \<le> i \<and> s \<le> i - off \<and> (b * j \<le> i - off - s \<and> i - off - s < b * j + b)" if "j < k" for j
    using fit [OF that] by (subst covers_piece) auto
  have "(\<exists>j < k. covers i (piece off data (s + b * j) b)) \<longleftrightarrow>
      (\<exists>j < k. off \<le> i \<and> s \<le> i - off \<and> (b * j \<le> i - off - s \<and> i - off - s < b * j + b))"
    using one by (rule ex_cong_less)
  also have "\<dots> \<longleftrightarrow> off \<le> i \<and> s \<le> i - off \<and> (\<exists>j < k. b * j \<le> i - off - s \<and> i - off - s < b * j + b)"
    by (rule ex_less_conj)
  also have "\<dots> \<longleftrightarrow> off \<le> i \<and> s \<le> i - off \<and> i - off < s + b * k"
    unfolding scaled_interval by auto
  finally show ?thesis .
qed

lemma host_copies_of_target:
  assumes "drop off T = data @ rest" and "off \<le> length T"
  shows "list_all (of_target T) (host_copies off data)"
proof -
  let ?per = "length data div 4"
  have r: "?per * 4 + length data mod 4 \<le> length data" by simp
  have "?per * j + ?per \<le> length data" if "j < 4" for j
  proof -
    have "?per * Suc j \<le> ?per * 4" using that by (intro mult_le_mono2) simp
    also have "\<dots> \<le> length data" by (rule div_times_less_eq_dividend)
    finally show ?thesis by simp
  qed
  then show ?thesis
    using r by (auto simp: host_copies_def Let_def list_all_iff intro!: piece_of_target [OF assms])
qed

lemma host_copies_cover:
  "(\<exists>c \<in> set (host_copies off data). covers i c) \<longleftrightarrow> off \<le> i \<and> i < off + length data"
proof -
  let ?per = "length data div 4" and ?x = "i - off"
  have bound: "?per * j + ?per \<le> length data" if "j < 4" for j
  proof -
    have "?per * Suc j \<le> ?per * 4" using that by (intro mult_le_mono2) simp
    also have "\<dots> \<le> length data" by (rule div_times_less_eq_dividend)
    finally show ?thesis by simp
  qed
  have all: "length data = ?per * 4 + length data mod 4" by simp
  have "(\<exists>c \<in> set (host_copies off data). covers i c) \<longleftrightarrow>
      (\<exists>j < 4. covers i (piece off data (0 + ?per * j) ?per)) \<or>
      covers i (piece off data (?per * 4) (length data mod 4))"
    by (auto simp: host_copies_def Let_def)
  also have "\<dots> \<longleftrightarrow> off \<le> i \<and> 0 \<le> ?x \<and> ?x < 0 + ?per * 4 \<or>
      off \<le> i \<and> ?per * 4 \<le> ?x \<and> ?x < ?per * 4 + length data mod 4"
    using covers_pieces [of 4 0 ?per data i off] bound by (subst covers_piece) simp_all
  also have "\<dots> \<longleftrightarrow> off \<le> i \<and> ?x < length data" using all by linarith
  also have "\<dots> \<longleftrightarrow> off \<le> i \<and> i < off + length data" by auto
  finally show ?thesis .
qed

text \<open>The block of an odd number of full blocks that neither thread copies.\<close>

definition block_lost :: "nat \<Rightarrow> nat \<Rightarrow> bool" where
  "block_lost n x \<longleftrightarrow> odd (n div BUFFER_SIZE) \<and>
     BUFFER_SIZE * (n div BUFFER_SIZE - 1) \<le> x \<and> x < BUFFER_SIZE * (n div BUFFER_SIZE)"

lemma device_blocks_fit:
  assumes "j < m div BUFFER_SIZE div BUFFER_NUMS"
  shows "BUFFER_SIZE * j + BUFFER_SIZE \<le> m" and
    "m div BUFFER_SIZE div BUFFER_NUMS * BUFFER_SIZE + BUFFER_SIZE * j + BUFFER_SIZE \<le> m"
proof -
  let ?h = "m div BUFFER_SIZE div BUFFER_NUMS"
  have "?h + Suc j \<le> m div BUFFER_SIZE" using assms by (simp add: BUFFER_NUMS_def)
  then have "BUFFER_SIZE * (?h + Suc j) \<le> BUFFER_SIZE * (m div BUFFER_SIZE)" by (rule mult_le_mono2)
  also have "\<dots> \<le> m" by simp
  finally show "?h * BUFFER_SIZE + BUFFER_SIZE * j + BUFFER_SIZE \<le> m"
    by (simp add: algebra_simps)
  then show "BUFFER_SIZE * j + BUFFER_SIZE \<le> m" by linarith
qed

lemma device_copies_of_target:
  assumes "drop off T = data @ rest" and "off \<le> length T"
  shows "list_all (of_target T) (device_copies off data)"
  using device_blocks_fit
  by (auto simp: device_copies_def Let_def list_all_iff intro!: piece_of_target [OF assms])

lemma device_copies_cover:
  "(\<exists>c \<in> set (device_copies off data). covers i c) \<longleftrightarrow>
     off \<le> i \<and> i < off + length data \<and> \<not> block_lost (length data) (i - off)"
proof -
  let ?n = "length data" and ?x = "i - off"
  let ?k = "?n div BUFFER_SIZE" and ?h = "?n div BUFFER_SIZE div BUFFER_NUMS"
  have all: "?n = ?k * BUFFER_SIZE + ?n mod BUFFER_SIZE" by simp
  have "(\<exists>c \<in> set (device_copies off data). covers i c) \<longleftrightarrow>
      (\<exists>j < ?h. covers i (piece off data (0 + BUFFER_SIZE * j) BUFFER_SIZE)) \<or>
      (\<exists>j < ?h. covers i (piece off data (?h * BUFFER_SIZE + BUFFER_SIZE * j) BUFFER_SIZE)) \<or>
      covers i (piece off data (?k * BUFFER_SIZE) (?n mod BUFFER_SIZE))"
    by (auto simp: device_copies_def Let_def)
  also have "\<dots> \<longleftrightarrow> (off \<le> i \<and> 0 \<le> ?x \<and> ?x < 0 + BUFFER_SIZE * ?h) \<or>
      (off \<le> i \<and> ?h * BUFFER_SIZE \<le> ?x \<and> ?x < ?h * BUFFER_SIZE + BUFFER_SIZE * ?h) \<or>
      (off \<le> i \<and> ?k * BUFFER_SIZE \<le> ?x \<and> ?x < ?k * BUFFER_SIZE + ?n mod BUFFER_SIZE)"
    using covers_pieces [of ?h 0 BUFFER_SIZE data i off]
      covers_pieces [of ?h "?h * BUFFER_SIZE" BUFFER_SIZE data i off] device_blocks_fit [of _ ?n]
    by (subst covers_piece) simp_all
  also have "\<dots> \<longleftrightarrow> off \<le> i \<and> (?x < BUFFER_SIZE * (2 * ?h) \<or> ?k * BUFFER_SIZE \<le> ?x \<and> ?x < ?n)"
    using all by (auto simp: mult.commute)
  also have "\<dots> \<longleftrightarrow> off \<le> i \<and> i < off + length data \<and> \<not> block_lost (length data) ?x"
  proof (cases "odd ?k")
    case True
    then have "2 * ?h = ?k - 1" by (simp add: BUFFER_NUMS_def odd_two_times_div_two_nat)
    moreover have "BUFFER_SIZE * (?k - 1) \<le> BUFFER_SIZE * ?k" by (rule mult_le_mono2) simp
    moreover have "BUFFER_SIZE * (?k - 1) \<le> ?n"
      by (rule order_trans [of _ "BUFFER_SIZE * ?k"]) simp_all
    ultimately show ?thesis using True all by (auto simp: block_lost_def mult.commute)
  next
    case False
    then have "2 * ?h = ?k" by (simp add: BUFFER_NUMS_def)
    moreover have "?x < BUFFER_SIZE * ?k \<Longrightarrow> ?x < ?n"
      by (erule order.strict_trans2) simp
    ultimately show ?thesis using False all by (auto simp: block_lost_def mult.commute)
  qed
  finally show ?thesis .
qed

section \<open>All tensors\<close>

text \<open>The positions the device path leaves alone.\<close>

fun lost :: "nat \<Rightarrow> tensor list \<Rightarrow> nat \<Rightarrow> bool" where
  "lost off [] i = False"
| "lost off (t # ts) i =
     (off + 8 \<le> i \<and> i < off + 8 + length (t_data t) \<and> block_lost (length (t_data t)) (i - (off + 8)) \<or>
      lost (off + 8 + length (t_data t)) ts i)"

lemma lost_range: "lost off ts i \<Longrightarrow> off \<le> i"
  by (induction off ts i rule: lost.induct) auto

lemma length_tensor_layout: "off + length (tensor_layout ts) = total_offset off ts"
  by (induction off ts rule: total_offset.induct) (simp_all add: tensor_layout_def add.assoc [symmetric])

lemma tensor_layout_Cons:
  "tensor_layout (t # ts) = size_bytes (t_size t) @ t_data t @ tensor_layout ts"
  by (simp add: tensor_layout_def)

lemma tensor_copies_of_target:
  assumes "drop off T = tensor_layout ts @ rest" and "off \<le> length T"
  shows "list_all (of_target T) (tensor_copies cuda off ts)"
  using assms
proof (induction ts arbitrary: off)
  case (Cons t ts)
  let ?n = "length (t_data t)"
  have T: "drop off T = size_bytes (t_size t) @ t_data t @ tensor_layout ts @ rest"
    using Cons.prems(1) by (simp add: tensor_layout_Cons)
  have len: "length T = off + (8 + ?n + length (tensor_layout ts @ rest))"
    using arg_cong [OF T, of length] Cons.prems(2) by simp
  have d8: "drop (off + 8) T = t_data t @ tensor_layout ts @ rest"
    using T by (simp add: add.commute [of off 8] flip: drop_drop)
  have "drop (?n + (off + 8)) T = tensor_layout ts @ rest"
    using d8 by (simp flip: drop_drop)
  then have dn: "drop (off + 8 + ?n) T = tensor_layout ts @ rest" by (simp add: add.commute)
  have "of_target T (off, size_bytes (t_size t))"
    using T len by (simp add: of_target_def)
  moreover have "list_all (of_target T) (if cuda then device_copies (off + 8) (t_data t) else host_copies (off + 8) (t_data t))"
    using device_copies_of_target [OF d8] host_copies_of_target [OF d8] len by simp
  moreover have "list_all (of_target T) (tensor_copies cuda (off + 8 + ?n) ts)"
    using dn len by (intro Cons.IH) simp_all
  ultimately show ?case by simp
qed simp

lemma tensor_copies_cover:
  "(\<exists>c \<in> set (tensor_copies cuda off ts). covers i c) \<longleftrightarrow>
     off \<le> i \<and> i < total_offset off ts \<and> \<not> (cuda \<and> lost off ts i)"
proof (induction ts arbitrary: off)
  case (Cons t ts)
  let ?n = "length (t_data t)"
  have first: "covers i (off, size_bytes (t_size t)) \<longleftrightarrow> off \<le> i \<and> i < off + 8"
    by (simp add: covers_def)
  have le: "off + 8 + ?n \<le> total_offset (off + 8 + ?n) ts"
    using length_tensor_layout [of "off + 8 + ?n" ts] by linarith
  have "(\<exists>c \<in> set (tensor_copies cuda off (t # ts)). covers i c) \<longleftrightarrow>
      covers i (off, size_bytes (t_size t)) \<or>
      (\<exists>c \<in> set (if cuda then device_copies (off + 8) (t_data t) else host_copies (off + 8) (t_data t)). covers i c) \<or>
      (\<exists>c \<in> set (tensor_copies cuda (off + 8 + ?n) ts). covers i c)"
    by auto
  also have "\<dots> \<longleftrightarrow> (off \<le> i \<and> i < off + 8) \<or>
      (off + 8 \<le> i \<and> i < off + 8 + ?n \<and> \<not> (cuda \<and> block_lost ?n (i - (off + 8)))) \<or>
      (off + 8 + ?n \<le> i \<and> i < total_offset (off + 8 + ?n) ts \<and> \<not> (cuda \<and> lost (off + 8 + ?n) ts i))"
    unfolding Cons.IH first by (cases cuda) (simp_all add: device_copies_cover host_copies_cover)
  also have "\<dots> \<longleftrightarrow> off \<le> i \<and> i < total_offset off (t # ts) \<and> \<not> (cuda \<and> lost off (t # ts) i)"
    using le lost_range [of "off + 8 + ?n" ts i] by auto
  finally show ?case .
qed simp

text \<open>The call, once the file is open, of the right size and mapped.\<close>

lemma total_offset_add: "total_offset (a + b) ts = a + total_offset b ts"
  by (induction b ts rule: total_offset.induct) (simp_all add: add.assoc)

lemma memcpy_result:
  assumes "0 \<le> fd" and "length shm = length (metadata @ tensor_layout ts)"
    and "list_all (\<lambda>t. t_device t = cuda) ts" and "mset (sched ((0, metadata) # tensor_copies (cuda \<and> ts \<noteq> []) (length metadata) ts)) =
      mset ((0, metadata) # tensor_copies (cuda \<and> ts \<noteq> []) (length metadata) ts)"
  shows "\<exists>shm'. transom_memcpy fd (length shm) True metadata ts (length shm) sched shm = Inr (True, shm') \<and>
     length shm' = length shm \<and>
     (\<forall>i < length shm. shm' ! i = (if cuda \<and> lost (length metadata) ts i then shm ! i
                                   else (metadata @ tensor_layout ts) ! i))"
proof -
  let ?T = "metadata @ tensor_layout ts" and ?m = "length metadata"
  let ?cuda = "cuda \<and> ts \<noteq> []" and ?cs = "(0, metadata) # tensor_copies (cuda \<and> ts \<noteq> []) (length metadata) ts"
  have use: "(ts \<noteq> [] \<and> t_device (last ts)) = ?cuda" using assms(3) by (cases ts rule: rev_cases) auto
  have same: "list_all (\<lambda>t. t_device t = ?cuda) ts" using assms(3) by (cases ts) auto
  have "set (sched ?cs) = set ?cs" using assms(4) by (rule mset_eq_setD)
  moreover have "list_all (of_target ?T) ?cs"
    using tensor_copies_of_target [of ?m ?T ts "[]" ?cuda] by (simp add: of_target_def)
  ultimately have "list_all (of_target ?T) (sched ?cs)" by (simp add: list_all_iff)
  from run_of_target [OF this assms(2)] obtain shm' where r: "run_copies (sched ?cs) shm = Inr shm'"
      "length shm' = length ?T"
      "\<forall>i < length ?T. shm' ! i = (if \<exists>c \<in> set (sched ?cs). covers i c then ?T ! i else shm ! i)"
    by blast
  have cover: "(\<exists>c \<in> set (sched ?cs). covers i c) \<longleftrightarrow> \<not> (cuda \<and> lost ?m ts i)" if "i < length ?T" for i
  proof -
    have "(\<exists>c \<in> set (sched ?cs). covers i c) \<longleftrightarrow> i < ?m \<or> ?m \<le> i \<and> \<not> (?cuda \<and> lost ?m ts i)"
      using tensor_copies_cover [of ?cuda ?m ts i] length_tensor_layout [of ?m ts] that \<open>set (sched ?cs) = set ?cs\<close>
      by (simp add: covers_def)
    then show ?thesis using lost_range [of ?m ts i] by (cases ts) auto
  qed
  have "total_offset 0 ts + ?m = length shm"
    using length_tensor_layout [of 0 ts] assms(2) by simp
  then have "transom_memcpy fd (length shm) True metadata ts (length shm) sched shm = Inr (True, shm')"
    using assms(1) r(1) same use by (simp add: transom_memcpy_def Let_def)
  then show ?thesis using r(2,3) cover assms(2) by auto
qed

section \<open>Properties\<close>

text \<open>C32: For tensors in host memory the file ends up exactly as laid out: the metadata, then for every
  tensor its size field and its bytes, in whatever order the copying threads run and whatever
  their share of a tensor is.\<close>

theorem host_tensors_copied:
  assumes "0 \<le> fd" and "length shm = length (metadata @ tensor_layout ts)"
    and "list_all (\<lambda>t. \<not> t_device t) ts" and "\<forall>cs. mset (sched cs) = mset cs"
  shows "transom_memcpy fd (length shm) True metadata ts (length shm) sched shm =
     Inr (True, metadata @ tensor_layout ts)"
proof -
  obtain shm' where "transom_memcpy fd (length shm) True metadata ts (length shm) sched shm = Inr (True, shm')"
      "length shm' = length shm" "\<forall>i < length shm. shm' ! i = (metadata @ tensor_layout ts) ! i"
    using memcpy_result [OF assms(1,2), of False sched] assms(3,4) by auto
  moreover from this have "shm' = metadata @ tensor_layout ts"
    using assms(2) by (intro nth_equalityI) simp_all
  ultimately show ?thesis by simp
qed

definition demo_tensor :: "byte list \<Rightarrow> tensor" where
  "demo_tensor bs = \<lparr>t_data = bs, t_size = of_nat (length bs), t_device = False\<rparr>"

lemma host_tensors_copied_witness:
  "transom_memcpy 3 24 True [7, 7, 7] [demo_tensor [1, 2, 3, 4, 5], demo_tensor []] 24 rev (replicate 24 0) =
     Inr (True, [7, 7, 7] @ size_bytes 5 @ [1, 2, 3, 4, 5] @ size_bytes 0)"
  using host_tensors_copied [of 3 "replicate 24 0" "[7, 7, 7]" "[demo_tensor [1, 2, 3, 4, 5], demo_tensor []]" rev]
  by (simp add: tensor_layout_def demo_tensor_def)

text \<open>C33: For tensors on the device the call also returns true, but of a tensor with an odd number of full
  blocks the last full block is never copied: two threads take half of the blocks each, rounded
  down.  Every other byte is as laid out.\<close>

theorem device_tensor_loses_block:
  assumes "0 \<le> fd" and "length shm = length (metadata @ tensor_layout ts)"
    and "list_all t_device ts" and "\<forall>cs. mset (sched cs) = mset cs" and "i < length shm"
  shows "\<exists>shm'. transom_memcpy fd (length shm) True metadata ts (length shm) sched shm = Inr (True, shm') \<and>
     shm' ! i = (if lost (length metadata) ts i then shm ! i else (metadata @ tensor_layout ts) ! i)"
  using memcpy_result [OF assms(1,2), of True sched] assms(3-5) by auto

lemma device_tensor_loses_block_witness:
  "\<exists>shm'. transom_memcpy 3 524296 True [] [\<lparr>t_data = replicate 524288 1, t_size = 9, t_device = True\<rparr>]
       524296 (\<lambda>cs. cs) (replicate 524296 0) = Inr (True, shm') \<and> shm' ! 100 = 0"
  using device_tensor_loses_block [of 3 "replicate 524296 0" "[]"
      "[\<lparr>t_data = replicate 524288 1, t_size = 9, t_device = True\<rparr>]" "\<lambda>cs. cs" 100]
  by (simp add: tensor_layout_def block_lost_def BUFFER_SIZE_def)

end
