(* ===== verification/Socket.thy ===== *)
theory Socket
  imports Api
begin

text \<open>
  Messages over a TCP connection: \<open>sock_recv\<close>, \<open>sock_send\<close>, \<open>Read\<close>, \<open>Write\<close> and \<open>Accept\<close> of
  \<open>src/communicator/rdma_communicator.cpp\<close>.  A socket is what the kernel will do with it: how
  many bytes each call moves (in whatever fragments), and how the connection ends.  The byte
  counts of the loops are \<open>size_t\<close>, so the \<open>-1\<close> of a failed call becomes 2^64 - 1.
\<close>

section \<open>Sockets\<close>

text \<open>The end of a stream: the peer has closed it (0), or a call fails (-1).\<close>

datatype ending = Eof | Fails

fun ending_code :: "ending \<Rightarrow> int" where
  "ending_code Eof = 0"
| "ending_code Fails = -1"

record in_socket =
  in_bytes :: "byte list"
  in_frags :: "nat list"
  in_end :: ending

record out_socket =
  out_bytes :: "byte list"
  out_frags :: "nat list"
  out_room :: "nat option"
  out_end :: ending

definition fragment :: "nat list \<Rightarrow> nat \<Rightarrow> nat" where
  "fragment fs n = (case fs of [] \<Rightarrow> n | f # _ \<Rightarrow> min n (max 1 f))"

text \<open>One call of \<open>recv\<close> for at most \<open>n > 0\<close> bytes.\<close>

definition recv1 :: "nat \<Rightarrow> in_socket \<Rightarrow> int \<times> byte list \<times> in_socket" where
  "recv1 n s =
     (if in_bytes s = [] then (ending_code (in_end s), [], s)
      else let bs = take (fragment (in_frags s) n) (in_bytes s) in
        (int (length bs), bs,
         s\<lparr>in_bytes := drop (length bs) (in_bytes s), in_frags := tl (in_frags s)\<rparr>))"

text \<open>One call of \<open>send\<close>; \<open>out_room\<close> is how much the connection still takes before it ends.\<close>

definition send1 :: "byte list \<Rightarrow> out_socket \<Rightarrow> int \<times> out_socket" where
  "send1 bs s =
     (if out_room s = Some 0 then (ending_code (out_end s), s)
      else let k = fragment (out_frags s)
                 (case out_room s of None \<Rightarrow> length bs | Some r \<Rightarrow> min r (length bs)) in
        (int k, s\<lparr>out_bytes := out_bytes s @ take k bs, out_frags := tl (out_frags s),
                  out_room := map_option (\<lambda>r. r - k) (out_room s)\<rparr>))"

lemma fragment_bounds: "0 < n \<Longrightarrow> 1 \<le> fragment fs n \<and> fragment fs n \<le> n"
  by (auto simp: fragment_def split: list.splits)

lemma recv1_pos: "recv1 n s = (r, bs, s') \<Longrightarrow> 0 < r \<Longrightarrow> 0 < n \<Longrightarrow>
    r = int (length bs) \<and> 0 < length bs \<and> length bs \<le> n"
  using fragment_bounds [of n "in_frags s"]
  by (cases "in_end s") (auto simp: recv1_def Let_def split: if_splits)

lemma recv1_nonempty: "(r, bs, s') = recv1 n s \<Longrightarrow> \<not> r < 0 \<Longrightarrow> r \<noteq> 0 \<Longrightarrow> 0 < n \<Longrightarrow> 0 < length bs"
  by (metis recv1_pos linorder_neqE_linordered_idom)

lemma recv1_shrinks:
  assumes "(r, bs, s') = recv1 (n - length got) s" and "\<not> r < 0" and "r \<noteq> 0" and "length got < n"
  shows "n - (length got + length bs) < n - length got"
proof -
  have "0 < length bs" using recv1_nonempty [OF assms(1-3)] assms(4) by simp
  then show ?thesis using assms(4) by linarith
qed

section \<open>The loops\<close>

text \<open>The result, the bytes stored at the start of the caller's memory, the socket.\<close>

function sock_recv_loop :: "nat \<Rightarrow> byte list \<Rightarrow> in_socket \<Rightarrow> size_t \<times> byte list \<times> in_socket" where
  "sock_recv_loop n got s =
     (if length got < n
      then (case recv1 (n - length got) s of (recved, bs, s') \<Rightarrow>
              if recved < 0 then (word_of_int recved, got, s')
              else if recved = 0 then (0, got, s')
              else sock_recv_loop n (got @ bs) s')
      else (of_nat (length got), got, s))"
  by pat_completeness auto
termination
  by (relation "measure (\<lambda>(n, got, s). n - length got)")
     (auto intro: recv1_shrinks)

declare sock_recv_loop.simps [simp del]

definition sock_recv :: "size_t \<Rightarrow> in_socket \<Rightarrow> size_t \<times> byte list \<times> in_socket" where
  "sock_recv n s = sock_recv_loop (unat n) [] s"

function sock_send_loop :: "nat \<Rightarrow> byte list \<Rightarrow> out_socket \<Rightarrow> size_t \<times> out_socket" where
  "sock_send_loop sent_n bs s =
     (if sent_n < length bs
      then (case send1 (drop sent_n bs) s of (sent, s') \<Rightarrow>
              if sent < 0 then (word_of_int sent, s')
              else if sent = 0 then (0, s')
              else sock_send_loop (sent_n + nat sent) bs s')
      else (of_nat sent_n, s))"
  by pat_completeness auto
termination
  by (relation "measure (\<lambda>(sent_n, bs, s). length bs - sent_n)") auto

declare sock_send_loop.simps [simp del]

definition sock_send :: "byte list \<Rightarrow> out_socket \<Rightarrow> size_t \<times> out_socket" where
  "sock_send bs s = sock_send_loop 0 bs s"

section \<open>Read and Write\<close>

text \<open>The first bytes of the (zero-initialised) length, as far as they arrived.\<close>

definition partial_size :: "byte list \<Rightarrow> size_t" where
  "partial_size bs = size_of_bytes (bs @ replicate (8 - length bs) 0)"

definition store_cells :: "byte list \<Rightarrow> buffer \<Rightarrow> buffer" where
  "store_cells bs b = b\<lparr>buf_data := splice (buf_data b) 0 (map Some bs)\<rparr>"

text \<open>The comparison \<open>recv_ret <= 0\<close> on a \<open>size_t\<close> is \<open>recv_ret == 0\<close>.\<close>

definition Read :: "(size_t \<Rightarrow> bool) \<Rightarrow> buffer \<Rightarrow> in_socket \<Rightarrow> (bool \<times> buffer \<times> in_socket) result" where
  "Read al b s =
     (if GetBufferSize b \<noteq> 0 then Inl (Fatal ''only allow reading data into an empty buffer'')
      else case sock_recv 8 s of (recv_ret, hdr, s1) \<Rightarrow>
        if recv_ret \<le> 0 then Inr (False, b, s1)
        else let msg_size = partial_size hdr in
          and_then (Realloc al msg_size b) (\<lambda>b.
            case sock_recv msg_size s1 of (recv_ret, body, s2) \<Rightarrow>
              let b = store_cells body b in
              if recv_ret \<le> 0 then Inr (False, b, s2)
              else Inr (True, SetBufferSize msg_size b, s2)))"

text \<open>The bytes a buffer sends: reading an indeterminate one is undefined.\<close>

definition Write :: "buffer \<Rightarrow> out_socket \<Rightarrow> (bool \<times> out_socket) result" where
  "Write b s =
     (let sz = GetBufferSize b in
      case sock_send (size_bytes sz) s of (send_ret, s1) \<Rightarrow>
        if send_ret \<le> 0 then Inr (False, s1)
        else and_then (read_cells (buf_data b) 0 (unat sz)) (\<lambda>data.
          case sock_send data s1 of (send_ret, s2) \<Rightarrow>
            Inr (\<not> send_ret \<le> 0, s2)))"

text \<open>
  \<open>Accept\<close>: the result of \<open>accept\<close> is stored in an \<open>unsigned\<close>; \<open>EINTR\<close> is 4.  \<open>None\<close>: no
  communicator.
\<close>

definition Accept :: "int \<Rightarrow> int \<Rightarrow> 32 word option" where
  "Accept ret errno =
     (let fd = word_of_int ret in if fd \<le> 0 \<or> errno = 4 then None else Some fd)"

section \<open>What the loops do\<close>

lemma recv1_data:
  assumes "in_bytes s \<noteq> []" and "0 < n"
  shows "\<exists>k s'. recv1 n s = (int k, take k (in_bytes s), s') \<and> 1 \<le> k \<and> k \<le> n \<and>
     k \<le> length (in_bytes s) \<and> in_bytes s' = drop k (in_bytes s) \<and> in_end s' = in_end s"
proof -
  let ?k = "min (fragment (in_frags s) n) (length (in_bytes s))"
  have "1 \<le> ?k \<and> ?k \<le> n"
    using assms fragment_bounds [of n "in_frags s"] by (simp add: Suc_le_eq min.coboundedI1)
  then show ?thesis
    using assms by (intro exI [of _ ?k]) (auto simp: recv1_def Let_def min_def)
qed

lemma recv_loop_exact:
  assumes "length got \<le> n" and "n - length got \<le> length (in_bytes s)"
  shows "\<exists>s'. sock_recv_loop n got s = (of_nat n, got @ take (n - length got) (in_bytes s), s') \<and>
     in_bytes s' = drop (n - length got) (in_bytes s) \<and> in_end s' = in_end s"
  using assms
proof (induction "n - length got" arbitrary: got s rule: less_induct)
  case less
  show ?case
  proof (cases "length got < n")
    case False
    then show ?thesis using less.prems by (simp add: sock_recv_loop.simps)
  next
    case True
    then have "in_bytes s \<noteq> []" using less.prems by auto
    from recv1_data [OF this, of "n - length got"] True
    obtain k s1 where k: "recv1 (n - length got) s = (int k, take k (in_bytes s), s1)"
        "1 \<le> k" "k \<le> n - length got" "k \<le> length (in_bytes s)"
        "in_bytes s1 = drop k (in_bytes s)" "in_end s1 = in_end s"
      by auto
    let ?got = "got @ take k (in_bytes s)"
    have len: "length ?got = length got + k" using k by simp
    have "n - length ?got < n - length got" unfolding len using k True by linarith
    moreover have "length ?got \<le> n" "n - length ?got \<le> length (in_bytes s1)"
      unfolding len using k less.prems by simp_all
    ultimately obtain s2 where
      "sock_recv_loop n ?got s1 = (of_nat n, ?got @ take (n - length ?got) (in_bytes s1), s2)"
      "in_bytes s2 = drop (n - length ?got) (in_bytes s1)" "in_end s2 = in_end s1"
      using less.hyps by blast
    moreover have kk: "k + (n - (length got + k)) = n - length got" using k(3) True by linarith
    have "?got @ take (n - length ?got) (in_bytes s1) = got @ take (n - length got) (in_bytes s)"
      unfolding len k(5) append_assoc take_add [symmetric] kk ..
    moreover have "drop (n - length ?got) (in_bytes s1) = drop (n - length got) (in_bytes s)"
      unfolding len k(5) using k by simp
    ultimately show ?thesis
      using True k by (subst sock_recv_loop.simps) simp
  qed
qed

lemma recv_loop_short:
  assumes "length got + length (in_bytes s) < n"
  shows "\<exists>s'. sock_recv_loop n got s = (word_of_int (ending_code (in_end s)), got @ in_bytes s, s') \<and>
     in_bytes s' = []"
  using assms
proof (induction "length (in_bytes s)" arbitrary: got s rule: less_induct)
  case less
  show ?case
  proof (cases "in_bytes s = []")
    case True
    then show ?thesis using less.prems
      by (cases "in_end s") (simp_all add: sock_recv_loop.simps [of n got s] recv1_def)
  next
    case False
    from recv1_data [OF this, of "n - length got"] less.prems
    obtain k s1 where k: "recv1 (n - length got) s = (int k, take k (in_bytes s), s1)"
        "1 \<le> k" "k \<le> length (in_bytes s)" "in_bytes s1 = drop k (in_bytes s)" "in_end s1 = in_end s"
      by auto
    have "length (in_bytes s1) < length (in_bytes s)" using k by simp
    moreover have "length (got @ take k (in_bytes s)) + length (in_bytes s1) < n"
      using k less.prems by simp
    ultimately obtain s2 where
      "sock_recv_loop n (got @ take k (in_bytes s)) s1 =
         (word_of_int (ending_code (in_end s1)), (got @ take k (in_bytes s)) @ in_bytes s1, s2)"
      "in_bytes s2 = []"
      using less.hyps by blast
    then show ?thesis
      using k less.prems by (subst sock_recv_loop.simps) simp
  qed
qed

lemma send_loop_exact:
  assumes "out_room s = None" and "sent_n \<le> length bs"
  shows "\<exists>s'. sock_send_loop sent_n bs s = (of_nat (length bs), s') \<and>
     out_bytes s' = out_bytes s @ drop sent_n bs \<and> out_room s' = None"
  using assms
proof (induction "length bs - sent_n" arbitrary: sent_n s rule: less_induct)
  case less
  show ?case
  proof (cases "sent_n < length bs")
    case False
    then show ?thesis using less.prems by (simp add: sock_send_loop.simps)
  next
    case True
    let ?k = "fragment (out_frags s) (length bs - sent_n)"
    have k: "1 \<le> ?k" "?k \<le> length bs - sent_n"
      using fragment_bounds [of "length bs - sent_n" "out_frags s"] True by simp_all
    obtain s1 where s1: "send1 (drop sent_n bs) s = (int ?k, s1)"
        "out_bytes s1 = out_bytes s @ take ?k (drop sent_n bs)" "out_room s1 = None"
      using less.prems by (simp add: send1_def Let_def)
    have "length bs - (sent_n + ?k) < length bs - sent_n" "sent_n + ?k \<le> length bs"
      using k True by simp_all
    from less.hyps [OF this(1) s1(3) this(2)] obtain s2 where s2:
      "sock_send_loop (sent_n + ?k) bs s1 = (of_nat (length bs), s2)"
      "out_bytes s2 = out_bytes s1 @ drop (sent_n + ?k) bs" "out_room s2 = None"
      by auto
    have "take ?k (drop sent_n bs) @ drop (sent_n + ?k) bs = drop sent_n bs"
      by (metis append_take_drop_id drop_drop add.commute)
    then have "out_bytes s2 = out_bytes s @ drop sent_n bs" using s1 s2 by simp
    moreover have "sock_send_loop sent_n bs s = (of_nat (length bs), s2)"
      using True k s1 s2 by (subst sock_send_loop.simps) simp
    ultimately show ?thesis using s2 by auto
  qed
qed

section \<open>Frames\<close>

text \<open>A message on the wire: the length, then the content.\<close>

definition message_frame :: "byte list \<Rightarrow> byte list" where
  "message_frame bs = size_bytes (of_nat (length bs)) @ bs"

lemma sock_recv_exact:
  assumes "in_bytes s = bs @ rest" and "length bs = unat n"
  shows "\<exists>s'. sock_recv n s = (n, bs, s') \<and> in_bytes s' = rest \<and> in_end s' = in_end s"
  using recv_loop_exact [of "[]" "unat n" s] assms by (auto simp: sock_recv_def)

lemma sock_send_exact:
  assumes "out_room s = None"
  shows "\<exists>s'. sock_send bs s = (of_nat (length bs), s') \<and> out_bytes s' = out_bytes s @ bs \<and>
     out_room s' = None"
  using send_loop_exact [of s 0 bs] assms by (simp add: sock_send_def)

lemma content_short: "buf_ok b \<Longrightarrow> length (content b) < 2 ^ 64"
  using unat_size_t_less by (simp add: length_content)

lemma read_content: "buf_ok b \<Longrightarrow> read_cells (buf_data b) 0 (unat (buf_length b)) = Inr (content b)"
  using content_cells [of b] by (intro read_cells_Some) (simp_all add: buf_ok_def word_le_nat_alt)

lemma Write_frame:
  assumes b: "buf_ok b" and s: "out_room s = None"
  shows "\<exists>s'. Write b s = Inr (content b \<noteq> [], s') \<and>
     out_bytes s' = out_bytes s @ message_frame (content b)"
proof -
  obtain s1 where s1: "sock_send (size_bytes (buf_length b)) s = (8, s1)"
      "out_bytes s1 = out_bytes s @ size_bytes (buf_length b)" "out_room s1 = None"
    using sock_send_exact [OF s, of "size_bytes (buf_length b)"] by auto
  obtain s2 where s2: "sock_send (content b) s1 = (of_nat (length (content b)), s2)"
      "out_bytes s2 = out_bytes s1 @ content b"
    using sock_send_exact [OF s1(3)] by blast
  have n: "of_nat (length (content b)) = buf_length b" using b by (simp add: length_content)
  have "(of_nat (length (content b)) :: size_t) \<le> 0 \<longleftrightarrow> content b = []"
    using length_content [OF b] by (auto simp: n word_le_nat_alt simp flip: length_0_conv)
  then show ?thesis
    using s1 s2 b n by (simp add: Write_def Let_def GetBufferSize_def read_content message_frame_def)
qed

text \<open>After the length: \<open>body\<close> is what arrived of the announced \<open>n\<close> bytes.\<close>

lemma Read_announced:
  assumes b: "buf_ok b" "buf_length b = 0" and al: "\<forall>k. al k"
    and hdr: "sock_recv 8 s = (8, size_bytes n, s1)"
    and body: "sock_recv n s1 = (r, body, s2)"
  shows "\<exists>b1. unat n \<le> length (buf_data b1) \<and> length (buf_data b1) = unat (buf_size b1) \<and>
     buf_offset b1 = 0 \<and>
     Read al b s = Inr (if r \<le> 0 then (False, store_cells body b1, s2)
                        else (True, SetBufferSize n (store_cells body b1), s2))"
proof -
  obtain b1 where b1: "Realloc al n b = Inr b1" "buf_ok b1" "unat n \<le> length (buf_data b1)"
      "buf_offset b1 = buf_offset b"
    using Realloc_ok [OF b(1) al] by blast
  have "buf_offset b = 0" using b by (simp add: buf_ok_def)
  moreover have "partial_size (size_bytes n) = n" by (simp add: partial_size_def)
  ultimately show ?thesis
    using b1 hdr body b(2) by (intro exI [of _ b1]) (simp add: Read_def GetBufferSize_def Let_def buf_ok_def)
qed

lemma stored_message:
  assumes "unat n \<le> length (buf_data b)" and "length (buf_data b) = unat (buf_size b)"
    and "buf_offset b = 0" and "length body = unat n"
  shows "buf_ok (SetBufferSize n (store_cells body b)) \<and>
     content (SetBufferSize n (store_cells body b)) = body \<and>
     unread (SetBufferSize n (store_cells body b)) = body"
  using assms
  by (auto simp: buf_ok_def content_def unread_def SetBufferSize_def store_cells_def splice_def
      word_le_nat_alt comp_def)

lemma Read_frame:
  assumes b: "buf_ok b" "buf_length b = 0" and al: "\<forall>k. al k"
    and s: "in_bytes s = message_frame bs @ rest" and bs: "bs \<noteq> []" "length bs < 2 ^ 64"
  shows "\<exists>b' s'. Read al b s = Inr (True, b', s') \<and> buf_ok b' \<and> content b' = bs \<and> unread b' = bs \<and>
     in_bytes s' = rest"
proof -
  let ?n = "of_nat (length bs) :: size_t"
  have n: "unat ?n = length bs" using bs(2) by (rule unat_of_nat_small)
  obtain s1 where s1: "sock_recv 8 s = (8, size_bytes ?n, s1)" "in_bytes s1 = bs @ rest"
    using sock_recv_exact [of s "size_bytes ?n" "bs @ rest" 8] s by (auto simp: message_frame_def)
  obtain s2 where s2: "sock_recv ?n s1 = (?n, bs, s2)" "in_bytes s2 = rest"
    using sock_recv_exact [OF s1(2)] n by metis
  obtain b1 where b1: "unat ?n \<le> length (buf_data b1)" "length (buf_data b1) = unat (buf_size b1)"
      "buf_offset b1 = 0"
      "Read al b s = Inr (if ?n \<le> 0 then (False, store_cells bs b1, s2)
                          else (True, SetBufferSize ?n (store_cells bs b1), s2))"
    using Read_announced [OF b al s1(1) s2(1)] by blast
  have "\<not> ?n \<le> 0" using n bs(1) by (simp add: word_le_nat_alt)
  then show ?thesis
    using b1(4) stored_message [OF b1(1-3), of bs] n s2(2) by simp
qed

text \<open>A socket that does not fragment keeps that.\<close>

lemma sock_send_loop_quiet:
  "sock_send_loop k bs s = (r, s') \<Longrightarrow> out_room s = None \<Longrightarrow> out_frags s = [] \<Longrightarrow>
     out_room s' = None \<and> out_frags s' = []"
proof (induction k bs s rule: sock_send_loop.induct)
  case (1 k bs s)
  obtain sent s1 where s1: "send1 (drop k bs) s = (sent, s1)" by fastforce
  then have "out_room s1 = None \<and> out_frags s1 = []" using 1(3,4) by (auto simp: send1_def Let_def)
  then show ?case
    using 1(2-) 1(1) [OF _ s1 [symmetric]] s1
    by (auto simp: sock_send_loop.simps [of k] split: if_splits)
qed

lemma sock_recv_loop_quiet:
  "sock_recv_loop n got s = (r, bs, s') \<Longrightarrow> in_frags s = [] \<Longrightarrow> in_frags s' = []"
proof (induction n got s rule: sock_recv_loop.induct)
  case (1 n got s)
  obtain x xs s1 where s1: "recv1 (n - length got) s = (x, xs, s1)" by (metis prod_cases3)
  then have "in_frags s1 = []" using 1(3) by (auto simp: recv1_def Let_def split: if_splits)
  then show ?case
    using 1(2,3) 1(1) [OF _ s1 [symmetric] refl] s1
    by (auto simp: sock_recv_loop.simps [of n got] split: if_splits)
qed

text \<open>The calls \<open>Write\<close> and \<open>Read\<close> make.\<close>

lemma Write_calls:
  assumes "Write b s = Inr (ok, s')"
  shows "\<exists>r1 s1. sock_send (size_bytes (GetBufferSize b)) s = (r1, s1) \<and>
     (s' = s1 \<or> (\<exists>data r2. sock_send data s1 = (r2, s')))"
proof -
  obtain r1 s1 where s1: "sock_send (size_bytes (GetBufferSize b)) s = (r1, s1)" by fastforce
  show ?thesis
  proof (cases "r1 = 0")
    case False
    then obtain data where d: "(case sock_send data s1 of (r2, s2) \<Rightarrow> Inr (r2 \<noteq> 0, s2)) =
        (Inr (ok, s') :: (bool \<times> out_socket) result)"
      using assms s1 by (auto simp: Write_def Let_def and_then_Inr_iff)
    obtain r2 s2 where "sock_send data s1 = (r2, s2)" by fastforce
    then show ?thesis using d s1 by auto
  qed (use assms s1 in \<open>simp add: Write_def Let_def\<close>)
qed

lemma Read_calls:
  assumes "Read al b s = Inr (ok, b', s')"
  shows "\<exists>r1 hdr s1. sock_recv 8 s = (r1, hdr, s1) \<and>
     (s' = s1 \<and> \<not> ok \<or> r1 \<noteq> 0 \<and> (\<exists>r2 body. sock_recv (partial_size hdr) s1 = (r2, body, s') \<and> ok = (r2 \<noteq> 0)))"
proof -
  obtain r1 hdr s1 where s1: "sock_recv 8 s = (r1, hdr, s1)" by (metis prod_cases3)
  have b: "GetBufferSize b = 0" using assms by (auto simp: Read_def split: if_splits)
  obtain r2 body s2 where s2: "sock_recv (partial_size hdr) s1 = (r2, body, s2)" by (metis prod_cases3)
  show ?thesis using assms s1 s2 b by (auto simp: Read_def Let_def and_then_Inr_iff split: if_splits)
qed

lemma Write_quiet:
  assumes "Write b s = Inr (ok, s')" and "out_room s = None" and "out_frags s = []"
  shows "out_room s' = None \<and> out_frags s' = []"
  using Write_calls [OF assms(1)] assms(2,3) by (auto simp: sock_send_def dest!: sock_send_loop_quiet)

lemma Read_quiet:
  assumes "Read al b s = Inr (ok, b', s')" and "in_frags s = []"
  shows "in_frags s' = []"
  using Read_calls [OF assms(1)] assms(2) by (auto simp: sock_recv_def dest!: sock_recv_loop_quiet)

text \<open>A message that was read has taken something off the stream.\<close>

lemma sock_recv_loop_shorter:
  "sock_recv_loop n got s = (r, bs, s') \<Longrightarrow> length (in_bytes s') \<le> length (in_bytes s)"
proof (induction n got s rule: sock_recv_loop.induct)
  case (1 n got s)
  obtain x xs s1 where s1: "recv1 (n - length got) s = (x, xs, s1)" by (metis prod_cases3)
  then have "length (in_bytes s1) \<le> length (in_bytes s)"
    by (auto simp: recv1_def Let_def split: if_splits)
  then show ?case
    using 1(2) 1(1) [OF _ s1 [symmetric] refl] s1
    by (fastforce simp: sock_recv_loop.simps [of n got] split: if_splits)
qed

lemma sock_recv_nonempty:
  assumes "in_bytes s \<noteq> []" and "0 < unat n" and "sock_recv n s = (r, bs, s')"
  shows "length (in_bytes s') < length (in_bytes s)"
proof -
  obtain k s1 where k: "recv1 (unat n) s = (int k, take k (in_bytes s), s1)" "1 \<le> k"
      "k \<le> length (in_bytes s)" "in_bytes s1 = drop k (in_bytes s)"
    using recv1_data [OF assms(1,2)] by blast
  have "sock_recv_loop (unat n) (take k (in_bytes s)) s1 = (r, bs, s')"
    using assms(2,3) k by (simp add: sock_recv_def sock_recv_loop.simps [of _ "[]"])
  from sock_recv_loop_shorter [OF this] show ?thesis using k by simp
qed

lemma Read_shorter:
  assumes "Read al b s = Inr (ok, b', s')"
  shows "length (in_bytes s') + of_bool ok \<le> length (in_bytes s)"
proof (cases "in_bytes s = []")
  case True
  have "sock_recv 8 s = (word_of_int (ending_code (in_end s)), [], s)"
    using True by (cases "in_end s")
      (simp_all add: sock_recv_def sock_recv_loop.simps [of _ "[]"] recv1_def)
  moreover have "partial_size [] = 0"
    by (simp add: partial_size_def size_of_bytes_def eval_nat_numeral)
  moreover have "sock_recv 0 s = (0, [], s)" by (simp add: sock_recv_def sock_recv_loop.simps)
  ultimately show ?thesis using Read_calls [OF assms] by auto
next
  case False
  obtain r hdr s1 where s1: "sock_recv 8 s = (r, hdr, s1)" by (metis prod_cases3)
  have "length (in_bytes s1) < length (in_bytes s)" by (rule sock_recv_nonempty [OF False _ s1]) simp
  then show ?thesis
    using Read_calls [OF assms] s1 by (fastforce simp: sock_recv_def dest: sock_recv_loop_shorter)
qed

section \<open>Any message over a connection\<close>

context serializable
begin

lemma exchange:
  assumes "ok x" and "\<forall>n. al n" and "enc x \<noteq> []" and "length (enc x) \<le> 2 ^ 63"
    and "buf_ok b" and "content b = []" and "buf_ok c" and "content c = []"
    and "out_room s = None" and "in_bytes r = message_frame (enc x) @ rest"
  shows "\<exists>b1 s1 c1 r1 c2. Marshal al x b = Inr b1 \<and> Write b1 s = Inr (True, s1) \<and>
     out_bytes s1 = out_bytes s @ message_frame (enc x) \<and>
     Read al c r = Inr (True, c1, r1) \<and> in_bytes r1 = rest \<and>
     Unmarshal c1 = Inr (x, c2) \<and> unread c2 = []"
proof -
  obtain b1 where b1: "Marshal al x b = Inr b1" "wrote b (enc x) b1"
    using emits_Marshal [OF assms(1,2)] assms(4-6) by (auto simp: emits_def room_def)
  then have "buf_ok b1" "content b1 = enc x" using assms(6) by (simp_all add: wrote_def)
  then obtain s1 where s1: "Write b1 s = Inr (True, s1)"
      "out_bytes s1 = out_bytes s @ message_frame (enc x)"
    using Write_frame [OF _ assms(9)] assms(3) by fastforce
  have "unat (buf_length c) = 0" using length_content [OF assms(7)] assms(8) by simp
  then have "buf_length c = 0" by (simp add: unat_eq_zero)
  moreover have "length (enc x) < 2 ^ 64" using assms(4) by simp
  ultimately obtain c1 r1 where c1: "Read al c r = Inr (True, c1, r1)" "buf_ok c1"
      "unread c1 = enc x @ []" "in_bytes r1 = rest"
    using Read_frame [OF assms(7) _ assms(2) assms(10) assms(3)] by auto
  obtain c2 where "Unmarshal c1 = Inr (x, c2)" "unread c2 = []"
    using parsesD [OF parses_Unmarshal [OF assms(1)] c1(2,3)] by auto
  then show ?thesis using b1 s1 c1 by blast
qed

end

section \<open>Properties\<close>

text \<open>C31: A backup request marshalled into an empty buffer, written to a connection that takes it
  and read by the peer into an empty buffer is the same request there, whatever fragments the
  network moves it in; the stream is left at the byte after the message.\<close>

theorem backup_request_crosses_the_wire:
  assumes "backup_request_ok x" and "\<forall>n. al n" and "length (backup_request_bytes x) \<le> 2 ^ 63"
    and "buf_ok b" and "content b = []" and "buf_ok c" and "content c = []"
    and "out_room s = None" and "in_bytes r = message_frame (backup_request_bytes x) @ rest"
  shows "\<exists>b1 s1 c1 r1 c2. BackupRequest_Marshal al x b = Inr b1 \<and> Write b1 s = Inr (True, s1) \<and>
     out_bytes s1 = out_bytes s @ message_frame (backup_request_bytes x) \<and>
     Read al c r = Inr (True, c1, r1) \<and> in_bytes r1 = rest \<and>
     BackupRequest_Unmarshal c1 = Inr (x, c2) \<and> unread c2 = []"
proof -
  have "backup_request_bytes x \<noteq> []" by (simp add: backup_request_bytes_def bool_bytes_def)
  then show ?thesis using assms by (intro backup_request.exchange) auto
qed

lemma demo_backup_ok: "backup_request_ok demo_backup \<and> length (backup_request_bytes demo_backup) \<le> 100"
  using demo_metadata_ok demo_metadata_length
  by (simp add: backup_request_ok_def demo_backup_def entry_ok_def int_range_def
      backup_request_bytes_def entry_bytes_def bool_bytes_def)

lemma backup_request_crosses_the_wire_witness:
  "\<exists>b1 s1 c1 r1 c2. BackupRequest_Marshal (\<lambda>_. True) demo_backup (demo_buffer []) = Inr b1 \<and>
     Write b1 \<lparr>out_bytes = [7], out_frags = [1, 3], out_room = None, out_end = Fails\<rparr> = Inr (True, s1) \<and>
     out_bytes s1 = [7] @ message_frame (backup_request_bytes demo_backup) \<and>
     Read (\<lambda>_. True) (demo_buffer [])
       \<lparr>in_bytes = message_frame (backup_request_bytes demo_backup) @ [9], in_frags = [5, 2, 40],
        in_end = Fails\<rparr> = Inr (True, c1, r1) \<and> in_bytes r1 = [9] \<and>
     BackupRequest_Unmarshal c1 = Inr (demo_backup, c2) \<and> unread c2 = []"
  using demo_backup_ok demo_buffer_ok [of "[]"]
    backup_request_crosses_the_wire [of demo_backup "\<lambda>_. True" "demo_buffer []" "demo_buffer []"
      "\<lparr>out_bytes = [7], out_frags = [1, 3], out_room = None, out_end = Fails\<rparr>"
      "\<lparr>in_bytes = message_frame (backup_request_bytes demo_backup) @ [9], in_frags = [5, 2, 40],
        in_end = Fails\<rparr>" "[9]"]
  by simp

text \<open>When the connection ends inside a message, \<open>Read\<close> reports failure after an orderly close and
  success after an error: the \<open>-1\<close> of \<open>recv\<close> is compared as an unsigned number.  The buffer then
  has the announced length, of which only the bytes before the error have arrived.\<close>

theorem truncated_message_accepted:
  assumes "buf_ok b" and "buf_length b = 0" and "\<forall>k. al k"
    and "in_bytes s = size_bytes n @ part" and "length part < unat n"
  shows "\<exists>b' s'. Read al b s = Inr (in_end s = Fails, b', s') \<and>
     buf_length b' = (if in_end s = Fails then n else 0) \<and>
     take (length part) (buf_data b') = map Some part"
proof -
  obtain s1 where s1: "sock_recv 8 s = (8, size_bytes n, s1)" "in_bytes s1 = part" "in_end s1 = in_end s"
    using sock_recv_exact [of s "size_bytes n" part 8] assms(4) by auto
  obtain s2 where s2: "sock_recv n s1 = (word_of_int (ending_code (in_end s)), part, s2)"
    using recv_loop_short [of "[]" s1 "unat n"] assms(5) s1 by (auto simp: sock_recv_def)
  have cells: "take (length part) (buf_data (store_cells part x)) = map Some part" for x
    by (simp add: store_cells_def splice_def)
  show ?thesis
  proof (cases "Realloc al n b")
    case (Inl e)
    then show ?thesis using Realloc_ok [OF assms(1,3), of n] by auto
  next
    case (Inr b1)
    moreover have "buf_length b1 = 0" using Realloc_ok [OF assms(1,3), of n] Inr assms(2) by auto
    moreover have "partial_size (size_bytes n) = n" by (simp add: partial_size_def)
    ultimately show ?thesis
      using s1 s2 cells assms(2)
      by (cases "in_end s") (simp_all add: Read_def GetBufferSize_def Let_def store_cells_def SetBufferSize_def)
  qed
qed

lemma truncated_message_accepted_witness:
  "\<exists>b' s'. Read (\<lambda>_. True) (demo_buffer [])
       \<lparr>in_bytes = size_bytes 100 @ [1, 2, 3], in_frags = [8, 1], in_end = Fails\<rparr> = Inr (True, b', s') \<and>
     buf_length b' = 100 \<and> take 3 (buf_data b') = map Some [1, 2, 3]"
  using demo_buffer_ok [of "[]"] truncated_message_accepted [of "demo_buffer []" "\<lambda>_. True"
      "\<lparr>in_bytes = size_bytes 100 @ [1, 2, 3], in_frags = [8, 1], in_end = Fails\<rparr>" 100 "[1, 2, 3]"]
  by (simp add: demo_buffer_def numeral_3_eq_3)

text \<open>An empty message is announced and reported as a failure; a failed \<open>accept\<close> gives a descriptor.\<close>

lemma Write_empty: "buf_ok b \<Longrightarrow> out_room s = None \<Longrightarrow> content b = [] \<Longrightarrow>
    \<exists>s'. Write b s = Inr (False, s') \<and> out_bytes s' = out_bytes s @ message_frame []"
  using Write_frame by fastforce

lemma failed_accept_has_a_descriptor:
  "e \<noteq> 4 \<Longrightarrow> Accept (-1) e = Some 4294967295" and "Accept fd 4 = None"
  by (simp_all add: Accept_def)

end
