(* ===== verification/RdmaLink.thy ===== *)
theory RdmaLink
  imports Socket "HOL-Library.Multiset"
begin

text \<open>
  Setting up an RDMA link: \<open>rdma_handshake\<close>, \<open>create_resource\<close>, \<open>connect_qp\<close>, the three
  \<open>modify_qp_to_*\<close> functions, \<open>sock_sync_data\<close> and \<open>resources_destroy\<close> of
  \<open>src/communicator/rdma_communicator.cpp\<close>.  The verbs library is a parameter: what its calls
  answer.  Kept explicitly are the verbs objects the process holds, the state of the queue pair,
  the packed structure exchanged over TCP with its byte order, and the socket (theory \<open>Socket\<close>).
\<close>

section \<open>Byte order\<close>

definition swap_bytes :: "nat \<Rightarrow> nat \<Rightarrow> nat" where
  "swap_bytes n x = le_dec (rev (le_enc n x))"

definition htonll :: "64 word \<Rightarrow> 64 word" where "htonll x = of_nat (swap_bytes 8 (unat x))"
definition ntohll :: "64 word \<Rightarrow> 64 word" where "ntohll x = of_nat (swap_bytes 8 (unat x))"
definition htonl :: "32 word \<Rightarrow> 32 word" where "htonl x = of_nat (swap_bytes 4 (unat x))"
definition ntohl :: "32 word \<Rightarrow> 32 word" where "ntohl x = of_nat (swap_bytes 4 (unat x))"
definition htons :: "16 word \<Rightarrow> 16 word" where "htons x = of_nat (swap_bytes 2 (unat x))"
definition ntohs :: "16 word \<Rightarrow> 16 word" where "ntohs x = of_nat (swap_bytes 2 (unat x))"

section \<open>The structure exchanged\<close>

record cm_con_data =
  cm_addr :: "64 word"
  cm_rkey :: "32 word"
  cm_qp_num :: "32 word"
  cm_lid :: "16 word"
  cm_gid :: "byte list"

definition CM_SIZE :: nat where "CM_SIZE = 34"

definition con_bytes :: "cm_con_data \<Rightarrow> byte list" where
  "con_bytes d = le_enc 8 (unat (cm_addr d)) @ le_enc 4 (unat (cm_rkey d)) @
     le_enc 4 (unat (cm_qp_num d)) @ le_enc 2 (unat (cm_lid d)) @ cm_gid d"

definition con_of_bytes :: "byte list \<Rightarrow> cm_con_data" where
  "con_of_bytes bs =
     \<lparr>cm_addr = of_nat (le_dec (take 8 bs)), cm_rkey = of_nat (le_dec (take 4 (drop 8 bs))),
      cm_qp_num = of_nat (le_dec (take 4 (drop 12 bs))), cm_lid = of_nat (le_dec (take 2 (drop 16 bs))),
      cm_gid = take 16 (drop 18 bs)\<rparr>"

definition con_to_net :: "cm_con_data \<Rightarrow> cm_con_data" where
  "con_to_net d = \<lparr>cm_addr = htonll (cm_addr d), cm_rkey = htonl (cm_rkey d),
     cm_qp_num = htonl (cm_qp_num d), cm_lid = htons (cm_lid d), cm_gid = cm_gid d\<rparr>"

definition con_from_net :: "cm_con_data \<Rightarrow> cm_con_data" where
  "con_from_net d = \<lparr>cm_addr = ntohll (cm_addr d), cm_rkey = ntohl (cm_rkey d),
     cm_qp_num = ntohl (cm_qp_num d), cm_lid = ntohs (cm_lid d), cm_gid = cm_gid d\<rparr>"

section \<open>sock_sync_data\<close>

text \<open>
  The reading loop: the count of bytes so far, the caller's memory.  Every \<open>read\<close> asks for
  the whole size and stores at the start of the memory; the end of the stream keeps it going.
  \<open>None\<close>: it does not return.
\<close>

partial_function (option) sync_read ::
  "nat \<Rightarrow> nat \<Rightarrow> byte list \<Rightarrow> in_socket \<Rightarrow> (int \<times> byte list \<times> in_socket) option" where
  "sync_read n cnt mem s =
     (if cnt < n
      then (case recv1 n s of (r, bs, s') \<Rightarrow>
              if 0 < r then sync_read n (cnt + nat r) (splice mem 0 bs) s'
              else if r = 0 then sync_read n cnt mem s'
              else Some (r, mem, s'))
      else Some (0, mem, s))"

definition sock_sync_data ::
  "byte list \<Rightarrow> byte list \<Rightarrow> in_socket \<Rightarrow> out_socket \<Rightarrow>
     (int \<times> byte list \<times> in_socket \<times> out_socket) option" where
  "sock_sync_data local mem i o1 =
     (case send1 local o1 of (r, o2) \<Rightarrow>
        let rc = (if (word_of_int r :: size_t) < of_nat (length local) then r else 0) in
        if rc \<noteq> 0 then Some (rc, mem, i, o2)
        else (case sync_read (length local) 0 mem i of
                None \<Rightarrow> None | Some (rc, mem', i') \<Rightarrow> Some (rc, mem', i', o2)))"

section \<open>Verbs objects\<close>

datatype verb_obj = Devices | Ctx | Pd | Cq | Mr | Qp

record verbs =
  fresh_id :: nat
  held :: "(verb_obj \<times> nat) list"

definition acquire :: "verb_obj \<Rightarrow> verbs \<Rightarrow> nat \<times> verbs" where
  "acquire k v = (fresh_id v, v\<lparr>fresh_id := fresh_id v + 1, held := (k, fresh_id v) # held v\<rparr>)"

text \<open>The call that gives an object back, for a null or non-null handle; it may refuse.\<close>

definition release :: "(verb_obj \<Rightarrow> bool) \<Rightarrow> verb_obj \<Rightarrow> nat option \<Rightarrow> verbs \<Rightarrow> verbs" where
  "release dok k h v =
     (case h of None \<Rightarrow> v
      | Some i \<Rightarrow> if dok k then v\<lparr>held := remove1 (k, i) (held v)\<rparr> else v)"

record rdma_comm =
  dev_name :: string
  ib_port :: int
  gid_idx :: int
  region :: size_t
  region_size :: size_t
  res_ctx :: "nat option"
  res_pd :: "nat option"
  res_cq :: "nat option"
  res_mr :: "nat option"
  res_qp :: "nat option"
  remote_props :: cm_con_data

text \<open>What the verbs library answers while the resources are created.\<close>

record verbs_answers =
  device_names :: "string list option"
  open_ok :: bool
  port_ok :: bool
  pd_ok :: bool
  cq_ok :: bool
  mr_ok :: bool
  qp_ok :: bool

definition pick_device :: "string \<Rightarrow> string list \<Rightarrow> string option" where
  "pick_device name names =
     (if name = [] then (case names of [] \<Rightarrow> None | n # _ \<Rightarrow> Some n)
      else if name \<in> set names then Some name else None)"

definition resources_destroy :: "(verb_obj \<Rightarrow> bool) \<Rightarrow> rdma_comm \<Rightarrow> verbs \<Rightarrow> rdma_comm \<times> verbs" where
  "resources_destroy dok c v =
     (let v = release dok Qp (res_qp c) v;
          v = release dok Mr (res_mr c) v;
          v = release dok Cq (res_cq c) v;
          v = release dok Pd (res_pd c) v;
          v = release dok Ctx (res_ctx c) v
      in (c\<lparr>res_qp := None, res_mr := None, res_cq := None, res_pd := None, res_ctx := None\<rparr>, v))"

text \<open>The label \<open>resources_create_exit\<close>; \<open>dl\<close> is the device list.\<close>

definition create_exit ::
  "(verb_obj \<Rightarrow> bool) \<Rightarrow> nat option \<Rightarrow> rdma_comm \<Rightarrow> verbs \<Rightarrow> int \<times> rdma_comm \<times> verbs" where
  "create_exit dok dl c v =
     (case resources_destroy dok c v of (c, v) \<Rightarrow>
        (STATUS_UNKNOWN_ERROR, c, release dok Devices dl v))"

text \<open>One step \<open>res_.x = ibv_...(); if (!res_.x) goto resources_create_exit\<close>.\<close>

definition grab ::
  "(verb_obj \<Rightarrow> bool) \<Rightarrow> verb_obj \<Rightarrow> bool \<Rightarrow> nat option \<Rightarrow> (nat option \<Rightarrow> rdma_comm \<Rightarrow> rdma_comm) \<Rightarrow>
     (rdma_comm \<Rightarrow> verbs \<Rightarrow> int \<times> rdma_comm \<times> verbs) \<Rightarrow> rdma_comm \<Rightarrow> verbs \<Rightarrow> int \<times> rdma_comm \<times> verbs" where
  "grab dok k ok dl put cont c v =
     (if ok then (case acquire k v of (i, v) \<Rightarrow> cont (put (Some i) c) v)
      else create_exit dok dl (put None c) v)"

definition create_resource ::
  "verbs_answers \<Rightarrow> (verb_obj \<Rightarrow> bool) \<Rightarrow> rdma_comm \<Rightarrow> verbs \<Rightarrow> int \<times> rdma_comm \<times> verbs" where
  "create_resource a dok c v =
     (case device_names a of None \<Rightarrow> create_exit dok None c v
      | Some names \<Rightarrow>
        (case acquire Devices v of (dl, v) \<Rightarrow>
           if names = [] then create_exit dok (Some dl) c v
           else case pick_device (dev_name c) names of
               None \<Rightarrow> create_exit dok (Some dl) c v
             | Some nm \<Rightarrow>
               grab dok Ctx (open_ok a) (Some dl) (\<lambda>h c. c\<lparr>res_ctx := h\<rparr>) (\<lambda>c v.
                 let v = release dok Devices (Some dl) v in
                 if \<not> port_ok a then create_exit dok None c v
                 else grab dok Pd (pd_ok a) None (\<lambda>h c. c\<lparr>res_pd := h\<rparr>)
                   (grab dok Cq (cq_ok a) None (\<lambda>h c. c\<lparr>res_cq := h\<rparr>)
                     (grab dok Mr (mr_ok a) None (\<lambda>h c. c\<lparr>res_mr := h\<rparr>)
                       (grab dok Qp (qp_ok a) None (\<lambda>h c. c\<lparr>res_qp := h\<rparr>)
                         (\<lambda>c v. (STATUS_SUCCESS, c, v)))))
                   c v)
               (c\<lparr>dev_name := nm\<rparr>) v))"

section \<open>The queue pair\<close>

datatype qp_state = RESET | INIT | RTR | RTS | ERR | UNKNOWN

datatype qp_flag = QP_STATE | QP_PKEY_INDEX | QP_PORT | QP_ACCESS_FLAGS | QP_AV | QP_PATH_MTU
  | QP_DEST_QPN | QP_RQ_PSN | QP_MAX_DEST_RD_ATOMIC | QP_MIN_RNR_TIMER | QP_TIMEOUT | QP_RETRY_CNT
  | QP_RNR_RETRY | QP_SQ_PSN | QP_MAX_QP_RD_ATOMIC

datatype access_flag = ACCESS_LOCAL_WRITE | ACCESS_REMOTE_READ | ACCESS_REMOTE_WRITE

datatype mtu = MTU_NONE | MTU_256

record qp_attr =
  attr_state :: qp_state
  attr_port_num :: int
  attr_pkey_index :: int
  attr_access :: "access_flag list"
  attr_path_mtu :: mtu
  attr_dest_qp_num :: "32 word"
  attr_rq_psn :: int
  attr_max_dest_rd_atomic :: int
  attr_min_rnr_timer :: int
  attr_is_global :: int
  attr_dlid :: "16 word"
  attr_sl :: int
  attr_src_path_bits :: int
  attr_ah_port_num :: int
  attr_dgid :: "byte list"
  attr_flow_label :: int
  attr_hop_limit :: int
  attr_sgid_index :: int
  attr_traffic_class :: int
  attr_timeout :: int
  attr_retry_cnt :: int
  attr_rnr_retry :: int
  attr_sq_psn :: int
  attr_max_rd_atomic :: int

definition zero_attr :: qp_attr where
  "zero_attr = \<lparr>attr_state = RESET, attr_port_num = 0, attr_pkey_index = 0, attr_access = [],
     attr_path_mtu = MTU_NONE, attr_dest_qp_num = 0, attr_rq_psn = 0, attr_max_dest_rd_atomic = 0,
     attr_min_rnr_timer = 0, attr_is_global = 0, attr_dlid = 0, attr_sl = 0, attr_src_path_bits = 0,
     attr_ah_port_num = 0, attr_dgid = replicate 16 0, attr_flow_label = 0, attr_hop_limit = 0,
     attr_sgid_index = 0, attr_traffic_class = 0, attr_timeout = 0, attr_retry_cnt = 0,
     attr_rnr_retry = 0, attr_sq_psn = 0, attr_max_rd_atomic = 0\<rparr>"

definition init_attr :: "rdma_comm \<Rightarrow> qp_attr \<times> qp_flag list" where
  "init_attr c =
     (zero_attr\<lparr>attr_state := INIT, attr_port_num := ib_port c, attr_pkey_index := 0,
        attr_access := [ACCESS_LOCAL_WRITE, ACCESS_REMOTE_READ, ACCESS_REMOTE_WRITE]\<rparr>,
      [QP_STATE, QP_PKEY_INDEX, QP_PORT, QP_ACCESS_FLAGS])"

definition rtr_attr :: "rdma_comm \<Rightarrow> 32 word \<Rightarrow> 16 word \<Rightarrow> byte list \<Rightarrow> qp_attr \<times> qp_flag list" where
  "rtr_attr c remote_qpn dlid dgid =
     (let a = zero_attr\<lparr>attr_state := RTR, attr_path_mtu := MTU_256, attr_dest_qp_num := remote_qpn,
            attr_rq_psn := 0, attr_max_dest_rd_atomic := 1, attr_min_rnr_timer := 18,
            attr_is_global := 0, attr_dlid := dlid, attr_sl := 0, attr_src_path_bits := 0,
            attr_ah_port_num := ib_port c\<rparr>;
          a = (if 0 \<le> gid_idx c
               then a\<lparr>attr_is_global := 1, attr_ah_port_num := 1, attr_dgid := take 16 dgid,
                      attr_flow_label := 0, attr_hop_limit := 1, attr_sgid_index := gid_idx c,
                      attr_traffic_class := 0\<rparr>
               else a)
      in (a, [QP_STATE, QP_AV, QP_PATH_MTU, QP_DEST_QPN, QP_RQ_PSN, QP_MAX_DEST_RD_ATOMIC,
              QP_MIN_RNR_TIMER]))"

definition rts_attr :: "qp_attr \<times> qp_flag list" where
  "rts_attr = (zero_attr\<lparr>attr_state := RTS, attr_timeout := 18, attr_retry_cnt := 6,
        attr_rnr_retry := 0, attr_sq_psn := 0, attr_max_rd_atomic := 1\<rparr>,
      [QP_STATE, QP_TIMEOUT, QP_RETRY_CNT, QP_RNR_RETRY, QP_SQ_PSN, QP_MAX_QP_RD_ATOMIC])"

text \<open>\<open>ibv_modify_qp\<close> is a parameter on the device's state of the queue pair.\<close>

type_synonym 'd modify = "'d \<Rightarrow> qp_attr \<Rightarrow> qp_flag list \<Rightarrow> int \<times> 'd"

definition modify_qp_to_init :: "'d modify \<Rightarrow> rdma_comm \<Rightarrow> 'd \<Rightarrow> int \<times> 'd" where
  "modify_qp_to_init ibv_modify_qp c q = (case init_attr c of (a, fs) \<Rightarrow> ibv_modify_qp q a fs)"

definition modify_qp_to_rtr ::
  "'d modify \<Rightarrow> rdma_comm \<Rightarrow> 32 word \<Rightarrow> 16 word \<Rightarrow> byte list \<Rightarrow> 'd \<Rightarrow> int \<times> 'd" where
  "modify_qp_to_rtr ibv_modify_qp c remote_qpn dlid dgid q =
     (case rtr_attr c remote_qpn dlid dgid of (a, fs) \<Rightarrow> ibv_modify_qp q a fs)"

definition modify_qp_to_rts :: "'d modify \<Rightarrow> 'd \<Rightarrow> int \<times> 'd" where
  "modify_qp_to_rts ibv_modify_qp q = (case rts_attr of (a, fs) \<Rightarrow> ibv_modify_qp q a fs)"

section \<open>connect_qp\<close>

text \<open>
  What the device says of itself: the answer of \<open>ibv_query_gid\<close>, the key of the memory region,
  the number of the queue pair, the local identifier of the port.
\<close>

record local_ids =
  gid_rc :: int
  gid_value :: "byte list"
  mr_rkey :: "32 word"
  qp_number :: "32 word"
  port_lid :: "16 word"

definition local_con_data :: "rdma_comm \<Rightarrow> local_ids \<Rightarrow> cm_con_data" where
  "local_con_data c l =
     \<lparr>cm_addr = region c, cm_rkey = mr_rkey l, cm_qp_num = qp_number l, cm_lid = port_lid l,
      cm_gid = (if 0 \<le> gid_idx c then gid_value l else replicate 16 0)\<rparr>"

definition connect_qp ::
  "'d modify \<Rightarrow> local_ids \<Rightarrow> rdma_comm \<Rightarrow> byte list \<Rightarrow> 'd \<Rightarrow> in_socket \<Rightarrow> out_socket \<Rightarrow>
     (int \<times> rdma_comm \<times> 'd \<times> in_socket \<times> out_socket) option" where
  "connect_qp ibv_modify_qp l c stack q i s =
     (if 0 \<le> gid_idx c \<and> gid_rc l \<noteq> 0 then Some (STATUS_UNKNOWN_ERROR, c, q, i, s)
      else case sock_sync_data (con_bytes (con_to_net (local_con_data c l))) stack i s of
        None \<Rightarrow> None
      | Some (rc, tmp, i, s) \<Rightarrow>
        if rc < 0 then Some (STATUS_UNKNOWN_ERROR, c, q, i, s)
        else
          let remote = con_from_net (con_of_bytes tmp); c = c\<lparr>remote_props := remote\<rparr> in
          case modify_qp_to_init ibv_modify_qp c q of (rc, q) \<Rightarrow>
          if rc \<noteq> 0 then Some (STATUS_UNKNOWN_ERROR, c, q, i, s)
          else case modify_qp_to_rtr ibv_modify_qp c (cm_qp_num remote) (cm_lid remote) (cm_gid remote) q of
            (rc, q) \<Rightarrow>
            if rc \<noteq> 0 then Some (STATUS_UNKNOWN_ERROR, c, q, i, s)
            else case modify_qp_to_rts ibv_modify_qp q of (rc, q) \<Rightarrow>
              if rc \<noteq> 0 then Some (STATUS_UNKNOWN_ERROR, c, q, i, s)
              else case sock_sync_data [81] [0] i s of
                None \<Rightarrow> None
              | Some (rc, temp_char, i, s) \<Rightarrow>
                Some (if rc \<noteq> 0 then STATUS_UNKNOWN_ERROR else STATUS_SUCCESS, c, q, i, s))"

text \<open>The whole handshake of one side; \<open>q\<close> is the device's state of the new queue pair.\<close>

definition rdma_handshake ::
  "verbs_answers \<Rightarrow> (verb_obj \<Rightarrow> bool) \<Rightarrow> 'd modify \<Rightarrow> local_ids \<Rightarrow> byte list \<Rightarrow> size_t \<Rightarrow> size_t \<Rightarrow>
     rdma_comm \<Rightarrow> verbs \<Rightarrow> 'd \<Rightarrow> in_socket \<Rightarrow> out_socket \<Rightarrow>
     (int \<times> rdma_comm \<times> verbs \<times> 'd \<times> in_socket \<times> out_socket) option" where
  "rdma_handshake a dok ibv_modify_qp l stack local_addr n c v q i s =
     (case create_resource a dok (c\<lparr>region := local_addr, region_size := n\<rparr>) v of (rc, c, v) \<Rightarrow>
        if \<not> IsSuccess rc then Some (rc, c, v, q, i, s)
        else case connect_qp ibv_modify_qp l c stack q i s of
            None \<Rightarrow> None
          | Some (rc, c, q, i, s) \<Rightarrow> Some (rc, c, v, q, i, s))"

section \<open>Byte order and wire format\<close>

lemma le_enc_dec: "length bs = n \<Longrightarrow> le_enc n (le_dec bs) = bs"
proof (induction bs arbitrary: n)
  case (Cons b bs)
  have "unat b < 256" using unsigned_less [of b] by simp
  then have "(unat b + 256 * le_dec bs) div 256 = le_dec bs" by simp
  moreover have "(of_nat (unat b + 256 * le_dec bs) :: byte) = b"
    using \<open>unat b < 256\<close> by (simp only: word_unat_eq_iff unat_of_nat) simp
  ultimately show ?case using Cons by auto
qed simp

lemma le_dec_less: "le_dec bs < 256 ^ length bs"
proof (induction bs)
  case (Cons b bs)
  have "unat b < 256" using unsigned_less [of b] by simp
  then show ?case using Cons by simp
qed simp

lemma swap_bytes_less: "swap_bytes n x < 256 ^ n"
  using le_dec_less [of "rev (le_enc n x)"] by (simp add: swap_bytes_def)

lemma swap_bytes_twice: "x < 256 ^ n \<Longrightarrow> swap_bytes n (swap_bytes n x) = x"
  by (simp add: swap_bytes_def le_enc_dec le_dec_enc)

lemma ntoh_hton:
  "ntohll (htonll a) = a" "ntohl (htonl b) = b" "ntohs (htons c) = c"
proof -
  have "unat a < 256 ^ 8" "unat b < 256 ^ 4" "unat c < 256 ^ 2"
    using unsigned_less [of a] unsigned_less [of b] unsigned_less [of c] by simp_all
  then show "ntohll (htonll a) = a" "ntohl (htonl b) = b" "ntohs (htons c) = c"
    using swap_bytes_less [of 8 "unat a"] swap_bytes_less [of 4 "unat b"] swap_bytes_less [of 2 "unat c"]
    by (simp_all add: ntohll_def htonll_def ntohl_def htonl_def ntohs_def htons_def unat_of_nat
        swap_bytes_twice)
qed

lemma length_con_bytes: "length (cm_gid d) = 16 \<Longrightarrow> length (con_bytes d) = CM_SIZE"
  by (simp add: con_bytes_def CM_SIZE_def)

lemma con_of_con_bytes:
  assumes "length (cm_gid d) = 16"
  shows "con_of_bytes (con_bytes d) = d"
proof -
  have "unat (cm_addr d) < 256 ^ 8" "unat (cm_rkey d) < 256 ^ 4" "unat (cm_qp_num d) < 256 ^ 4"
      "unat (cm_lid d) < 256 ^ 2"
    using unsigned_less [of "cm_addr d"] unsigned_less [of "cm_rkey d"] unsigned_less [of "cm_qp_num d"]
      unsigned_less [of "cm_lid d"] by simp_all
  then show ?thesis
    using assms by (cases d) (simp add: con_of_bytes_def con_bytes_def le_dec_enc)
qed

lemma con_wire_roundtrip:
  "length (cm_gid d) = 16 \<Longrightarrow> con_from_net (con_of_bytes (con_bytes (con_to_net d))) = d"
  by (subst con_of_con_bytes) (simp_all add: con_to_net_def con_from_net_def ntoh_hton)

section \<open>The exchange\<close>

lemma sync_read_whole:
  assumes "in_bytes s = w @ rest" and "length w = n" and "0 < n" and "n \<le> fragment (in_frags s) n"
    and "length mem = n"
  shows "\<exists>s'. sync_read n 0 mem s = Some (0, w, s') \<and> in_bytes s' = rest \<and>
     in_frags s' = tl (in_frags s) \<and> in_end s' = in_end s"
proof -
  have f: "fragment (in_frags s) n = n" using assms(4) fragment_bounds [OF assms(3)] by (metis le_antisym)
  have "recv1 n s = (int n, w, s\<lparr>in_bytes := rest, in_frags := tl (in_frags s)\<rparr>)"
    using assms f by (auto simp: recv1_def Let_def)
  then show ?thesis
    using assms by (subst sync_read.simps) (simp add: sync_read.simps [of n n] splice_def)
qed

lemma sync_read_eof_aux:
  assumes "sync_read n cnt mem s = Some y"
  shows "\<not> (in_bytes s = [] \<and> in_end s = Eof \<and> cnt < n)"
proof (rule sync_read.raw_induct [OF _ assms, of "\<lambda>n cnt mem s y. \<not> (in_bytes s = [] \<and> in_end s = Eof \<and> cnt < n)"])
  fix f n cnt mem s y
  assume "\<And>n cnt mem s y. f n cnt mem s = Some y \<Longrightarrow> \<not> (in_bytes s = [] \<and> in_end s = Eof \<and> cnt < n)"
    and "(if cnt < n
      then (case recv1 n s of (r, bs, s') \<Rightarrow>
              if 0 < r then f n (cnt + nat r) (splice mem 0 bs) s'
              else if r = 0 then f n cnt mem s'
              else Some (r, mem, s'))
      else Some (0, mem, s)) = Some y"
  then show "\<not> (in_bytes s = [] \<and> in_end s = Eof \<and> cnt < n)"
    by (cases y) (fastforce simp: recv1_def)
qed

lemma sync_read_eof: "in_bytes s = [] \<Longrightarrow> in_end s = Eof \<Longrightarrow> cnt < n \<Longrightarrow> sync_read n cnt mem s = None"
  using sync_read_eof_aux by (cases "sync_read n cnt mem s") auto

text \<open>A message of \<open>n\<close> bytes that arrives in two segments, the first of \<open>k\<close> bytes.\<close>

lemma sync_read_split:
  assumes "in_bytes s = w" and "length w = n" and "0 < k" and "k < n" and "in_frags s = [k]"
    and "length mem = n"
  shows "\<exists>s'. sync_read n 0 mem s = Some (0, drop k w @ drop (n - k) (take k w @ drop k mem), s')"
proof -
  let ?s1 = "s\<lparr>in_bytes := drop k w, in_frags := []\<rparr>" and ?s2 = "s\<lparr>in_bytes := [], in_frags := []\<rparr>"
  have one: "recv1 n s = (int k, take k w, ?s1)" and two: "recv1 n ?s1 = (int (n - k), drop k w, ?s2)"
    using assms by (auto simp: recv1_def Let_def fragment_def)
  have "sync_read n 0 mem s = sync_read n k (splice mem 0 (take k w)) ?s1"
    using assms one by (subst sync_read.simps) simp
  also have "\<dots> = sync_read n n (splice (splice mem 0 (take k w)) 0 (drop k w)) ?s2"
    using assms two by (subst sync_read.simps) (simp add: nat_diff_distrib)
  also have "\<dots> = Some (0, splice (splice mem 0 (take k w)) 0 (drop k w), ?s2)"
    by (simp add: sync_read.simps)
  finally show ?thesis using assms by (simp add: splice_def)
qed

lemma send1_whole:
  assumes "out_room s = None" and "bs \<noteq> []" and "length bs \<le> fragment (out_frags s) (length bs)"
  shows "\<exists>s'. send1 bs s = (int (length bs), s') \<and> out_bytes s' = out_bytes s @ bs \<and>
     out_room s' = None \<and> out_frags s' = tl (out_frags s)"
proof -
  have "0 < length bs" using assms(2) by simp
  from fragment_bounds [OF this, of "out_frags s"] assms(3)
  have "fragment (out_frags s) (length bs) = length bs" by linarith
  then show ?thesis using assms(1) by (simp add: send1_def Let_def)
qed

lemma sock_sync_data_sent:
  assumes "out_room s = None" and "local \<noteq> []" and "out_frags s = []" and "length local < 2 ^ 31"
  shows "\<exists>s'. sock_sync_data local mem i s =
       map_option (\<lambda>(rc, mem', i'). (rc, mem', i', s')) (sync_read (length local) 0 mem i) \<and>
     out_bytes s' = out_bytes s @ local \<and> out_room s' = None \<and> out_frags s' = []"
proof -
  obtain s' where "send1 local s = (int (length local), s')" "out_bytes s' = out_bytes s @ local"
      "out_room s' = None" "out_frags s' = []"
    using send1_whole [OF assms(1,2)] assms(3) by (auto simp: fragment_def)
  then show ?thesis by (auto simp: sock_sync_data_def Let_def split: option.split)
qed

section \<open>The objects a communicator holds\<close>

definition handles :: "rdma_comm \<Rightarrow> (verb_obj \<times> nat) list" where
  "handles c =
     concat (map (\<lambda>(k, h). case h of None \<Rightarrow> [] | Some i \<Rightarrow> [(k, i)])
       [(Qp, res_qp c), (Mr, res_mr c), (Cq, res_cq c), (Pd, res_pd c), (Ctx, res_ctx c)])"

lemma handles_simps [simp]:
  "handles (c\<lparr>dev_name := nm\<rparr>) = handles c" "handles (c\<lparr>region := r\<rparr>) = handles c"
  "handles (c\<lparr>region_size := r\<rparr>) = handles c" "handles (c\<lparr>remote_props := p\<rparr>) = handles c"
  by (simp_all add: handles_def)

definition option_handle :: "verb_obj \<Rightarrow> nat option \<Rightarrow> (verb_obj \<times> nat) multiset" where
  "option_handle k h = (case h of None \<Rightarrow> {#} | Some i \<Rightarrow> {#(k, i)#})"

lemma mset_handles:
  "mset (handles c) = option_handle Qp (res_qp c) + option_handle Mr (res_mr c) +
     option_handle Cq (res_cq c) + option_handle Pd (res_pd c) + option_handle Ctx (res_ctx c)"
  by (simp add: handles_def option_handle_def split: option.splits)

lemma release_held:
  "dok k \<Longrightarrow> mset (held (release dok k h v)) = mset (held v) - option_handle k h"
  by (simp add: release_def option_handle_def split: option.splits)

lemma acquire_held: "acquire k v = (i, v') \<Longrightarrow> mset (held v') = add_mset (k, i) (mset (held v))"
  by (auto simp: acquire_def)

lemma destroy_held:
  assumes "\<forall>k. dok k" and "resources_destroy dok c v = (c', v')"
  shows "handles c' = []" and "mset (held v') = mset (held v) - mset (handles c)"
proof -
  show "handles c' = []" using assms(2) by (auto simp: resources_destroy_def Let_def handles_def)
  show "mset (held v') = mset (held v) - mset (handles c)"
    using assms by (auto simp: resources_destroy_def Let_def release_held mset_handles add.assoc)
qed

text \<open>The objects held besides \<open>B\<close> are the communicator's, all five of them or none.\<close>

definition owned :: "(verb_obj \<times> nat) multiset \<Rightarrow> int \<times> rdma_comm \<times> verbs \<Rightarrow> bool" where
  "owned B r \<longleftrightarrow> (case r of (rc, c, v) \<Rightarrow>
     mset (held v) = mset (handles c) + B \<and> length (handles c) = (if rc = STATUS_SUCCESS then 5 else 0))"

lemma create_resource_owned:
  assumes d: "\<forall>k. dok k" and h: "handles c = []"
  shows "owned (mset (held v)) (create_resource a dok c v)"
proof -
  have n: "res_ctx c = None" "res_pd c = None" "res_cq c = None" "res_mr c = None" "res_qp c = None"
    using h by (simp_all add: handles_def split: option.splits)
  show ?thesis
    using d by (simp add: create_resource_def grab_def acquire_def create_exit_def
        resources_destroy_def release_def owned_def handles_def n status_defs Let_def split: option.splits)
qed

section \<open>What a queue pair accepts\<close>

text \<open>
  The documented contract of \<open>ibv_modify_qp\<close> for a reliable connection: from each state, the
  target state and the attributes that must be given.  \<open>obs\<close> reads the state and the peer's
  queue pair number off the device.
\<close>

fun qp_step :: "qp_state \<Rightarrow> (qp_state \<times> qp_flag list) option" where
  "qp_step RESET = Some (INIT, [QP_STATE, QP_PKEY_INDEX, QP_PORT, QP_ACCESS_FLAGS])"
| "qp_step INIT = Some (RTR, [QP_STATE, QP_AV, QP_PATH_MTU, QP_DEST_QPN, QP_RQ_PSN,
     QP_MAX_DEST_RD_ATOMIC, QP_MIN_RNR_TIMER])"
| "qp_step RTR = Some (RTS, [QP_STATE, QP_TIMEOUT, QP_RETRY_CNT, QP_RNR_RETRY, QP_SQ_PSN,
     QP_MAX_QP_RD_ATOMIC])"
| "qp_step _ = None"

definition modify_contract :: "('d \<Rightarrow> qp_state \<times> 32 word) \<Rightarrow> 'd modify \<Rightarrow> bool" where
  "modify_contract obs ibv \<longleftrightarrow>
     (\<forall>q a fs st mask. qp_step (fst (obs q)) = Some (st, mask) \<longrightarrow> attr_state a = st \<longrightarrow>
        set fs = set mask \<longrightarrow>
        fst (ibv q a fs) = 0 \<and>
        obs (snd (ibv q a fs)) = (st, if QP_DEST_QPN \<in> set fs then attr_dest_qp_num a else snd (obs q)))"

lemma modify_to_init:
  assumes "modify_contract obs ibv" and "fst (obs q) = RESET"
  shows "\<exists>q'. modify_qp_to_init ibv c q = (0, q') \<and> fst (obs q') = INIT"
  using assms(1) [unfolded modify_contract_def, rule_format, of q INIT] assms(2)
  by (force simp: modify_qp_to_init_def init_attr_def prod_eq_iff split: prod.split)

lemma modify_to_rtr:
  assumes "modify_contract obs ibv" and "fst (obs q) = INIT"
  shows "\<exists>q'. modify_qp_to_rtr ibv c n lid gid q = (0, q') \<and> obs q' = (RTR, n)"
  using assms(1) [unfolded modify_contract_def, rule_format, of q RTR _ "fst (rtr_attr c n lid gid)"
      "snd (rtr_attr c n lid gid)"] assms(2)
  by (force simp: modify_qp_to_rtr_def rtr_attr_def Let_def prod_eq_iff split: prod.split)

lemma modify_to_rts:
  assumes "modify_contract obs ibv" and "obs q = (RTR, n)"
  shows "\<exists>q'. modify_qp_to_rts ibv q = (0, q') \<and> obs q' = (RTS, n)"
  using assms(1) [unfolded modify_contract_def, rule_format, of q RTS] assms(2)
  by (force simp: modify_qp_to_rts_def rts_attr_def prod_eq_iff split: prod.split)

section \<open>One side of the handshake\<close>

text \<open>The bytes a side puts on the wire before its queue pair is set up.\<close>

definition con_frame :: "rdma_comm \<Rightarrow> local_ids \<Rightarrow> byte list" where
  "con_frame c l = con_bytes (con_to_net (local_con_data c l))"

definition ids_ok :: "rdma_comm \<Rightarrow> local_ids \<Rightarrow> bool" where
  "ids_ok c l \<longleftrightarrow> (0 \<le> gid_idx c \<longrightarrow> gid_rc l = 0 \<and> length (gid_value l) = 16)"

lemma length_con_frame: "ids_ok c l \<Longrightarrow> length (con_frame c l) = CM_SIZE"
  unfolding con_frame_def
  by (rule length_con_bytes) (auto simp: ids_ok_def con_to_net_def local_con_data_def)

lemma con_frame_ne: "con_frame c l \<noteq> []"
proof -
  have "le_enc 8 x \<noteq> []" for x by (simp flip: length_0_conv)
  then show ?thesis by (simp add: con_frame_def con_bytes_def)
qed

lemma con_frame_read:
  assumes "ids_ok c l"
  shows "con_from_net (con_of_bytes (con_frame c l)) = local_con_data c l"
  unfolding con_frame_def using assms
  by (intro con_wire_roundtrip) (auto simp: ids_ok_def local_con_data_def)

lemma connect_qp_one_side:
  assumes ibv: "modify_contract obs ibv" and q: "fst (obs q) = RESET"
    and l: "ids_ok c l" and p: "ids_ok pc pl"
    and i: "in_bytes i = con_frame pc pl @ [81] @ rest" "in_frags i = []"
    and s: "out_room s = None" "out_frags s = []"
    and stack: "length stack = CM_SIZE"
  shows "\<exists>q' i' s'. connect_qp ibv l c stack q i s =
       Some (STATUS_SUCCESS, c\<lparr>remote_props := local_con_data pc pl\<rparr>, q', i', s') \<and>
     obs q' = (RTS, qp_number pl) \<and> out_bytes s' = out_bytes s @ con_frame c l @ [81] \<and>
     in_bytes i' = rest \<and> in_frags i' = [] \<and> out_room s' = None \<and> out_frags s' = []"
proof -
  let ?w = "con_frame c l" and ?p = "con_frame pc pl"
  have len: "length ?w = 34" "length ?p = 34"
    using length_con_frame [OF l] length_con_frame [OF p] by (simp_all add: CM_SIZE_def)
  have whole: "n \<le> fragment [] n" for n by (simp add: fragment_def)
  obtain i1 where i1: "sync_read 34 0 stack i = Some (0, ?p, i1)" "in_bytes i1 = [81] @ rest"
      "in_frags i1 = []"
    using sync_read_whole [of i ?p "[81] @ rest" 34 stack] i len stack whole [of 34] by (auto simp: CM_SIZE_def)
  obtain s1 where s1: "sock_sync_data ?w stack i s = Some (0, ?p, i1, s1)"
      "out_bytes s1 = out_bytes s @ ?w" "out_room s1 = None" "out_frags s1 = []"
    using sock_sync_data_sent [OF s(1) con_frame_ne s(2), of c l stack i] len i1 by auto
  obtain i2 where i2: "sync_read 1 0 [0] i1 = Some (0, [81], i2)" "in_bytes i2 = rest" "in_frags i2 = []"
    using sync_read_whole [of i1 "[81]" rest 1 "[0]"] i1 whole [of 1] by auto
  obtain s2 where s2: "sock_sync_data [81] [0] i1 s1 = Some (0, [81], i2, s2)"
      "out_bytes s2 = out_bytes s1 @ [81]" "out_room s2 = None" "out_frags s2 = []"
    using sock_sync_data_sent [OF s1(3) _ s1(4), of "[81]" "[0]" i1] i2 by auto
  let ?c = "c\<lparr>remote_props := local_con_data pc pl\<rparr>"
  obtain q1 where q1: "modify_qp_to_init ibv ?c q = (0, q1)" "fst (obs q1) = INIT"
    using modify_to_init [OF ibv q] by blast
  obtain q2 where q2: "modify_qp_to_rtr ibv ?c (qp_number pl) (port_lid pl)
      (cm_gid (local_con_data pc pl)) q1 = (0, q2)" "obs q2 = (RTR, qp_number pl)"
    using modify_to_rtr [OF ibv q1(2)] by blast
  obtain q3 where q3: "modify_qp_to_rts ibv q2 = (0, q3)" "obs q3 = (RTS, qp_number pl)"
    using modify_to_rts [OF ibv q2(2)] by blast
  have qpn: "cm_qp_num (local_con_data pc pl) = qp_number pl" "cm_lid (local_con_data pc pl) = port_lid pl"
    by (simp_all add: local_con_data_def)
  have gid: "\<not> (0 \<le> gid_idx c \<and> gid_rc l \<noteq> 0)" using l by (auto simp: ids_ok_def)
  have read: "con_from_net (con_of_bytes ?p) = local_con_data pc pl" using p by (rule con_frame_read)
  have "connect_qp ibv l c stack q i s = Some (STATUS_SUCCESS, ?c, q3, i2, s2)"
    unfolding connect_qp_def if_not_P [OF gid] con_frame_def [symmetric]
    using s1(1) s2(1) q1(1) q2(1) q3(1) by (simp add: Let_def read qpn)
  then show ?thesis using q3(2) s1(2) s2(2-4) i2(2,3) by simp
qed

lemma create_resource_region:
  "create_resource a dok c v = (rc, c', v') \<Longrightarrow>
     region c' = region c \<and> gid_idx c' = gid_idx c \<and> region_size c' = region_size c"
  by (auto simp: create_resource_def grab_def acquire_def create_exit_def resources_destroy_def Let_def
      split: option.splits if_splits)

lemma sync_read_eof_short:
  assumes "in_end s = Eof" and "cnt + length (in_bytes s) < n"
  shows "sync_read n cnt mem s = None"
  using assms
proof (induction "length (in_bytes s)" arbitrary: cnt mem s rule: less_induct)
  case less
  show ?case
  proof (cases "in_bytes s = []")
    case True
    then show ?thesis using less.prems by (simp add: sync_read_eof)
  next
    case False
    obtain k s' where k: "recv1 n s = (int k, take k (in_bytes s), s')" "1 \<le> k" "k \<le> length (in_bytes s)"
        "in_bytes s' = drop k (in_bytes s)" "in_end s' = in_end s"
      using recv1_data [OF False, of n] less.prems by auto
    have "length (in_bytes s') < length (in_bytes s)" "(cnt + k) + length (in_bytes s') < n"
      using k less.prems by auto
    from less.hyps [OF this(1) _ this(2)] show ?thesis
      using k less.prems by (subst sync_read.simps) simp
  qed
qed

text \<open>The handshake reads forward.\<close>

lemma recv1_shorter: "recv1 n s = (r, bs, s') \<Longrightarrow> length (in_bytes s') \<le> length (in_bytes s)"
  by (auto simp: recv1_def Let_def split: if_splits)

lemma sync_read_shorter:
  assumes "sync_read n cnt mem s = Some y"
  shows "length (in_bytes (snd (snd y))) \<le> length (in_bytes s)"
proof (rule sync_read.raw_induct [OF _ assms, of
      "\<lambda>n cnt mem s y. length (in_bytes (snd (snd y))) \<le> length (in_bytes s)"])
  fix f :: "nat \<Rightarrow> nat \<Rightarrow> byte list \<Rightarrow> in_socket \<Rightarrow> (int \<times> byte list \<times> in_socket) option"
    and n cnt mem s y
  assume IH: "\<And>n cnt mem s y. f n cnt mem s = Some y \<Longrightarrow> length (in_bytes (snd (snd y))) \<le> length (in_bytes s)"
    and step: "(if cnt < n
      then (case recv1 n s of (r, bs, s') \<Rightarrow>
              if 0 < r then f n (cnt + nat r) (splice mem 0 bs) s'
              else if r = 0 then f n cnt mem s' else Some (r, mem, s'))
      else Some (0, mem, s)) = Some y"
  obtain r bs s' where r: "recv1 n s = (r, bs, s')" by (metis prod_cases3)
  from step show "length (in_bytes (snd (snd y))) \<le> length (in_bytes s)"
    using recv1_shorter [OF r] by (auto simp: r split: if_splits dest!: IH)
qed

lemma sock_sync_data_shorter:
  "sock_sync_data local mem i s = Some (rc, m, i', s') \<Longrightarrow> length (in_bytes i') \<le> length (in_bytes i)"
  by (auto simp: sock_sync_data_def Let_def split: prod.splits option.splits if_splits
      dest!: sync_read_shorter)

lemma connect_qp_shorter:
  "connect_qp ibv l c stack q i s = Some (rc, c', q', i', s') \<Longrightarrow> length (in_bytes i') \<le> length (in_bytes i)"
  by (fastforce simp: connect_qp_def Let_def split: prod.splits option.splits if_splits
      dest!: sock_sync_data_shorter)

lemma rdma_handshake_shorter:
  "rdma_handshake a dok ibv l stack addr n c v q i s = Some (rc, c', v', q', i', s') \<Longrightarrow>
     length (in_bytes i') \<le> length (in_bytes i)"
  by (auto simp: rdma_handshake_def split: prod.splits option.splits if_splits dest!: connect_qp_shorter)

section \<open>Properties\<close>

text \<open>Creating the resources of a communicator that holds none gives all five verbs objects or, at
  whatever call it fails, none, and the device list is always given back; destroying them
  afterwards leaves the process holding exactly what it held before.\<close>

theorem resources_all_or_none:
  assumes "\<forall>k. dok k" and "handles c = []"
  shows "\<exists>rc c1 v1 c2 v2. create_resource a dok c v = (rc, c1, v1) \<and>
     length (handles c1) = (if rc = STATUS_SUCCESS then 5 else 0) \<and>
     mset (held v1) = mset (handles c1) + mset (held v) \<and>
     resources_destroy dok c1 v1 = (c2, v2) \<and> handles c2 = [] \<and> mset (held v2) = mset (held v)"
proof -
  obtain rc c1 v1 where c1: "create_resource a dok c v = (rc, c1, v1)" by (metis prod_cases3)
  obtain c2 v2 where c2: "resources_destroy dok c1 v1 = (c2, v2)" by fastforce
  have o1: "length (handles c1) = (if rc = STATUS_SUCCESS then 5 else 0)"
      "mset (held v1) = mset (handles c1) + mset (held v)"
    using create_resource_owned [OF assms, of v a] c1 by (simp_all add: owned_def)
  then have "mset (held v2) = mset (held v)" using destroy_held(2) [OF assms(1) c2] by simp
  then show ?thesis using c1 c2 o1 destroy_held(1) [OF assms(1) c2] by blast
qed

definition demo_comm :: rdma_comm where
  "demo_comm = \<lparr>dev_name = ''mlx5_0'', ib_port = 1, gid_idx = -1, region = 0, region_size = 0,
     res_ctx = None, res_pd = None, res_cq = None, res_mr = None, res_qp = None,
     remote_props = con_of_bytes (replicate 34 0)\<rparr>"

definition demo_answers :: verbs_answers where
  "demo_answers = \<lparr>device_names = Some [''mlx5_1'', ''mlx5_0''], open_ok = True, port_ok = True,
     pd_ok = True, cq_ok = True, mr_ok = True, qp_ok = True\<rparr>"

lemma resources_all_or_none_witness:
  "\<exists>rc c1 v1 c2 v2. create_resource (demo_answers\<lparr>mr_ok := False\<rparr>) (\<lambda>_. True) demo_comm
       \<lparr>fresh_id = 9, held = [(Mr, 4)]\<rparr> = (rc, c1, v1) \<and>
     length (handles c1) = (if rc = STATUS_SUCCESS then 5 else 0) \<and>
     mset (held v1) = mset (handles c1) + {#(Mr, 4)#} \<and>
     resources_destroy (\<lambda>_. True) c1 v1 = (c2, v2) \<and> handles c2 = [] \<and> mset (held v2) = {#(Mr, 4)#}"
  using resources_all_or_none [of "\<lambda>_. True" demo_comm "demo_answers\<lparr>mr_ok := False\<rparr>"
      "\<lparr>fresh_id = 9, held = [(Mr, 4)]\<rparr>"]
  by (simp add: demo_comm_def handles_def)

text \<open>C30: When both sides of a connection run the handshake and each reads what the other wrote, both
  return success with their queue pair ready to send: connected to the queue pair number of the
  other side, and knowing its memory region and key, whatever the byte order on the wire.\<close>

theorem handshake_connects_the_pair:
  assumes "modify_contract obs ibv"
    and "create_resource a1 dok (c1\<lparr>region := addr1, region_size := n1\<rparr>) v1 = (STATUS_SUCCESS, d1, w1)"
    and "create_resource a2 dok (c2\<lparr>region := addr2, region_size := n2\<rparr>) v2 = (STATUS_SUCCESS, d2, w2)"
    and "fst (obs q1) = RESET" and "fst (obs q2) = RESET"
    and "ids_ok d1 l1" and "ids_ok d2 l2"
    and "in_bytes i1 = con_frame d2 l2 @ [81] @ r1" and "in_frags i1 = []"
    and "in_bytes i2 = con_frame d1 l1 @ [81] @ r2" and "in_frags i2 = []"
    and "out_room s1 = None" and "out_frags s1 = []" and "out_room s2 = None" and "out_frags s2 = []"
    and "length stack1 = CM_SIZE" and "length stack2 = CM_SIZE"
  shows "\<exists>e1 p1 j1 t1 e2 p2 j2 t2.
     rdma_handshake a1 dok ibv l1 stack1 addr1 n1 c1 v1 q1 i1 s1 = Some (STATUS_SUCCESS, e1, w1, p1, j1, t1) \<and>
     rdma_handshake a2 dok ibv l2 stack2 addr2 n2 c2 v2 q2 i2 s2 = Some (STATUS_SUCCESS, e2, w2, p2, j2, t2) \<and>
     obs p1 = (RTS, qp_number l2) \<and> obs p2 = (RTS, qp_number l1) \<and>
     cm_addr (remote_props e1) = addr2 \<and> cm_addr (remote_props e2) = addr1 \<and>
     cm_rkey (remote_props e1) = mr_rkey l2 \<and> cm_rkey (remote_props e2) = mr_rkey l1 \<and>
     out_bytes t1 = out_bytes s1 @ con_frame d1 l1 @ [81] \<and>
     out_bytes t2 = out_bytes s2 @ con_frame d2 l2 @ [81]"
proof -
  obtain p1 j1 t1 where one: "connect_qp ibv l1 d1 stack1 q1 i1 s1 =
       Some (STATUS_SUCCESS, d1\<lparr>remote_props := local_con_data d2 l2\<rparr>, p1, j1, t1)"
      "obs p1 = (RTS, qp_number l2)" "out_bytes t1 = out_bytes s1 @ con_frame d1 l1 @ [81]"
    using connect_qp_one_side [OF assms(1,4,6,7,8,9,12,13,16)] by auto
  obtain p2 j2 t2 where two: "connect_qp ibv l2 d2 stack2 q2 i2 s2 =
       Some (STATUS_SUCCESS, d2\<lparr>remote_props := local_con_data d1 l1\<rparr>, p2, j2, t2)"
      "obs p2 = (RTS, qp_number l1)" "out_bytes t2 = out_bytes s2 @ con_frame d2 l2 @ [81]"
    using connect_qp_one_side [OF assms(1,5,7,6,10,11,14,15,17)] by auto
  have "region d1 = addr1" "region d2 = addr2"
    using create_resource_region [OF assms(2)] create_resource_region [OF assms(3)] by simp_all
  then show ?thesis
    using one two assms(2,3)
    by (simp add: rdma_handshake_def IsSuccess_def local_con_data_def)
qed

definition demo_ids :: "32 word \<Rightarrow> local_ids" where
  "demo_ids n = \<lparr>gid_rc = 0, gid_value = [], mr_rkey = n + 100, qp_number = n, port_lid = 3\<rparr>"

definition demo_modify :: "(qp_state \<times> 32 word) modify" where
  "demo_modify q a fs =
     (0, (attr_state a, if QP_DEST_QPN \<in> set fs then attr_dest_qp_num a else snd q))"

definition demo_created :: "size_t \<Rightarrow> rdma_comm" where
  "demo_created x = demo_comm\<lparr>region := x, region_size := 64, res_ctx := Some 1, res_pd := Some 2,
     res_cq := Some 3, res_mr := Some 4, res_qp := Some 5\<rparr>"

definition demo_verbs :: verbs where
  "demo_verbs = \<lparr>fresh_id = 6, held = [(Qp, 5), (Mr, 4), (Cq, 3), (Pd, 2), (Ctx, 1)]\<rparr>"

lemma demo_create:
  "create_resource demo_answers (\<lambda>_. True) (demo_comm\<lparr>region := x, region_size := 64\<rparr>)
     \<lparr>fresh_id = 0, held = []\<rparr> = (STATUS_SUCCESS, demo_created x, demo_verbs)"
  by (simp add: create_resource_def demo_answers_def demo_comm_def demo_created_def demo_verbs_def
      acquire_def grab_def release_def pick_device_def Let_def)

lemma demo_contract: "modify_contract id demo_modify"
  by (simp add: modify_contract_def demo_modify_def)

lemma demo_ids_ok: "ids_ok (demo_created x) (demo_ids n)"
  by (simp add: ids_ok_def demo_created_def demo_comm_def)

definition demo_in :: "byte list \<Rightarrow> in_socket" where
  "demo_in bs = \<lparr>in_bytes = bs, in_frags = [], in_end = Eof\<rparr>"

definition demo_out :: out_socket where
  "demo_out = \<lparr>out_bytes = [], out_frags = [], out_room = None, out_end = Fails\<rparr>"

lemma handshake_connects_the_pair_witness:
  "\<exists>e1 p1 j1 t1 e2 p2 j2 t2.
     rdma_handshake demo_answers (\<lambda>_. True) demo_modify (demo_ids 7) (replicate 34 0) 4096 64 demo_comm
       \<lparr>fresh_id = 0, held = []\<rparr> (RESET, 0) (demo_in (con_frame (demo_created 8192) (demo_ids 8) @ [81])) demo_out =
       Some (STATUS_SUCCESS, e1, demo_verbs, p1, j1, t1) \<and>
     rdma_handshake demo_answers (\<lambda>_. True) demo_modify (demo_ids 8) (replicate 34 1) 8192 64 demo_comm
       \<lparr>fresh_id = 0, held = []\<rparr> (RESET, 0) (demo_in (con_frame (demo_created 4096) (demo_ids 7) @ [81])) demo_out =
       Some (STATUS_SUCCESS, e2, demo_verbs, p2, j2, t2) \<and>
     id p1 = (RTS, qp_number (demo_ids 8)) \<and> id p2 = (RTS, qp_number (demo_ids 7)) \<and>
     cm_addr (remote_props e1) = 8192 \<and> cm_addr (remote_props e2) = 4096 \<and>
     cm_rkey (remote_props e1) = mr_rkey (demo_ids 8) \<and> cm_rkey (remote_props e2) = mr_rkey (demo_ids 7) \<and>
     out_bytes t1 = out_bytes demo_out @ con_frame (demo_created 4096) (demo_ids 7) @ [81] \<and>
     out_bytes t2 = out_bytes demo_out @ con_frame (demo_created 8192) (demo_ids 8) @ [81]"
  by (rule handshake_connects_the_pair [OF demo_contract demo_create demo_create, where ?r1.0 = "[]" and ?r2.0 = "[]"])
     (simp_all add: demo_ids_ok demo_in_def demo_out_def CM_SIZE_def)

text \<open>A peer that closes the connection before all of its connection data has arrived hangs this
  side for ever: the end of the stream is not an error of the reading loop.\<close>

theorem closed_peer_hangs_handshake:
  assumes "create_resource a dok (c\<lparr>region := addr, region_size := n\<rparr>) v = (STATUS_SUCCESS, d, w)"
    and "ids_ok d l" and "out_room s = None" and "out_frags s = []"
    and "length (in_bytes i) < CM_SIZE" and "in_end i = Eof"
  shows "rdma_handshake a dok ibv l stack addr n c v q i s = None"
proof -
  have gid: "\<not> (0 \<le> gid_idx d \<and> gid_rc l \<noteq> 0)" using assms(2) by (auto simp: ids_ok_def)
  have "length (con_frame d l) = 34" using length_con_frame [OF assms(2)] by (simp add: CM_SIZE_def)
  moreover have "sync_read 34 0 stack i = None"
    using assms(5,6) by (intro sync_read_eof_short) (simp_all add: CM_SIZE_def)
  ultimately have "sock_sync_data (con_frame d l) stack i s = None"
    using sock_sync_data_sent [OF assms(3) con_frame_ne assms(4), of d l stack i] by auto
  then have "connect_qp ibv l d stack q i s = None"
    unfolding connect_qp_def if_not_P [OF gid] con_frame_def [symmetric] by simp
  then show ?thesis using assms(1) by (simp add: rdma_handshake_def IsSuccess_def)
qed

lemma closed_peer_hangs_handshake_witness:
  "rdma_handshake demo_answers (\<lambda>_. True) demo_modify (demo_ids 7) (replicate 34 0) 4096 64 demo_comm
     \<lparr>fresh_id = 0, held = []\<rparr> (RESET, 0) (demo_in [1, 2, 3]) demo_out = None"
  using closed_peer_hangs_handshake [OF demo_create demo_ids_ok, of demo_out "demo_in [1, 2, 3]"]
  by (simp add: demo_in_def demo_out_def CM_SIZE_def)

end
