(* ===== verification/RdmaTransfer.thy ===== *)
theory RdmaTransfer
  imports RdmaLink
begin

text \<open>
  Moving memory over an RDMA link: \<open>memory_registered\<close>, \<open>post_send\<close>, \<open>post_receive\<close>,
  \<open>poll_completion\<close>, \<open>rdma_write\<close>, \<open>rdma_read\<close>, \<open>rdma_send\<close> and \<open>rdma_recv\<close> of
  \<open>src/communicator/rdma_communicator.cpp\<close>.  The device keeps the requests posted and not yet
  completed, in order, and a script of what the polls will see; what a completed request does
  to the two memories is the parameter \<open>nic\<close>.
\<close>

section \<open>Memory and requests\<close>

type_synonym memory = "size_t \<Rightarrow> byte"

definition RDMA_CHUNK_SIZE :: size_t where "RDMA_CHUNK_SIZE = 1073741824"
definition RDMA_CQ_SIZE :: nat where "RDMA_CQ_SIZE = 100"
definition RDMA_QP_STATE_ABNORMAL :: int where "RDMA_QP_STATE_ABNORMAL = 99"
definition RDMA_SLEEP_MIN_MILLISECONDS :: int where "RDMA_SLEEP_MIN_MILLISECONDS = 25"
definition RDMA_SLEEP_MAX_MILLISECOND :: int where "RDMA_SLEEP_MAX_MILLISECOND = 200"

text \<open>\<open>n\<close> bytes from \<open>src\<close> of one memory to \<open>dst\<close> of another; \<open>memcpy\<close> within one memory.\<close>

definition transfer :: "memory \<Rightarrow> size_t \<Rightarrow> memory \<Rightarrow> size_t \<Rightarrow> nat \<Rightarrow> memory" where
  "transfer target dst source src n =
     (\<lambda>a. if unat (a - dst) < n then source (src + (a - dst)) else target a)"

definition memcpy :: "memory \<Rightarrow> size_t \<Rightarrow> size_t \<Rightarrow> size_t \<Rightarrow> memory result" where
  "memcpy m dst src n =
     (if dst - src < n \<or> src - dst < n then Inl (UB ''memcpy of overlapping memory'')
      else Inr (transfer m dst m src (unat n)))"

datatype opcode = WR_SEND | WR_RDMA_READ | WR_RDMA_WRITE

record send_wr =
  sr_opcode :: opcode
  sge_addr :: size_t
  sge_length :: "32 word"
  sge_lkey :: "32 word"
  sr_remote :: "(size_t \<times> 32 word) option"

record recv_wr =
  rr_addr :: size_t
  rr_length :: "32 word"
  rr_lkey :: "32 word"

text \<open>What one round of the polling loop sees: a completion with its status, an empty queue with the
  answer and the state of \<open>ibv_query_qp\<close>, or a failed poll with result \<open>- e - 1\<close>.\<close>

datatype poll_event = Completion int | Empty int qp_state | PollFailed nat

record device =
  dev_local :: memory
  dev_remote :: memory
  dev_outstanding :: "send_wr list"
  dev_receives :: "recv_wr list"
  dev_post_rc :: "int list"
  dev_polls :: "poll_event list"

type_synonym nic = "send_wr \<Rightarrow> memory \<times> memory \<Rightarrow> memory \<times> memory"

section \<open>Operations\<close>

definition memory_registered :: "rdma_comm \<Rightarrow> size_t \<Rightarrow> size_t \<Rightarrow> bool result" where
  "memory_registered c ptr n =
     (let lower_addr = ptr; upper_addr = lower_addr + n;
          lower_bound = region c; upper_bound = lower_bound + n in
      if lower_bound \<le> lower_addr \<and> upper_addr \<le> upper_bound then Inr True
      else if lower_bound \<le> lower_addr \<and> lower_addr < upper_bound \<and> upper_bound < upper_addr
      then Inl (Fatal ''memory crosses region'')
      else Inr False)"

text \<open>The answer of the verbs call is the next one scripted, 0 when there is none.\<close>

definition post_answer :: "device \<Rightarrow> int \<times> device" where
  "post_answer d = (case dev_post_rc d of [] \<Rightarrow> (0, d) | rc # rcs \<Rightarrow> (rc, d\<lparr>dev_post_rc := rcs\<rparr>))"

definition post_receive :: "rdma_comm \<Rightarrow> 32 word \<Rightarrow> size_t \<Rightarrow> size_t \<Rightarrow> size_t \<Rightarrow> device \<Rightarrow> int \<times> device" where
  "post_receive c lkey mr_addr addr n d =
     (let rr = \<lparr>rr_addr = (if addr = 0 then mr_addr else addr),
                rr_length = ucast (if n = 0 then region_size c else n), rr_lkey = lkey\<rparr> in
      case post_answer d of (rc, d) \<Rightarrow>
        (rc, if rc = 0 then d\<lparr>dev_receives := dev_receives d @ [rr]\<rparr> else d))"

definition send_request ::
  "rdma_comm \<Rightarrow> 32 word \<Rightarrow> opcode \<Rightarrow> size_t \<Rightarrow> size_t \<Rightarrow> 32 word \<Rightarrow> send_wr" where
  "send_request c lkey op addr remote_addr len =
     (let len = (if len = 0 then ucast (region_size c) else len);
          addr = (if addr = 0 then region c else addr);
          remote_addr = (if remote_addr = 0 then cm_addr (remote_props c) else remote_addr)
      in \<lparr>sr_opcode = op, sge_addr = addr, sge_length = len, sge_lkey = lkey,
          sr_remote = (if op \<noteq> WR_SEND then Some (remote_addr, cm_rkey (remote_props c)) else None)\<rparr>)"

definition post_send ::
  "rdma_comm \<Rightarrow> 32 word \<Rightarrow> opcode \<Rightarrow> size_t \<Rightarrow> size_t \<Rightarrow> 32 word \<Rightarrow> device \<Rightarrow> int \<times> device" where
  "post_send c lkey op addr remote_addr len d =
     (let sr = send_request c lkey op addr remote_addr len in
      case post_answer d of (rc, d) \<Rightarrow>
        (rc, if rc = 0 then d\<lparr>dev_outstanding := dev_outstanding d @ [sr]\<rparr> else d))"

text \<open>
  The polling loop: its result, the milliseconds slept, the rest of the script.  \<open>None\<close>: the
  script ends and it is still polling.
\<close>

fun poll_loop :: "int \<Rightarrow> poll_event list \<Rightarrow> (int \<times> int list \<times> poll_event list) option" where
  "poll_loop wait_time [] = None"
| "poll_loop wait_time (PollFailed e # es) = Some (- int e - 1, [], es)"
| "poll_loop wait_time (Completion status # es) = Some (status, [], es)"
| "poll_loop wait_time (Empty qp_ret st # es) =
     (if qp_ret \<noteq> 0 then Some (qp_ret, [], es)
      else if st = RESET \<or> st = ERR \<or> st = UNKNOWN then Some (RDMA_QP_STATE_ABNORMAL, [], es)
      else let next_time = wait_time * 2;
               next_time = (if RDMA_SLEEP_MAX_MILLISECOND < next_time then RDMA_SLEEP_MAX_MILLISECOND else next_time)
        in case poll_loop next_time es of
             None \<Rightarrow> None | Some (rc, sleeps, es) \<Rightarrow> Some (rc, wait_time # sleeps, es))"

text \<open>
  Requests complete in the order they were posted; a successful completion, the only way to
  return 0, is the moment the oldest request has had its effect.
\<close>

definition complete_oldest :: "nic \<Rightarrow> int \<Rightarrow> device \<Rightarrow> device" where
  "complete_oldest nic rc d =
     (if rc \<noteq> 0 then d
      else case dev_outstanding d of [] \<Rightarrow> d
       | wr # wrs \<Rightarrow> (case nic wr (dev_local d, dev_remote d) of (l, r) \<Rightarrow>
           d\<lparr>dev_local := l, dev_remote := r, dev_outstanding := wrs\<rparr>))"

definition poll_completion :: "nic \<Rightarrow> device \<Rightarrow> (int \<times> device) option" where
  "poll_completion nic d =
     (case poll_loop RDMA_SLEEP_MIN_MILLISECONDS (dev_polls d) of None \<Rightarrow> None
      | Some (rc, sleeps, es) \<Rightarrow> Some (rc, complete_oldest nic rc (d\<lparr>dev_polls := es\<rparr>)))"

definition Sync :: "nic \<Rightarrow> device \<Rightarrow> device option result" where
  "Sync nic d =
     (case poll_completion nic d of None \<Rightarrow> Inr None
      | Some (rc, d) \<Rightarrow> if rc \<noteq> 0 then Inl (Fatal ''poll completion failed'') else Inr (Some d))"

definition next_chunk :: "size_t \<Rightarrow> size_t \<Rightarrow> size_t" where
  "next_chunk n pos = (if RDMA_CHUNK_SIZE < n - pos then RDMA_CHUNK_SIZE else n - pos)"

lemma next_chunk_bounds:
  assumes "pos < n"
  shows "0 < unat (next_chunk n pos)" and "unat (next_chunk n pos) \<le> 2 ^ 30"
    and "unat pos + unat (next_chunk n pos) \<le> unat n"
    and "unat (pos + next_chunk n pos) = unat pos + unat (next_chunk n pos)"
proof -
  have d: "unat (n - pos) = unat n - unat pos" "unat pos < unat n"
    using unat_sub [of pos n] assms by (simp_all add: word_less_nat_alt word_le_nat_alt)
  show b: "0 < unat (next_chunk n pos)" "unat (next_chunk n pos) \<le> 2 ^ 30"
      "unat pos + unat (next_chunk n pos) \<le> unat n"
    using d by (auto simp: next_chunk_def RDMA_CHUNK_SIZE_def word_less_nat_alt)
  show "unat (pos + next_chunk n pos) = unat pos + unat (next_chunk n pos)"
    using b(3) unat_size_t_less [of n] by (intro unat_add_small) linarith
qed

text \<open>The posting loop: whether every post succeeded, how many did.\<close>

function post_chunks ::
  "rdma_comm \<Rightarrow> 32 word \<Rightarrow> opcode \<Rightarrow> size_t \<Rightarrow> size_t \<Rightarrow> size_t \<Rightarrow> size_t \<Rightarrow> nat \<Rightarrow> device \<Rightarrow>
     bool \<times> nat \<times> device" where
  "post_chunks c lkey op local_addr remote_addr n pos completions d =
     (if pos < n
      then let k = next_chunk n pos in
        (case post_send c lkey op (local_addr + pos) (remote_addr + pos) (ucast k) d of (rc, d) \<Rightarrow>
           if rc \<noteq> 0 then (False, completions, d)
           else post_chunks c lkey op local_addr remote_addr n (pos + k) (completions + 1) d)
      else (True, completions, d))"
  by pat_completeness auto
termination
proof (relation "measure (\<lambda>(c, lkey, op, la, ra, n, pos, k, d). unat n - unat pos)", goal_cases)
  case (2 c lkey op la ra n pos k d)
  then show ?case using next_chunk_bounds [OF 2(1)] by simp
qed simp

declare post_chunks.simps [simp del]

fun poll_all :: "nic \<Rightarrow> nat \<Rightarrow> device \<Rightarrow> (bool \<times> device) option" where
  "poll_all nic 0 d = Some (True, d)"
| "poll_all nic (Suc k) d =
     (case poll_completion nic d of None \<Rightarrow> None
      | Some (rc, d) \<Rightarrow> if rc \<noteq> 0 then Some (False, d) else poll_all nic k d)"

definition rdma_write ::
  "nic \<Rightarrow> rdma_comm \<Rightarrow> 32 word \<Rightarrow> size_t \<Rightarrow> size_t \<Rightarrow> size_t \<Rightarrow> size_t \<Rightarrow> device \<Rightarrow>
     (bool \<times> device) option result" where
  "rdma_write nic c lkey buf loff roff n d =
     (let local_addr = region c + loff;
          n = (if n = 0 then region_size c else n);
          remote_addr = cm_addr (remote_props c) + roff in
      and_then (memory_registered c buf n) (\<lambda>registered.
      and_then (if registered then Inr (dev_local d) else memcpy (dev_local d) local_addr buf n) (\<lambda>m.
        case post_chunks c lkey WR_RDMA_WRITE local_addr remote_addr n 0 0 (d\<lparr>dev_local := m\<rparr>) of
          (posted, completions, d) \<Rightarrow>
            if \<not> posted then Inr (Some (False, d)) else Inr (poll_all nic completions d))))"

definition rdma_read ::
  "nic \<Rightarrow> rdma_comm \<Rightarrow> 32 word \<Rightarrow> size_t \<Rightarrow> size_t \<Rightarrow> size_t \<Rightarrow> size_t \<Rightarrow> device \<Rightarrow>
     (bool \<times> device) option result" where
  "rdma_read nic c lkey buf loff roff n d =
     (if n \<le> 0 then Inr (Some (False, d))
      else
        let local_addr = region c + loff; remote_addr = cm_addr (remote_props c) + roff in
        case post_chunks c lkey WR_RDMA_READ local_addr remote_addr n 0 0 d of
          (posted, completions, d) \<Rightarrow>
            if \<not> posted then Inr (Some (False, d))
            else case poll_all nic completions d of
              None \<Rightarrow> Inr None
            | Some (False, d) \<Rightarrow> Inr (Some (False, d))
            | Some (True, d) \<Rightarrow>
              and_then (memory_registered c buf n) (\<lambda>registered.
              and_then (if registered then Inr (dev_local d) else memcpy (dev_local d) buf local_addr n)
                (\<lambda>m. Inr (Some (True, d\<lparr>dev_local := m\<rparr>)))))"

text \<open>\<open>strlen\<close>; it does not return in a memory without a zero byte.\<close>

partial_function (option) strlen :: "memory \<Rightarrow> size_t \<Rightarrow> nat \<Rightarrow> nat option" where
  "strlen m a k = (if m (a + of_nat k) = 0 then Some k else strlen m a (Suc k))"

definition rdma_send ::
  "rdma_comm \<Rightarrow> 32 word \<Rightarrow> size_t \<Rightarrow> size_t \<Rightarrow> size_t \<Rightarrow> size_t \<Rightarrow> device \<Rightarrow>
     (bool \<times> device) option result" where
  "rdma_send c lkey buf loff roff n d =
     (let local_addr = region c + loff in
      case (if n = 0 then map_option (\<lambda>k. of_nat k + 1) (strlen (dev_local d) buf 0) else Some n) of
        None \<Rightarrow> Inr None
      | Some n \<Rightarrow>
        let remote_addr = cm_addr (remote_props c) + roff in
        and_then (memory_registered c buf n) (\<lambda>registered.
        and_then (if registered then Inr (dev_local d) else memcpy (dev_local d) local_addr buf n) (\<lambda>m.
          case post_send c lkey WR_SEND local_addr remote_addr (ucast n) (d\<lparr>dev_local := m\<rparr>) of
            (rc, d) \<Rightarrow> Inr (Some (rc = 0, d)))))"

text \<open>The result, the caller's pointer, the device.\<close>

definition rdma_recv ::
  "rdma_comm \<Rightarrow> 32 word \<Rightarrow> size_t \<Rightarrow> size_t \<Rightarrow> size_t \<Rightarrow> size_t \<Rightarrow> size_t \<Rightarrow> device \<Rightarrow>
     bool \<times> size_t \<times> device" where
  "rdma_recv c lkey mr_addr buf loff roff n d =
     (if n = 0 then (False, buf, d)
      else let local_addr = region c + loff in
        case post_receive c lkey mr_addr local_addr n d of
          (rc, d) \<Rightarrow> if rc \<noteq> 0 then (False, buf, d) else (True, local_addr, d))"

section \<open>The requests of a transfer\<close>

text \<open>The chunks from \<open>pos\<close> on, as positions and lengths, and the requests for them.\<close>

function chunks :: "size_t \<Rightarrow> size_t \<Rightarrow> (nat \<times> nat) list" where
  "chunks n pos =
     (if pos < n then (unat pos, unat (next_chunk n pos)) # chunks n (pos + next_chunk n pos) else [])"
  by pat_completeness auto
termination
proof (relation "measure (\<lambda>(n, pos). unat n - unat pos)", goal_cases)
  case (2 n pos)
  then show ?case using next_chunk_bounds [OF 2] by simp
qed simp

declare chunks.simps [simp del]

definition chunk_request ::
  "rdma_comm \<Rightarrow> 32 word \<Rightarrow> opcode \<Rightarrow> size_t \<Rightarrow> size_t \<Rightarrow> nat \<times> nat \<Rightarrow> send_wr" where
  "chunk_request c lkey op la ra ch =
     (case ch of (pos, k) \<Rightarrow> send_request c lkey op (la + of_nat pos) (ra + of_nat pos) (of_nat k))"

lemma chunks_bounds: "(p, k) \<in> set (chunks n pos) \<Longrightarrow> 0 < k \<and> k \<le> 2 ^ 30 \<and> p + k \<le> unat n"
proof (induction n pos rule: chunks.induct)
  case (1 n pos)
  show ?case
  proof (cases "pos < n")
    case True
    then show ?thesis
      using 1 next_chunk_bounds [OF True] by (auto simp: chunks.simps [of n pos])
  next
    case False
    then show ?thesis using 1(2) by (simp add: chunks.simps [of n pos])
  qed
qed

lemma chunks_cover:
  "pos \<le> n \<Longrightarrow> concat (map (\<lambda>(p, k). [p..<p + k]) (chunks n pos)) = [unat pos..<unat n]"
proof (induction n pos rule: chunks.induct)
  case (1 n pos)
  show ?case
  proof (cases "pos < n")
    case True
    note b = next_chunk_bounds [OF True]
    have "pos + next_chunk n pos \<le> n" using b(3,4) by (simp add: word_le_nat_alt)
    from 1(1) [OF True this] show ?thesis
      using True b(3,4) upt_add_eq_append [of "unat pos" "unat pos + unat (next_chunk n pos)"
        "unat n - (unat pos + unat (next_chunk n pos))"]
      by (subst chunks.simps) simp
  next
    case False
    then show ?thesis using 1(2) by (subst chunks.simps) simp
  qed
qed

lemma chunks_number: "pos \<le> n \<Longrightarrow> length (chunks n pos) = (unat n - unat pos + (2 ^ 30 - 1)) div 2 ^ 30"
proof (induction n pos rule: chunks.induct)
  case (1 n pos)
  show ?case
  proof (cases "pos < n")
    case True
    note b = next_chunk_bounds [OF True]
    have d: "unat (n - pos) = unat n - unat pos" "unat pos < unat n"
      using unat_sub [of pos n] True by (simp_all add: word_less_nat_alt word_le_nat_alt)
    have "pos + next_chunk n pos \<le> n" using b(3,4) by (simp add: word_le_nat_alt)
    note len = 1(1) [OF True this]
    show ?thesis
    proof (cases "2 ^ 30 < unat n - unat pos")
      case big: True
      then have "unat (next_chunk n pos) = 2 ^ 30"
        using d by (simp add: next_chunk_def RDMA_CHUNK_SIZE_def word_less_nat_alt)
      then show ?thesis using True len b(4) big by (subst chunks.simps) simp
    next
      case small: False
      then have "unat (next_chunk n pos) = unat n - unat pos"
        using d by (simp add: next_chunk_def RDMA_CHUNK_SIZE_def word_less_nat_alt)
      then show ?thesis using True len b(4) small d by (subst chunks.simps) simp
    qed
  next
    case False
    then show ?thesis using 1(2) by (subst chunks.simps) simp
  qed
qed

lemma post_chunks_posted:
  assumes "post_chunks c lkey op la ra n pos k d = (True, k', d')"
  shows "k' = k + length (chunks n pos) \<and> dev_local d' = dev_local d \<and> dev_remote d' = dev_remote d \<and>
     dev_polls d' = dev_polls d \<and>
     dev_outstanding d' = dev_outstanding d @ map (chunk_request c lkey op la ra) (chunks n pos)"
  using assms
proof (induction c lkey op la ra n pos k d rule: post_chunks.induct)
  case (1 c lkey op la ra n pos k d)
  show ?case
  proof (cases "pos < n")
    case True
    let ?t = "next_chunk n pos"
    obtain rc d1 where p: "post_send c lkey op (la + pos) (ra + pos) (ucast ?t) d = (rc, d1)" by fastforce
    have rc: "rc = 0" and rest: "post_chunks c lkey op la ra n (pos + ?t) (k + 1) d1 = (True, k', d')"
      using 1(2) True p by (auto simp: post_chunks.simps [of c lkey op la ra n pos] Let_def split: if_splits)
    have "(ucast ?t :: 32 word) = of_nat (unat ?t)" by simp
    then have d1: "dev_local d1 = dev_local d" "dev_remote d1 = dev_remote d" "dev_polls d1 = dev_polls d"
        "dev_outstanding d1 = dev_outstanding d @ [chunk_request c lkey op la ra (unat pos, unat ?t)]"
      using p rc by (auto simp: post_send_def post_answer_def chunk_request_def Let_def split: list.splits)
    show ?thesis
      using 1(1) [OF True refl p [symmetric] _ rest] rc d1 True by (simp add: chunks.simps [of n pos])
  next
    case False
    then show ?thesis
      using 1(2) by (simp add: post_chunks.simps [of c lkey op la ra n pos] chunks.simps [of n pos])
  qed
qed

section \<open>What the requests do\<close>

text \<open>
  The documented effect of a completed request: an RDMA write copies local memory to the remote
  address, an RDMA read the other way.
\<close>

definition nic_contract :: "nic \<Rightarrow> bool" where
  "nic_contract nic \<longleftrightarrow>
     (\<forall>wr l r a key. sr_remote wr = Some (a, key) \<longrightarrow>
        (sr_opcode wr = WR_RDMA_WRITE \<longrightarrow>
           nic wr (l, r) = (l, transfer r a l (sge_addr wr) (unat (sge_length wr)))) \<and>
        (sr_opcode wr = WR_RDMA_READ \<longrightarrow>
           nic wr (l, r) = (transfer l (sge_addr wr) r a (unat (sge_length wr)), r)))"

lemma transfer_append:
  assumes "a + b \<le> 2 ^ 64"
  shows "transfer (transfer t d s src a) (d + of_nat a) s (src + of_nat a) b = transfer t d s src (a + b)"
proof (cases "b = 0")
  case True
  then show ?thesis by (simp add: transfer_def)
next
  case False
  then have a: "unat (of_nat a :: size_t) = a" using assms by (intro unat_of_nat_small) simp
  show ?thesis
  proof
    fix x
    let ?y = "x - d"
    have y: "unat ?y < 2 ^ 64" by (rule unat_size_t_less)
    have sub: "unat (x - (d + of_nat a)) = (if a \<le> unat ?y then unat ?y - a else 2 ^ 64 + unat ?y - a)"
    proof (cases "a \<le> unat ?y")
      case True
      then have "unat (?y - of_nat a) = unat ?y - a"
        using unat_sub [of "of_nat a" ?y] a by (simp add: word_le_nat_alt)
      then show ?thesis using True by (simp add: diff_diff_eq)
    next
      case False
      then have "unat (?y - of_nat a) = 2 ^ 64 + unat ?y - a"
        using a by (subst unat_sub_if') (simp add: word_le_nat_alt)
      then show ?thesis using False by (simp add: diff_diff_eq)
    qed
    have src: "src + of_nat a + (x - (d + of_nat a)) = src + ?y" by simp
    show "transfer (transfer t d s src a) (d + of_nat a) s (src + of_nat a) b x = transfer t d s src (a + b) x"
      using assms y unfolding transfer_def sub src by auto
  qed
qed

lemma offset_nonzero:
  fixes la pos :: size_t
  assumes "la \<noteq> 0" and "unat la + unat n \<le> 2 ^ 64" and "pos < n"
  shows "la + pos \<noteq> 0"
proof -
  have "unat la + unat pos < 2 ^ 64" using assms(2,3) by (simp add: word_less_nat_alt)
  then have "unat (la + pos) = unat la + unat pos" by (rule unat_add_small)
  moreover have "unat la \<noteq> 0" using assms(1) by (simp add: unat_eq_zero)
  ultimately show ?thesis by (metis add_eq_0_iff_both_eq_0 unat_0)
qed

lemma chunk_request_fields:
  assumes "la \<noteq> 0" and "ra \<noteq> 0" and "unat la + unat n \<le> 2 ^ 64" and "unat ra + unat n \<le> 2 ^ 64"
    and "pos < n" and "op \<noteq> WR_SEND"
  shows "sr_opcode (chunk_request c lkey op la ra (unat pos, unat (next_chunk n pos))) = op"
    and "sge_addr (chunk_request c lkey op la ra (unat pos, unat (next_chunk n pos))) = la + pos"
    and "unat (sge_length (chunk_request c lkey op la ra (unat pos, unat (next_chunk n pos)))) =
      unat (next_chunk n pos)"
    and "sr_remote (chunk_request c lkey op la ra (unat pos, unat (next_chunk n pos))) =
      Some (ra + pos, cm_rkey (remote_props c))"
proof -
  note b = next_chunk_bounds [OF assms(5)]
  have "unat (of_nat (unat (next_chunk n pos)) :: 32 word) = unat (next_chunk n pos) mod 2 ^ 32"
    by (simp only: unat_of_nat) simp
  then have len: "unat (of_nat (unat (next_chunk n pos)) :: 32 word) = unat (next_chunk n pos)"
    using b(2) by simp
  then have "(of_nat (unat (next_chunk n pos)) :: 32 word) \<noteq> 0" using b(1) by (metis unat_0 less_irrefl)
  then show "sr_opcode (chunk_request c lkey op la ra (unat pos, unat (next_chunk n pos))) = op"
      "sge_addr (chunk_request c lkey op la ra (unat pos, unat (next_chunk n pos))) = la + pos"
      "unat (sge_length (chunk_request c lkey op la ra (unat pos, unat (next_chunk n pos)))) =
        unat (next_chunk n pos)"
      "sr_remote (chunk_request c lkey op la ra (unat pos, unat (next_chunk n pos))) =
        Some (ra + pos, cm_rkey (remote_props c))"
    using assms offset_nonzero [OF assms(1,3,5)] offset_nonzero [OF assms(2,4,5)] len
    by (simp_all add: chunk_request_def send_request_def Let_def)
qed

lemma perform_write:
  assumes "nic_contract nic" and "la \<noteq> 0" and "ra \<noteq> 0"
    and "unat la + unat n \<le> 2 ^ 64" and "unat ra + unat n \<le> 2 ^ 64" and "pos \<le> n"
  shows "fold nic (map (chunk_request c lkey WR_RDMA_WRITE la ra) (chunks n pos))
       (l, transfer r ra l la (unat pos)) = (l, transfer r ra l la (unat n))"
  using assms(4-6)
proof (induction n pos rule: chunks.induct)
  case (1 n pos)
  show ?case
  proof (cases "pos < n")
    case True
    note b = next_chunk_bounds [OF True]
    have "unat pos + unat (next_chunk n pos) \<le> 2 ^ 64" using b(3) unat_size_t_less [of n] by linarith
    from transfer_append [OF this, of r ra l la]
    have "nic (chunk_request c lkey WR_RDMA_WRITE la ra (unat pos, unat (next_chunk n pos)))
        (l, transfer r ra l la (unat pos)) = (l, transfer r ra l la (unat (pos + next_chunk n pos)))"
      using assms(1) chunk_request_fields [OF assms(2,3) 1(2,3) True, of WR_RDMA_WRITE c lkey] b(4)
      by (simp add: nic_contract_def)
    moreover have "pos + next_chunk n pos \<le> n" using b(3,4) by (simp add: word_le_nat_alt)
    ultimately show ?thesis
      using 1(1) [OF True 1(2,3)] True by (subst chunks.simps) simp
  next
    case False
    then show ?thesis using 1(4) by (subst chunks.simps) simp
  qed
qed

lemma perform_read:
  assumes "nic_contract nic" and "la \<noteq> 0" and "ra \<noteq> 0"
    and "unat la + unat n \<le> 2 ^ 64" and "unat ra + unat n \<le> 2 ^ 64" and "pos \<le> n"
  shows "fold nic (map (chunk_request c lkey WR_RDMA_READ la ra) (chunks n pos))
       (transfer l la r ra (unat pos), r) = (transfer l la r ra (unat n), r)"
  using assms(4-6)
proof (induction n pos rule: chunks.induct)
  case (1 n pos)
  show ?case
  proof (cases "pos < n")
    case True
    note b = next_chunk_bounds [OF True]
    have "unat pos + unat (next_chunk n pos) \<le> 2 ^ 64" using b(3) unat_size_t_less [of n] by linarith
    from transfer_append [OF this, of l la r ra]
    have "nic (chunk_request c lkey WR_RDMA_READ la ra (unat pos, unat (next_chunk n pos)))
        (transfer l la r ra (unat pos), r) = (transfer l la r ra (unat (pos + next_chunk n pos)), r)"
      using assms(1) chunk_request_fields [OF assms(2,3) 1(2,3) True, of WR_RDMA_READ c lkey] b(4)
      by (simp add: nic_contract_def)
    moreover have "pos + next_chunk n pos \<le> n" using b(3,4) by (simp add: word_le_nat_alt)
    ultimately show ?thesis
      using 1(1) [OF True 1(2,3)] True by (subst chunks.simps) simp
  next
    case False
    then show ?thesis using 1(4) by (subst chunks.simps) simp
  qed
qed

lemma poll_completion_effect:
  assumes "poll_completion nic d = Some (0, d')"
  shows "(dev_local d', dev_remote d') = fold nic (take 1 (dev_outstanding d)) (dev_local d, dev_remote d) \<and>
     dev_outstanding d' = drop 1 (dev_outstanding d)"
  using assms
  by (auto simp: poll_completion_def complete_oldest_def split: option.splits prod.splits list.splits)

lemma poll_all_effect:
  assumes "poll_all nic k d = Some (True, d')"
  shows "(dev_local d', dev_remote d') = fold nic (take k (dev_outstanding d)) (dev_local d, dev_remote d) \<and>
     dev_outstanding d' = drop k (dev_outstanding d)"
  using assms
proof (induction k arbitrary: d)
  case (Suc k)
  then obtain d1 where d1: "poll_completion nic d = Some (0, d1)" "poll_all nic k d1 = Some (True, d')"
    by (auto split: option.splits if_splits)
  have "take (Suc k) xs = take 1 xs @ take k (drop 1 xs)" for xs :: "send_wr list"
    by (cases xs) simp_all
  then show ?case
    using Suc.IH [OF d1(2)] poll_completion_effect [OF d1(1)] by (simp add: fold_append)
qed simp

section \<open>Properties\<close>

text \<open>Where addresses do not wrap, a block counts as registered only if it starts exactly at the
  memory region: the upper bound is computed from the size asked for, not from the size of the
  region, so every block that starts further inside ends the process or is copied.\<close>

theorem registered_only_at_start:
  assumes "0 < n" and "unat (region c) + unat n < 2 ^ 64" and "unat ptr + unat n < 2 ^ 64"
  shows "memory_registered c ptr n =
     (if ptr = region c then Inr True
      else if region c < ptr \<and> ptr < region c + n then Inl (Fatal ''memory crosses region'')
      else Inr False)"
proof -
  have "unat (region c + n) = unat (region c) + unat n" "unat (ptr + n) = unat ptr + unat n"
    using assms by (simp_all add: unat_add_small)
  then show ?thesis
    using assms(1) by (auto simp: memory_registered_def Let_def word_le_nat_alt word_less_nat_alt
        word_unat_eq_iff)
qed

definition demo_nic :: nic where
  "demo_nic wr lr = (case lr of (l, r) \<Rightarrow>
     (case (sr_opcode wr, sr_remote wr) of
        (WR_RDMA_WRITE, Some (a, key)) \<Rightarrow> (l, transfer r a l (sge_addr wr) (unat (sge_length wr)))
      | (WR_RDMA_READ, Some (a, key)) \<Rightarrow> (transfer l (sge_addr wr) r a (unat (sge_length wr)), r)
      | _ \<Rightarrow> (l, r)))"

lemma demo_nic_contract: "nic_contract demo_nic"
  by (simp add: nic_contract_def demo_nic_def)

definition linked_comm :: rdma_comm where
  "linked_comm = (demo_created 4096)\<lparr>remote_props := local_con_data (demo_created 8192) (demo_ids 8)\<rparr>"

lemma linked_comm_simps [simp]:
  "region linked_comm = 4096" "region_size linked_comm = 64" "cm_addr (remote_props linked_comm) = 8192"
  by (simp_all add: linked_comm_def demo_created_def local_con_data_def)

lemma registered_only_at_start_witness:
  "memory_registered linked_comm 4100 64 = Inl (Fatal ''memory crosses region'')"
  using registered_only_at_start [of 64 linked_comm 4100] by simp

text \<open>What a transfer leaves outstanding and in the memories, in terms of the posted chunks.\<close>

lemma chunks_posted_and_polled:
  assumes "post_chunks c lkey op la ra n 0 0 d = (True, k, d1)" and "poll_all nic k d1 = Some (True, d2)"
    and "dev_outstanding d = []"
  shows "(dev_local d2, dev_remote d2) =
       fold nic (map (chunk_request c lkey op la ra) (chunks n 0)) (dev_local d, dev_remote d) \<and>
     dev_outstanding d2 = []"
  using post_chunks_posted [OF assms(1)] poll_all_effect [OF assms(2)] assms(3) by simp

lemma rdma_write_effect:
  assumes "nic_contract nic" and "dev_outstanding d = []"
    and "rdma_write nic c lkey buf 0 roff n d = Inr (Some (True, d'))"
    and "0 < n" and "region c \<noteq> 0" and "cm_addr (remote_props c) + roff \<noteq> 0"
    and "unat (region c) + unat n < 2 ^ 64" and "unat buf + unat n < 2 ^ 64"
    and "unat (cm_addr (remote_props c) + roff) + unat n \<le> 2 ^ 64"
  shows "dev_remote d' = transfer (dev_remote d) (cm_addr (remote_props c) + roff) (dev_local d) buf (unat n)
     \<and> dev_outstanding d' = []"
proof -
  let ?la = "region c" and ?ra = "cm_addr (remote_props c) + roff"
  have "n \<noteq> 0" using assms(4) by auto
  then obtain reg m where reg: "memory_registered c buf n = Inr reg"
      "(if reg then Inr (dev_local d) else memcpy (dev_local d) ?la buf n) = Inr m"
      "(case post_chunks c lkey WR_RDMA_WRITE ?la ?ra n 0 0 (d\<lparr>dev_local := m\<rparr>) of
          (posted, completions, d) \<Rightarrow>
            if \<not> posted then Inr (Some (False, d)) else Inr (poll_all nic completions d)) =
        (Inr (Some (True, d')) :: (bool \<times> device) option result)"
    using assms(3) by (auto simp: rdma_write_def Let_def and_then_Inr_iff)
  from reg(3) obtain k d1 where d1: "post_chunks c lkey WR_RDMA_WRITE ?la ?ra n 0 0 (d\<lparr>dev_local := m\<rparr>) = (True, k, d1)"
      "poll_all nic k d1 = Some (True, d')"
    by (auto split: prod.splits if_splits)
  have "transfer (dev_remote d) ?ra m ?la (unat 0) = dev_remote d" by (simp add: transfer_def)
  then have "dev_remote d' = transfer (dev_remote d) ?ra m ?la (unat n)" "dev_outstanding d' = []"
    using chunks_posted_and_polled [OF d1] assms(2)
      perform_write [OF assms(1,5,6) _ assms(9), of 0 c lkey m "dev_remote d"] assms(7) by simp_all
  moreover have "transfer r ?ra m ?la (unat n) = transfer r ?ra (dev_local d) buf (unat n)" for r
  proof (cases reg)
    case True
    then have "buf = ?la" "m = dev_local d"
      using reg registered_only_at_start [OF assms(4,7,8)] by (auto split: if_splits)
    then show ?thesis by simp
  next
    case False
    then have "m = transfer (dev_local d) ?la (dev_local d) buf (unat n)"
      using reg(2) by (simp add: memcpy_def split: if_splits)
    then show ?thesis by (auto simp: transfer_def)
  qed
  ultimately show ?thesis by simp
qed

text \<open>C29: An RDMA write that returns true, on a connection with nothing outstanding, has placed the
  caller's bytes at the remote address: every chunk of them, in memory that is registered and in
  memory that is not, and nothing else of the remote memory has changed.\<close>

theorem rdma_write_delivers:
  assumes "nic_contract nic" and "dev_outstanding d = []"
    and "rdma_write nic c lkey buf 0 roff n d = Inr (Some (True, d'))"
    and "0 < n" and "region c \<noteq> 0" and "cm_addr (remote_props c) + roff \<noteq> 0"
    and "unat (region c) + unat n < 2 ^ 64" and "unat buf + unat n < 2 ^ 64"
    and "unat (cm_addr (remote_props c) + roff) + unat n \<le> 2 ^ 64"
  shows "dev_remote d' = transfer (dev_remote d) (cm_addr (remote_props c) + roff) (dev_local d) buf (unat n)
     \<and> dev_outstanding d' = []"
  using assms by (rule rdma_write_effect)

definition demo_device :: "(size_t \<Rightarrow> byte) \<Rightarrow> device" where
  "demo_device l = \<lparr>dev_local = l, dev_remote = (\<lambda>a. 0), dev_outstanding = [], dev_receives = [],
     dev_post_rc = [], dev_polls = [Empty 0 RTS, Completion 0]\<rparr>"

definition demo_sent :: "size_t \<Rightarrow> device" where
  "demo_sent buf = (let l = (\<lambda>a. ucast a) in (demo_device l)\<lparr>
     dev_local := transfer l 4096 l buf 3,
     dev_remote := transfer (\<lambda>a. 0) 8192 (transfer l 4096 l buf 3) 4096 3, dev_polls := []\<rparr>)"

lemma demo_write:
  "rdma_write demo_nic linked_comm 9 5000 0 0 3 (demo_device ucast) = Inr (Some (True, demo_sent 5000))"
  by (simp add: rdma_write_def memory_registered_def memcpy_def post_chunks.simps post_send_def
      post_answer_def send_request_def next_chunk_def RDMA_CHUNK_SIZE_def demo_device_def demo_sent_def
      poll_completion_def complete_oldest_def demo_nic_def Let_def)

lemma rdma_write_delivers_witness:
  "dev_remote (demo_sent 5000) = transfer (\<lambda>a. 0) 8192 ucast 5000 3 \<and> dev_outstanding (demo_sent 5000) = []"
  using rdma_write_delivers [OF demo_nic_contract _ demo_write] by (simp add: demo_device_def)

lemma rdma_read_effect:
  assumes "nic_contract nic" and "dev_outstanding d = []"
    and "rdma_read nic c lkey buf 0 roff n d = Inr (Some (True, d'))"
    and "region c \<noteq> 0" and "cm_addr (remote_props c) + roff \<noteq> 0"
    and "unat (region c) + unat n < 2 ^ 64" and "unat buf + unat n < 2 ^ 64"
    and "unat (cm_addr (remote_props c) + roff) + unat n \<le> 2 ^ 64" and "i < n"
  shows "dev_local d' (buf + i) = dev_remote d (cm_addr (remote_props c) + roff + i)"
proof -
  let ?la = "region c" and ?ra = "cm_addr (remote_props c) + roff"
  have n: "0 < n" using assms(9) by (rule le_less_trans [OF word_zero_le])
  then have "n \<noteq> 0" by auto
  obtain k d1 where d1: "post_chunks c lkey WR_RDMA_READ ?la ?ra n 0 0 d = (True, k, d1)"
    using assms(3) \<open>n \<noteq> 0\<close> by (auto simp: rdma_read_def Let_def split: prod.splits if_splits)
  obtain d2 where d2: "poll_all nic k d1 = Some (True, d2)"
    using assms(3) \<open>n \<noteq> 0\<close> d1 by (auto simp: rdma_read_def Let_def split: prod.splits if_splits option.splits bool.splits)
  obtain reg m where reg: "memory_registered c buf n = Inr reg"
      "(if reg then Inr (dev_local d2) else memcpy (dev_local d2) buf ?la n) = Inr m"
      "d' = d2\<lparr>dev_local := m\<rparr>"
    using assms(3) \<open>n \<noteq> 0\<close> d1 d2 by (auto simp: rdma_read_def Let_def and_then_Inr_iff)
  have "transfer (dev_local d) ?la (dev_remote d) ?ra (unat 0) = dev_local d" by (simp add: transfer_def)
  then have l2: "dev_local d2 = transfer (dev_local d) ?la (dev_remote d) ?ra (unat n)"
    using chunks_posted_and_polled [OF d1 d2 assms(2)]
      perform_read [OF assms(1,4,5) _ assms(8), of 0 c lkey "dev_local d" "dev_remote d"] assms(6) by simp
  have i: "unat i < unat n" using assms(9) by (simp add: word_less_nat_alt)
  show ?thesis
  proof (cases reg)
    case True
    then have "buf = ?la" "m = dev_local d2"
      using reg registered_only_at_start [OF n assms(6,7)] by (auto split: if_splits)
    then show ?thesis using l2 reg(3) i by (simp add: transfer_def)
  next
    case False
    then have "m = transfer (dev_local d2) buf (dev_local d2) ?la (unat n)"
      using reg(2) by (simp add: memcpy_def split: if_splits)
    then show ?thesis using l2 reg(3) i by (simp add: transfer_def)
  qed
qed

text \<open>C35: An RDMA read that returns true, on a connection with nothing outstanding, leaves the remote
  bytes in the caller's memory, whether that is the memory region or somewhere else.\<close>

theorem rdma_read_delivers:
  assumes "nic_contract nic" and "dev_outstanding d = []"
    and "rdma_read nic c lkey buf 0 roff n d = Inr (Some (True, d'))"
    and "region c \<noteq> 0" and "cm_addr (remote_props c) + roff \<noteq> 0"
    and "unat (region c) + unat n < 2 ^ 64" and "unat buf + unat n < 2 ^ 64"
    and "unat (cm_addr (remote_props c) + roff) + unat n \<le> 2 ^ 64" and "i < n"
  shows "dev_local d' (buf + i) = dev_remote d (cm_addr (remote_props c) + roff + i)"
  using assms by (rule rdma_read_effect)

definition demo_received :: device where
  "demo_received = (let r = (\<lambda>a. ucast a) in (demo_device (\<lambda>a. 0))\<lparr>dev_remote := r,
     dev_local := transfer (transfer (\<lambda>a. 0) 4096 r 8192 3) 5000 (transfer (\<lambda>a. 0) 4096 r 8192 3) 4096 3,
     dev_polls := []\<rparr>)"

lemma demo_read:
  "rdma_read demo_nic linked_comm 9 5000 0 0 3 ((demo_device (\<lambda>a. 0))\<lparr>dev_remote := ucast\<rparr>) =
     Inr (Some (True, demo_received))"
  by (simp add: rdma_read_def memory_registered_def memcpy_def post_chunks.simps post_send_def
      post_answer_def send_request_def next_chunk_def RDMA_CHUNK_SIZE_def demo_device_def demo_received_def
      poll_completion_def complete_oldest_def demo_nic_def Let_def)

lemma rdma_read_delivers_witness: "dev_local demo_received 5002 = ucast (8194 :: size_t)"
  using rdma_read_delivers [OF demo_nic_contract _ demo_read, of 2] by (simp add: demo_device_def)

lemma ceiling_div_le:
  fixes q :: nat
  assumes "0 < q"
  shows "(x + (q - 1)) div q \<le> k \<longleftrightarrow> x \<le> k * q"
proof -
  have "(x + (q - 1)) div q \<le> k \<longleftrightarrow> x + (q - 1) < Suc k * q"
    using div_less_iff_less_mult [OF assms, of "x + (q - 1)" "Suc k"] by (simp add: less_Suc_eq_le)
  also have "\<dots> \<longleftrightarrow> x \<le> k * q" using assms by simp linarith
  finally show ?thesis .
qed


text \<open>Polls of an empty queue of a working queue pair.\<close>

definition idle :: "poll_event \<Rightarrow> bool" where
  "idle e = (case e of Empty rc st \<Rightarrow> rc = 0 \<and> st \<notin> {RESET, ERR, UNKNOWN} | _ \<Rightarrow> False)"

definition backoff :: "nat \<Rightarrow> int" where
  "backoff i = min 200 (25 * 2 ^ i)"

lemma backoff_next:
  "(if RDMA_SLEEP_MAX_MILLISECOND < backoff i * 2 then RDMA_SLEEP_MAX_MILLISECOND else backoff i * 2) =
     backoff (Suc i)"
  by (auto simp: backoff_def RDMA_SLEEP_MAX_MILLISECOND_def min_def)

lemma poll_loop_backoff:
  "list_all idle es \<Longrightarrow> poll_loop (backoff j) (es @ Completion st # rest) =
     Some (st, map (\<lambda>i. backoff (j + i)) [0..<length es], rest)"
proof (induction es arbitrary: j)
  case (Cons e es)
  then obtain q where e: "e = Empty 0 q" "q \<notin> {RESET, ERR, UNKNOWN}"
    by (cases e) (auto simp: idle_def)
  have "map (\<lambda>i. backoff (j + i)) [0..<Suc (length es)] =
      backoff j # map (\<lambda>i. backoff (Suc j + i)) [0..<length es]"
    by (simp only: upt_conv_Cons map_upt_Suc) (simp add: upt_conv_Cons map_Suc_upt [symmetric] del: upt_Suc)
  then show ?case
    using Cons.IH [of "Suc j"] Cons.prems e
    by (simp only: poll_loop.simps Let_def append_Cons backoff_next) simp
qed simp

text \<open>Waiting for a completion that comes after any number of polls of an empty queue of a working
  queue pair, the loop returns the status of that completion; it sleeps 25, 50, 100 and then 200
  milliseconds between polls, never longer.\<close>

theorem poll_completion_waits:
  assumes "list_all idle es" and "dev_polls d = es @ Completion st # rest"
  shows "poll_loop RDMA_SLEEP_MIN_MILLISECONDS (dev_polls d) =
       Some (st, map (\<lambda>i. min 200 (25 * 2 ^ i)) [0..<length es], rest) \<and>
     map_option fst (poll_completion nic d) = Some st"
  using poll_loop_backoff [OF assms(1), of 0 st rest] assms(2)
  by (simp add: backoff_def RDMA_SLEEP_MIN_MILLISECONDS_def poll_completion_def)

lemma poll_completion_waits_witness:
  "poll_loop RDMA_SLEEP_MIN_MILLISECONDS [Empty 0 RTS, Empty 0 RTS, Empty 0 INIT, Empty 0 RTS, Completion 12] =
     Some (12, [25, 50, 100, 200], []) \<and>
   map_option fst (poll_completion demo_nic ((demo_device (\<lambda>a. 0))\<lparr>dev_polls :=
     [Empty 0 RTS, Empty 0 RTS, Empty 0 INIT, Empty 0 RTS, Completion 12]\<rparr>)) = Some 12"
  using poll_completion_waits [of "[Empty 0 RTS, Empty 0 RTS, Empty 0 INIT, Empty 0 RTS]"
      "(demo_device (\<lambda>a. 0))\<lparr>dev_polls := [Empty 0 RTS, Empty 0 RTS, Empty 0 INIT, Empty 0 RTS, Completion 12]\<rparr>" 12 "[]"]
  by (simp add: idle_def upt_rec)

end
