(* ===== verification/Nic.thy ===== *)
theory Nic
  imports Text RdmaLink "HOL-Library.List_Lexorder" "HOL-Library.Char_ord"
begin

text \<open>
  Choosing a network card and setting up a communicator: \<open>MultiNicHelper\<close> of
  \<open>src/util/nic_helper.cpp\<close>, \<open>Endpoint\<close> and \<open>EndpointFactory\<close> of
  \<open>include/communicator/endpoint.h\<close>, and the constructor, the destructor, \<open>Serve\<close> and \<open>Connect\<close> of
  \<open>RdmaCommunicator\<close>.  A \<open>std::map\<close> is an association list sorted by its keys.
\<close>

section \<open>Sorted maps\<close>

fun map_update :: "'k::linorder \<Rightarrow> ('v \<Rightarrow> 'v) \<Rightarrow> 'v \<Rightarrow> ('k \<times> 'v) list \<Rightarrow> ('k \<times> 'v) list" where
  "map_update k f dflt [] = [(k, f dflt)]"
| "map_update k f dflt ((k', v) # m) =
     (if k = k' then (k', f v) # m
      else if k < k' then (k, f dflt) # (k', v) # m
      else (k', v) # map_update k f dflt m)"

lemma map_of_map_update:
  "sorted_wrt (<) (map fst m) \<Longrightarrow>
     map_of (map_update k f dflt m) =
       (map_of m)(k \<mapsto> f (case map_of m k of None \<Rightarrow> dflt | Some v \<Rightarrow> v))"
proof (induction m)
  case (Cons p m)
  obtain k' v where p: "p = (k', v)" by fastforce
  have "k < k' \<Longrightarrow> map_of m k = None"
    using Cons.prems p by (force simp: map_of_eq_None_iff)
  then show ?case using Cons p by (auto simp: fun_eq_iff)
qed simp

lemma keys_map_update: "fst ` set (map_update k f dflt m) = insert k (fst ` set m)"
proof (induction m)
  case (Cons p m)
  then show ?case by (cases p) (simp add: insert_commute)
qed simp

lemma sorted_map_update:
  "sorted_wrt (<) (map fst m) \<Longrightarrow> sorted_wrt (<) (map fst (map_update k f dflt m))"
proof (induction m)
  case (Cons p m)
  obtain k' v where p: "p = (k', v)" by fastforce
  have "set (map fst (map_update k f dflt m)) = insert k (set (map fst m))"
    using keys_map_update [of k f dflt m] by simp
  then show ?case using Cons p by (auto simp del: set_map)
qed simp

section \<open>Network cards\<close>

record nic_helper =
  nics :: "string list"
  busy :: "(string \<times> 32 word) list"

text \<open>What the verbs library says of one device: its ports as query result, active, link layer.\<close>

record ib_device =
  ib_name :: string
  ib_opens :: bool
  ib_queries :: bool
  ib_ports :: "(bool \<times> bool \<times> int) list"

fun scan_ports :: "string \<Rightarrow> (bool \<times> bool \<times> int) list \<Rightarrow> nic_helper \<Rightarrow> nic_helper result" where
  "scan_ports name [] h = Inr h"
| "scan_ports name ((ok, active, layer) # ps) h =
     (if \<not> ok then Inl (Fatal ''ibv_query_port'')
      else if \<not> active then scan_ports name ps h
      else if layer \<noteq> 1 then scan_ports name ps h
      else scan_ports name ps
        (h\<lparr>nics := nics h @ [name], busy := map_update name (\<lambda>_. 0) 0 (busy h)\<rparr>))"

fun scan_devices :: "ib_device list \<Rightarrow> nic_helper \<Rightarrow> nic_helper result" where
  "scan_devices [] h = Inr h"
| "scan_devices (d # ds) h =
     (if \<not> ib_opens d then Inl (Fatal ''ibv_open_device'')
      else if \<not> ib_queries d then Inl (Fatal ''ibv_query_device'')
      else and_then (scan_ports (ib_name d) (ib_ports d) h) (scan_devices ds))"

definition MultiNicHelper_new :: "ib_device list option \<Rightarrow> nic_helper result" where
  "MultiNicHelper_new dev_list =
     (case dev_list of None \<Rightarrow> Inl (Fatal ''failed to get IB devices list'')
      | Some ds \<Rightarrow> if ds = [] then Inr \<lparr>nics = [], busy = []\<rparr>
                   else scan_devices ds \<lparr>nics = [], busy = []\<rparr>)"

fun choose_loop :: "(string \<times> 32 word) list \<Rightarrow> string \<Rightarrow> 32 word \<Rightarrow> string" where
  "choose_loop [] res mn = res"
| "choose_loop ((name, n) # m) res mn =
     (if n = 0 then name
      else if n < mn then choose_loop m name n
      else choose_loop m res mn)"

definition ChooseNic :: "nic_helper \<Rightarrow> string \<times> nic_helper" where
  "ChooseNic h =
     (let res = choose_loop (busy h) [] 1024 in
      (res, h\<lparr>busy := map_update res (\<lambda>n. n + 1) 0 (busy h)\<rparr>))"

definition ReleaseNic :: "string \<Rightarrow> nic_helper \<Rightarrow> nic_helper" where
  "ReleaseNic name h = h\<lparr>busy := map_update name (\<lambda>n. n - 1) 0 (busy h)\<rparr>"

section \<open>Endpoints\<close>

record endpoint =
  ep_addr :: string
  ep_port :: "16 word"

definition endpoint_string :: "endpoint \<Rightarrow> string" where
  "endpoint_string e = ep_addr e @ '':'' @ to_string (uint (ep_port e))"

definition endpoint_eq :: "endpoint \<Rightarrow> endpoint \<Rightarrow> bool" where
  "endpoint_eq a b \<longleftrightarrow> endpoint_string a = endpoint_string b"

definition setAddr :: "string \<Rightarrow> endpoint \<Rightarrow> endpoint" where
  "setAddr a e = e\<lparr>ep_addr := a\<rparr>"

definition getEndpoint :: "(string \<rightharpoonup> string) \<Rightarrow> string \<Rightarrow> endpoint result" where
  "getEndpoint env comm_type =
     (let tcp_port = atoi (GetEnv env ''CKPT_ENGINE_TCP_PORT'' (Some ''18080''));
          http_port = atoi (GetEnv env ''CKPT_ENGINE_HTTP_PORT'' (Some ''15345'')) in
      if comm_type = ''rdma'' then Inr \<lparr>ep_addr = ''0.0.0.0'', ep_port = word_of_int tcp_port\<rparr>
      else if comm_type = ''http'' then Inr \<lparr>ep_addr = ''0.0.0.0'', ep_port = word_of_int http_port\<rparr>
      else Inl (Fatal ''communication type unsupported''))"

section \<open>Communicators\<close>

record communicator =
  c_ep :: endpoint
  c_fd :: int
  c_link :: rdma_comm

definition zero_con :: cm_con_data where
  "zero_con = \<lparr>cm_addr = 0, cm_rkey = 0, cm_qp_num = 0, cm_lid = 0, cm_gid = replicate 16 0\<rparr>"

text \<open>The members \<open>region_\<close> and \<open>size_\<close> are set by the handshake.\<close>

definition RdmaCommunicator_new :: "endpoint \<Rightarrow> int \<Rightarrow> nic_helper \<Rightarrow> communicator \<times> nic_helper" where
  "RdmaCommunicator_new ep fd h =
     (case ChooseNic h of (name, h) \<Rightarrow>
        (\<lparr>c_ep = ep, c_fd = fd,
          c_link = \<lparr>dev_name = name, ib_port = 1, gid_idx = -1, region = 0, region_size = 0,
            res_ctx = None, res_pd = None, res_cq = None, res_mr = None, res_qp = None,
            remote_props = zero_con\<rparr>\<rparr>, h))"

text \<open>The descriptors shut down and closed are returned as a list.\<close>

definition RdmaCommunicator_delete ::
  "(verb_obj \<Rightarrow> bool) \<Rightarrow> communicator \<Rightarrow> verbs \<Rightarrow> nic_helper \<Rightarrow> int list \<times> verbs \<times> nic_helper" where
  "RdmaCommunicator_delete dok c v h =
     (case resources_destroy dok (c_link c) v of (l, v) \<Rightarrow>
        ([c_fd c], v, ReleaseNic (dev_name l) h))"

text \<open>\<open>Serve\<close> and \<open>Connect\<close> with the results of the system calls they make.\<close>

record socket_calls =
  r_socket :: int
  r_setsockopt :: int
  r_bind :: int
  r_listen :: int
  r_inet_pton :: int
  r_connect :: int

definition Serve :: "socket_calls \<Rightarrow> communicator \<Rightarrow> communicator result" where
  "Serve s c =
     (let c = c\<lparr>c_fd := r_socket s\<rparr> in
      if c_fd c < 0 then Inl (Fatal ''cannot create socket'')
      else if r_setsockopt s < 0 then Inl (Fatal ''cannot set socket option'')
      else if r_bind s \<noteq> 0 then Inl (Fatal ''cannot bind socket'')
      else if r_listen s < 0 then Inl (Fatal ''cannot listen from socket'')
      else Inr c)"

definition Connect :: "socket_calls \<Rightarrow> communicator \<Rightarrow> (bool \<times> communicator) result" where
  "Connect s c =
     (let c = c\<lparr>c_fd := r_socket s\<rparr> in
      if c_fd c \<le> 0 then Inl (Fatal ''cannot create socket'')
      else if r_inet_pton s \<le> 0 then Inl (Fatal ''invalid server address'')
      else if r_connect s \<noteq> 0 then Inr (False, c)
      else Inr (True, c))"

definition comm_close :: "(verb_obj \<Rightarrow> bool) \<Rightarrow> communicator \<Rightarrow> verbs \<Rightarrow> int list \<times> communicator \<times> verbs" where
  "comm_close dok c v =
     (case resources_destroy dok (c_link c) v of (l, v) \<Rightarrow> ([c_fd c], c\<lparr>c_link := l\<rparr>, v))"

section \<open>Choosing and releasing\<close>

text \<open>How many communicators hold each card, for a map that is in order.\<close>

definition held_by :: "nic_helper \<Rightarrow> string \<Rightarrow> nat" where
  "held_by h name = (case map_of (busy h) name of None \<Rightarrow> 0 | Some n \<Rightarrow> unat n)"

definition nic_ok :: "nic_helper \<Rightarrow> bool" where
  "nic_ok h \<longleftrightarrow> sorted_wrt (<) (map fst (busy h))"

lemma scan_ports_ok: "scan_ports name ps h = Inr h' \<Longrightarrow> nic_ok h \<Longrightarrow> nic_ok h'"
  by (induction name ps h rule: scan_ports.induct)
     (auto simp: nic_ok_def sorted_map_update split: if_splits)

lemma scan_devices_ok: "scan_devices ds h = Inr h' \<Longrightarrow> nic_ok h \<Longrightarrow> nic_ok h'"
  by (induction ds h rule: scan_devices.induct)
     (auto simp: and_then_Inr_iff scan_ports_ok split: if_splits)

lemma MultiNicHelper_ok: "MultiNicHelper_new ds = Inr h \<Longrightarrow> nic_ok h"
  unfolding MultiNicHelper_new_def
  by (auto split: option.splits if_splits dest: scan_devices_ok simp: nic_ok_def)

lemma nic_ok_ChooseNic: "nic_ok h \<Longrightarrow> nic_ok (snd (ChooseNic h))"
  by (simp add: nic_ok_def ChooseNic_def Let_def sorted_map_update)

lemma nic_ok_ReleaseNic: "nic_ok h \<Longrightarrow> nic_ok (ReleaseNic name h)"
  by (simp add: nic_ok_def ReleaseNic_def sorted_map_update)

lemma choose_loop_least:
  "mn \<noteq> 0 \<Longrightarrow>
     (\<exists>n. (choose_loop m res mn, n) \<in> set m \<and> n < mn \<and> (\<forall>p \<in> set m. n \<le> snd p)) \<or>
     (choose_loop m res mn = res \<and> (\<forall>p \<in> set m. mn \<le> snd p))"
proof (induction m res mn rule: choose_loop.induct)
  case (2 name n m res mn)
  show ?case
  proof (cases "n = 0")
    case True
    then show ?thesis using 2(3) word_neq_0_conv [of mn] by (intro disjI1 exI [of _ 0]) simp
  next
    case nz: False
    show ?thesis
    proof (cases "n < mn")
      case True
      have r: "choose_loop ((name, n) # m) res mn = choose_loop m name n" using nz True by simp
      from 2(1) [OF nz True nz] show ?thesis
      proof (elim disjE exE conjE)
        fix k assume k: "(choose_loop m name n, k) \<in> set m" "k < n" "\<forall>p \<in> set m. k \<le> snd p"
        then have "k < mn" using True by (blast intro: order.strict_trans)
        then show ?thesis unfolding r using k by (intro disjI1 exI [of _ k]) (simp add: less_imp_le)
      next
        assume "choose_loop m name n = name" "\<forall>p \<in> set m. n \<le> snd p"
        then show ?thesis unfolding r using True by (intro disjI1 exI [of _ n]) simp
      qed
    next
      case False
      have r: "choose_loop ((name, n) # m) res mn = choose_loop m res mn" using nz False by simp
      from 2(2) [OF nz False 2(3)] show ?thesis
      proof (elim disjE exE conjE)
        fix k assume k: "(choose_loop m res mn, k) \<in> set m" "k < mn" "\<forall>p \<in> set m. k \<le> snd p"
        then have "k \<le> n" using False by (meson less_imp_le not_less order_trans)
        then show ?thesis unfolding r using k by (intro disjI1 exI [of _ k]) simp
      next
        assume "choose_loop m res mn = res" "\<forall>p \<in> set m. mn \<le> snd p"
        then show ?thesis unfolding r using False by (intro disjI2) (simp add: not_less)
      qed
    qed
  qed
qed simp

section \<open>Properties\<close>

text \<open>As long as some card is held by fewer than 1024 communicators, \<open>ChooseNic\<close> answers a card that
  no other card is less busy than, and adds one to its count and to no other; releasing it later
  takes the one away again.\<close>

theorem ChooseNic_least_busy:
  assumes "nic_ok h" and "ChooseNic h = (name, h')" and "(other, n) \<in> set (busy h)" and "n < 1024"
  shows "name \<in> fst ` set (busy h) \<and> held_by h name \<le> unat n \<and>
     held_by h' = (held_by h)(name := held_by h name + 1) \<and> held_by (ReleaseNic name h') = held_by h"
proof -
  have name: "name = choose_loop (busy h) [] 1024"
      and h': "h' = h\<lparr>busy := map_update name (\<lambda>n. n + 1) 0 (busy h)\<rparr>"
    using assms(2) by (simp_all add: ChooseNic_def Let_def) auto
  obtain k where k: "(name, k) \<in> set (busy h)" "k < 1024" "\<forall>p \<in> set (busy h). k \<le> snd p"
    using choose_loop_least [of 1024 "busy h" "[]"] assms(3,4) unfolding name by force
  have srt: "sorted_wrt (<) (map fst (busy h))" using assms(1) by (simp add: nic_ok_def)
  then have "distinct (map fst (busy h))" by (simp add: strict_sorted_iff)
  then have m: "map_of (busy h) name = Some k" using k(1) by simp
  then have hk: "held_by h name = unat k" by (simp add: held_by_def)
  have "k \<le> n" using k(3) assms(3) by force
  then have "unat k \<le> unat n" by (simp add: word_le_nat_alt)
  moreover have m': "map_of (busy h') = (map_of (busy h))(name \<mapsto> k + 1)"
    unfolding h' using map_of_map_update [OF srt, of name "\<lambda>n. n + 1" 0] m by simp
  have "unat k < 1024" using k(2) by (simp add: word_less_nat_alt)
  then have k1: "unat (k + 1) = unat k + 1" by (simp add: unat_word_ariths)
  have "held_by h' = (held_by h)(name := held_by h name + 1)"
    using m' k1 hk by (auto simp: held_by_def fun_eq_iff)
  moreover have "sorted_wrt (<) (map fst (busy h'))"
    unfolding h' using sorted_map_update [OF srt, of name "\<lambda>n. n + 1" 0] by simp
  then have "map_of (busy (ReleaseNic name h')) = map_of (busy h)"
    using map_of_map_update [of "busy h'" name "\<lambda>n. n - 1" 0] m' m
    by (auto simp: ReleaseNic_def fun_eq_iff)
  then have "held_by (ReleaseNic name h') = held_by h" by (simp add: held_by_def fun_eq_iff)
  ultimately show ?thesis using k(1) hk by force
qed

lemma ChooseNic_least_busy_witness:
  "''b'' \<in> fst ` set [(''a'', 2 :: 32 word), (''b'', 1), (''c'', 1)] \<and>
   held_by \<lparr>nics = [], busy = [(''a'', 2), (''b'', 1), (''c'', 1)]\<rparr> ''b'' \<le> unat (1 :: 32 word)"
  using ChooseNic_least_busy [of "\<lparr>nics = [], busy = [(''a'', 2), (''b'', 1), (''c'', 1)]\<rparr>" "''b''"
      "\<lparr>nics = [], busy = [(''a'', 2), (''b'', 2), (''c'', 1)]\<rparr>" "''c''" 1]
  by (simp add: nic_ok_def ChooseNic_def Let_def)

text \<open>Without cards the empty name is chosen and counted; \<open>create_resource\<close> then takes the first device.\<close>

lemma ChooseNic_none: "fst (ChooseNic \<lparr>nics = [], busy = []\<rparr>) = []"
  by (simp add: ChooseNic_def Let_def)

text \<open>The destructor then releases that device, which nobody chose: its count wraps below zero.\<close>

lemma release_of_unchosen_device:
  assumes "MultiNicHelper_new (Some []) = Inr h" and "RdmaCommunicator_new ep fd h = (c, h1)"
    and "create_resource demo_answers (\<lambda>_. True) (c_link c) v = (STATUS_SUCCESS, l, v1)"
    and "RdmaCommunicator_delete (\<lambda>_. True) (c\<lparr>c_link := l\<rparr>) v1 h1 = (fds, v2, h2)"
  shows "busy h2 = [([], 1), (''mlx5_1'', 2 ^ 32 - 1)]"
proof -
  have h: "h = \<lparr>nics = [], busy = []\<rparr>" using assms(1) by (simp add: MultiNicHelper_new_def)
  have c: "dev_name (c_link c) = []" "h1 = \<lparr>nics = [], busy = [([], 1)]\<rparr>"
    using assms(2) unfolding h by (auto simp: RdmaCommunicator_new_def ChooseNic_def Let_def)
  have "dev_name l = ''mlx5_1''"
    using assms(3) c(1)
    by (auto simp: create_resource_def demo_answers_def grab_def acquire_def pick_device_def Let_def)
  then have "h2 = ReleaseNic ''mlx5_1'' h1"
    using assms(4) by (auto simp: RdmaCommunicator_delete_def resources_destroy_def Let_def)
  then show ?thesis unfolding c(2) by (simp add: ReleaseNic_def)
qed

end
