(* ===== verification/Requests.thy ===== *)
theory Requests
  imports Operator Store MetaClient World Iterations Nic RdmaTransfer
begin

text \<open>
  The requests a node makes of its neighbours: \<open>ClientUtil\<close> of \<open>src/coordinator/client.cpp\<close>.  The
  state is the engine of one node (\<open>engine\<close>) and, for the time of a request, one connection
  (\<open>conn\<close>): its sockets, its queue pair, its device.  A request opens the connection, talks, moves
  memory and closes it on every way out.  The files of a batch, which the code hands to eight
  threads, are taken one after the other; theory \<open>Channel\<close> has the threads.
\<close>

section \<open>Outcomes\<close>

text \<open>\<open>Inl\<close>: the process ends; \<open>Inr None\<close>: the call never returns.\<close>

type_synonym 'a outcome = "'a option result"

definition run_then :: "'a outcome \<Rightarrow> ('a \<Rightarrow> 'b outcome) \<Rightarrow> 'b outcome" where
  "run_then r f = and_then r (\<lambda>x. case x of None \<Rightarrow> Inr None | Some y \<Rightarrow> f y)"

definition finished :: "'a \<Rightarrow> 'a outcome" where
  "finished x = Inr (Some x)"

definition returned :: "'a result \<Rightarrow> 'a outcome" where
  "returned r = and_then r finished"

lemma run_then_simps [simp]:
  "run_then (Inl e) f = Inl e"
  "run_then (Inr None) f = Inr None"
  "run_then (Inr (Some x)) f = f x"
  "run_then (finished x) f = f x"
  "returned (Inl e) = Inl e"
  "returned (Inr x) = finished x"
  by (simp_all add: run_then_def finished_def returned_def)

lemma run_then_finished_iff:
  "run_then r f = Inr (Some y) \<longleftrightarrow> (\<exists>x. r = Inr (Some x) \<and> f x = Inr (Some y))"
  by (auto simp: run_then_def and_then_Inr_iff split: option.splits)

text \<open>Every value the call can return satisfies \<open>P\<close>.\<close>

definition ensures :: "'a outcome \<Rightarrow> ('a \<Rightarrow> bool) \<Rightarrow> bool" where
  "ensures r P \<longleftrightarrow> (case r of Inr (Some y) \<Rightarrow> P y | _ \<Rightarrow> True)"

named_theorems ensures_rules \<open>what the calls ensure\<close>

lemma ensuresI: "(\<And>y. r = Inr (Some y) \<Longrightarrow> P y) \<Longrightarrow> ensures r P"
  by (auto simp: ensures_def split: sum.splits option.splits)

lemma ensuresD: "ensures r P \<Longrightarrow> r = Inr (Some y) \<Longrightarrow> P y"
  by (simp add: ensures_def)

lemma ensures_finished [simp]: "ensures (finished y) P = P y"
  by (simp add: ensures_def finished_def)

lemma ensures_ended [simp]: "ensures (Inl e) P" "ensures (Inr None) P"
  by (simp_all add: ensures_def)

lemma ensures_then [ensures_rules]:
  assumes "ensures r Q" and "\<And>y. Q y \<Longrightarrow> ensures (f y) P"
  shows "ensures (run_then r f) P"
proof (rule ensuresI)
  fix z
  assume "run_then r f = Inr (Some z)"
  then obtain y where "r = Inr (Some y)" "f y = Inr (Some z)"
    by (auto simp: run_then_finished_iff)
  then show "P z" using ensuresD [OF assms(1)] ensuresD [OF assms(2)] by blast
qed

lemma ensures_returned: "(\<And>y. r = Inr y \<Longrightarrow> P y) \<Longrightarrow> ensures (returned r) P"
  by (cases r) simp_all

lemma ensures_mono: "ensures r P \<Longrightarrow> (\<And>y. P y \<Longrightarrow> Q y) \<Longrightarrow> ensures r Q"
  by (auto simp: ensures_def split: sum.splits option.splits)

section \<open>The engine and its connections\<close>

record 'q conn =
  k_comm :: communicator
  k_in :: in_socket
  k_out :: out_socket
  k_qp :: 'q
  k_dev :: device
  k_answers :: verbs_answers
  k_ids :: local_ids
  k_stack :: "byte list"
  k_lkey :: "32 word"

text \<open>One attempt to connect: what the calls of \<open>Connect\<close> return, and the connection.\<close>

record 'q dial =
  d_calls :: socket_calls
  d_conn :: "'q conn"

text \<open>
  The engine: table, cards, verbs objects, cache index, memory account, memory, the kernel's
  next answers to allocations, the work queue, the cached iterations, the sizes of the files
  behind descriptors, the next attempts to connect.
\<close>

record ('db, 'q) engine =
  g_db :: 'db
  g_nics :: nic_helper
  g_verbs :: verbs
  g_store :: storage
  g_mon :: monitor
  g_mem :: memory
  g_allocs :: "DataEntry option list"
  g_op :: "string operator"
  g_iters :: iteration_manager
  g_sizes :: "int \<Rightarrow> size_t"
  g_dials :: "'q dial list"

text \<open>
  What surrounds it; \<open>x_file\<close> is the answer to reading a file: did it open, which bytes came,
  did it close.
\<close>

record ('db, 'q) libs =
  x_vars :: "string \<rightharpoonup> string"
  x_world :: world
  x_resolve :: "string \<Rightarrow> string option"
  x_client :: "'db meta_client result"
  x_al :: "size_t \<Rightarrow> bool"
  x_dok :: "verb_obj \<Rightarrow> bool"
  x_modify :: "'q modify"
  x_nic :: nic
  x_cgroup :: cgroup
  x_truncate :: bool
  x_now :: nat
  x_busy :: bool
  x_file :: "string \<Rightarrow> bool \<times> byte list \<times> bool"

definition my_rank :: "('db, 'q) libs \<Rightarrow> int" where
  "my_rank x = w_node_rank (x_world x)"

text \<open>The communicator's operations on a connection and an engine.\<close>

definition conn_write :: "buffer \<Rightarrow> 'q conn \<Rightarrow> (bool \<times> 'q conn) outcome" where
  "conn_write b k = and_then (Write b (k_out k)) (\<lambda>(ok, s). finished (ok, k\<lparr>k_out := s\<rparr>))"

definition conn_read ::
  "(size_t \<Rightarrow> bool) \<Rightarrow> buffer \<Rightarrow> 'q conn \<Rightarrow> (bool \<times> buffer \<times> 'q conn) outcome" where
  "conn_read al b k = and_then (Read al b (k_in k)) (\<lambda>(ok, b, s). finished (ok, b, k\<lparr>k_in := s\<rparr>))"

definition conn_handshake ::
  "('db, 'q) libs \<Rightarrow> size_t \<Rightarrow> size_t \<Rightarrow> 'q conn \<Rightarrow> ('db, 'q) engine \<Rightarrow> (int \<times> 'q conn \<times> ('db, 'q) engine) outcome" where
  "conn_handshake x local_addr n k g =
     Inr (map_option
       (\<lambda>(rc, l, v, q, i, s). (rc, k\<lparr>k_comm := (k_comm k)\<lparr>c_link := l\<rparr>, k_qp := q, k_in := i, k_out := s\<rparr>,
          g\<lparr>g_verbs := v\<rparr>))
       (rdma_handshake (k_answers k) (x_dok x) (x_modify x) (k_ids k) (k_stack k) local_addr n
          (c_link (k_comm k)) (g_verbs g) (k_qp k) (k_in k) (k_out k)))"

definition after_transfer ::
  "'q conn \<Rightarrow> ('db, 'q) engine \<Rightarrow> (bool \<times> device) option result \<Rightarrow> (bool \<times> 'q conn \<times> ('db, 'q) engine) outcome" where
  "after_transfer k g r =
     run_then r (\<lambda>(ok, d). finished (ok, k\<lparr>k_dev := d\<rparr>, g\<lparr>g_mem := dev_local d\<rparr>))"

definition conn_rdma_write ::
  "('db, 'q) libs \<Rightarrow> size_t \<Rightarrow> size_t \<Rightarrow> 'q conn \<Rightarrow> ('db, 'q) engine \<Rightarrow> (bool \<times> 'q conn \<times> ('db, 'q) engine) outcome" where
  "conn_rdma_write x buf n k g = after_transfer k g
     (rdma_write (x_nic x) (c_link (k_comm k)) (k_lkey k) buf 0 0 n ((k_dev k)\<lparr>dev_local := g_mem g\<rparr>))"

definition conn_rdma_read ::
  "('db, 'q) libs \<Rightarrow> size_t \<Rightarrow> size_t \<Rightarrow> 'q conn \<Rightarrow> ('db, 'q) engine \<Rightarrow> (bool \<times> 'q conn \<times> ('db, 'q) engine) outcome" where
  "conn_rdma_read x buf n k g = after_transfer k g
     (rdma_read (x_nic x) (c_link (k_comm k)) (k_lkey k) buf 0 0 n ((k_dev k)\<lparr>dev_local := g_mem g\<rparr>))"

text \<open>Marshal with \<open>f\<close> and write; read into the emptied buffer.\<close>

definition send_message ::
  "(buffer \<Rightarrow> buffer result) \<Rightarrow> buffer \<Rightarrow> 'q conn \<Rightarrow> (bool \<times> buffer \<times> 'q conn) outcome" where
  "send_message f b k =
     run_then (returned (f b)) (\<lambda>b. run_then (conn_write b k) (\<lambda>(ok, k). finished (ok, b, k)))"

definition receive_message ::
  "(size_t \<Rightarrow> bool) \<Rightarrow> buffer \<Rightarrow> 'q conn \<Rightarrow> (bool \<times> buffer \<times> 'q conn) outcome" where
  "receive_message al b k = conn_read al (Reset b) k"

text \<open>An allocation that asks the kernel takes its next answer; running out of answers is a
  failure.  The bytes of a new mapping are what the memory holds there.\<close>

definition note_allocation ::
  "Metadata \<Rightarrow> int \<Rightarrow> DataEntry \<Rightarrow> monitor \<Rightarrow> ('db, 'q) engine \<Rightarrow> ('db, 'q) engine" where
  "note_allocation md rc e m g =
     (if IsOOM rc \<or> msize md = 0 then g\<lparr>g_mon := m\<rparr>
      else g\<lparr>g_mon := m, g_allocs := tl (g_allocs g),
             g_sizes := (if address e = 0 then g_sizes g else (g_sizes g)(memfd e := msize md))\<rparr>)"

definition allocate ::
  "('db, 'q) libs \<Rightarrow> Metadata \<Rightarrow> DataEntry \<Rightarrow> ('db, 'q) engine \<Rightarrow> int \<times> DataEntry \<times> ('db, 'q) engine" where
  "allocate x md e g =
     (case TryMemfdMalloc (x_cgroup x) (case g_allocs g of [] \<Rightarrow> None | a # _ \<Rightarrow> a) md e (g_mon g) of
        (rc, e, m) \<Rightarrow> (rc, e, note_allocation md rc e m g))"

definition save_entry :: "('db, 'q) libs \<Rightarrow> Metadata \<Rightarrow> DataEntry \<Rightarrow> ('db, 'q) engine \<Rightarrow> (bool \<times> ('db, 'q) engine) result" where
  "save_entry x md e g =
     and_then (Storage_Save (my_rank x) md e (g_store g)) (\<lambda>(ok, s). Inr (ok, g\<lparr>g_store := s\<rparr>))"

text \<open>The communicator on the stack of a request: connected, used by \<open>body\<close>, destroyed.  Without a
  further dial the attempt to connect does not return.\<close>

definition with_connection ::
  "('db, 'q) libs \<Rightarrow> endpoint \<Rightarrow> 'r \<Rightarrow>
     ('q conn \<Rightarrow> ('db, 'q) engine \<Rightarrow> ('r \<times> 'q conn \<times> ('db, 'q) engine) outcome) \<Rightarrow> ('db, 'q) engine \<Rightarrow>
     ('r \<times> 'q conn \<times> ('db, 'q) engine) outcome" where
  "with_connection x ep failed body g =
     (case RdmaCommunicator_new ep (-1) (g_nics g) of (c, h) \<Rightarrow>
      case g_dials g of [] \<Rightarrow> Inr None
      | d # ds \<Rightarrow>
        and_then (Connect (d_calls d) c) (\<lambda>(ok, c).
        let k = (d_conn d)\<lparr>k_comm := c\<rparr>; g = g\<lparr>g_nics := h, g_dials := ds\<rparr> in
        run_then (if ok then body k g else finished (failed, k, g)) (\<lambda>(r, k, g).
          case RdmaCommunicator_delete (x_dok x) (k_comm k) (g_verbs g) (g_nics g) of (fds, v, h) \<Rightarrow>
            finished (r, k, g\<lparr>g_verbs := v, g_nics := h\<rparr>))))"

section \<open>Backup\<close>

definition RDMA_WRITE_MSG :: string where "RDMA_WRITE_MSG = ''W''"
definition RDMA_READ_MSG :: string where "RDMA_READ_MSG = ''R''"

text \<open>After a positive answer: handshake, write, notification.\<close>

definition Backup_data ::
  "('db, 'q) libs \<Rightarrow> InterNodeBackupRequest \<Rightarrow> buffer \<Rightarrow> 'q conn \<Rightarrow> ('db, 'q) engine \<Rightarrow>
     (bool \<times> 'q conn \<times> ('db, 'q) engine) outcome" where
  "Backup_data x req b k g =
     (let localAddr = address (bk_data_entry req); n = msize (bk_metadata req) in
      run_then (conn_handshake x localAddr n k g) (\<lambda>(rc, k, g).
      if \<not> IsSuccess rc then finished (False, k, g)
      else run_then (conn_rdma_write x localAddr n k g) (\<lambda>(ok, k, g).
      if \<not> ok then finished (False, k, g)
      else run_then (send_message (AddString (x_al x) ''W'') (Reset b) k) (\<lambda>(ok, b, k).
      finished (ok, k, g)))))"

text \<open>The result is what \<open>Backup\<close> returns and the code of the response.\<close>

definition Backup_exchange ::
  "('db, 'q) libs \<Rightarrow> InterNodeBackupRequest \<Rightarrow> int \<Rightarrow> buffer \<Rightarrow> 'q conn \<Rightarrow> ('db, 'q) engine \<Rightarrow>
     ((bool \<times> int) \<times> 'q conn \<times> ('db, 'q) engine) outcome" where
  "Backup_exchange x req rsp b k g =
     run_then (send_message (Add (x_al x) (size_bytes (routine_code INTER_NODE_BACKUP))) b k) (\<lambda>(ok, b, k).
     if \<not> ok then finished ((False, rsp), k, g)
     else run_then (send_message (BackupRequest_Marshal (x_al x) req) (Reset b) k) (\<lambda>(ok, b, k).
     if \<not> ok then finished ((False, rsp), k, g)
     else run_then (receive_message (x_al x) b k) (\<lambda>(ok, b, k).
     if \<not> ok then finished ((False, rsp), k, g)
     else run_then (returned (Code_Unmarshal b)) (\<lambda>(rsp, b).
     if rsp \<noteq> STATUS_SUCCESS then finished ((False, rsp), k, g)
     else if \<not> bk_only_metadata req
     then run_then (Backup_data x req b k g) (\<lambda>(ok, k, g). finished ((ok, rsp), k, g))
     else finished ((True, rsp), k, g)))))"

text \<open>\<open>None\<close> for the connection: there was none.\<close>

definition ClientUtil_Backup ::
  "('db, 'q) libs \<Rightarrow> InterNodeBackupRequest \<Rightarrow> int \<Rightarrow> ('db, 'q) engine \<Rightarrow>
     ((bool \<times> int) \<times> 'q conn option \<times> ('db, 'q) engine) outcome" where
  "ClientUtil_Backup x req rsp g =
     run_then (returned (Buffer_new (x_al x))) (\<lambda>b.
     run_then (returned (getEndpoint (x_vars x) ''rdma'')) (\<lambda>ep.
     run_then (returned (getNextNode (x_resolve x) (x_world x))) (\<lambda>nextHostAddr.
     case nextHostAddr of None \<Rightarrow> finished ((False, rsp), None, g)
     | Some a \<Rightarrow>
       run_then (with_connection x (setAddr a ep) (False, rsp) (Backup_exchange x req rsp b) g)
         (\<lambda>(r, k, g). finished (r, Some k, g)))))"

section \<open>Loading from another node\<close>

definition LoadRemote_data ::
  "('db, 'q) libs \<Rightarrow> InterNodeLoadResponse \<Rightarrow> buffer \<Rightarrow> 'q conn \<Rightarrow> ('db, 'q) engine \<Rightarrow>
     (bool \<times> 'q conn \<times> ('db, 'q) engine) outcome" where
  "LoadRemote_data x rsp b k g =
     (let md = lr_metadata rsp; memStat = GetMemoryStat (g_mon g) in
      if total_idle memStat < msize md then finished (False, k, g)
      else case allocate x md new_DataEntry g of (rc, entry, g) \<Rightarrow>
      if \<not> IsSuccess rc then finished (False, k, g)
      else run_then (returned (save_entry x md entry g)) (\<lambda>(_, g).
      run_then (conn_handshake x (address entry) (msize md) k g) (\<lambda>(rc, k, g).
      if \<not> IsSuccess rc then finished (False, k, g)
      else run_then (conn_rdma_read x (address entry) (msize md) k g) (\<lambda>(ok, k, g).
      if \<not> ok then finished (False, k, g)
      else run_then (send_message (AddString (x_al x) RDMA_READ_MSG) (Reset b) k) (\<lambda>(ok, b, k).
      finished (ok, k, g))))))"

definition LoadRemote_exchange ::
  "('db, 'q) libs \<Rightarrow> InterNodeLoadRequest \<Rightarrow> InterNodeLoadResponse \<Rightarrow> buffer \<Rightarrow> 'q conn \<Rightarrow> ('db, 'q) engine \<Rightarrow>
     ((bool \<times> InterNodeLoadResponse) \<times> 'q conn \<times> ('db, 'q) engine) outcome" where
  "LoadRemote_exchange x req rsp b k g =
     run_then (send_message (Add (x_al x) (size_bytes (routine_code INTER_NODE_LOAD))) b k) (\<lambda>(ok, b, k).
     if \<not> ok then finished ((False, rsp), k, g)
     else run_then (send_message (LoadRequest_Marshal (x_al x) req) (Reset b) k) (\<lambda>(ok, b, k).
     if \<not> ok then finished ((False, rsp), k, g)
     else run_then (receive_message (x_al x) b k) (\<lambda>(ok, b, k).
     if \<not> ok then finished ((False, rsp), k, g)
     else run_then (returned (LoadResponse_Unmarshal b)) (\<lambda>(rsp, b).
     if \<not> IsSuccess (lr_code rsp) then finished ((False, rsp), k, g)
     else if ld_only_metadata req then finished ((True, rsp), k, g)
     else run_then (LoadRemote_data x rsp b k g) (\<lambda>(ok, k, g). finished ((ok, rsp), k, g))))))"

definition LoadRemote ::
  "('db, 'q) libs \<Rightarrow> InterNodeLoadRequest \<Rightarrow> InterNodeLoadResponse \<Rightarrow> ('db, 'q) engine \<Rightarrow>
     ((bool \<times> InterNodeLoadResponse) \<times> 'q conn option \<times> ('db, 'q) engine) outcome" where
  "LoadRemote x req rsp g =
     run_then (returned (Buffer_new (x_al x))) (\<lambda>b.
     run_then (returned (getEndpoint (x_vars x) ''rdma'')) (\<lambda>ep.
     run_then (returned (getNodeIP (x_resolve x) (x_world x) (node_rank (ld_metadata req)))) (\<lambda>remoteIP.
     case remoteIP of None \<Rightarrow> finished ((False, rsp), None, g)
     | Some a \<Rightarrow>
       run_then (with_connection x (setAddr a ep) (False, rsp) (LoadRemote_exchange x req rsp b) g)
         (\<lambda>(r, k, g). finished (r, Some k, g)))))"

text \<open>
  The tasks of a batch; the code's threads run them in any order.  The result: have all succeeded.
\<close>

definition new_LoadResponse :: InterNodeLoadResponse where
  "new_LoadResponse = \<lparr>lr_metadata = new_Metadata '''' '''', lr_data_entry = new_DataEntry, lr_code = STATUS_SUCCESS\<rparr>"

fun load_tasks ::
  "('db, 'q) libs \<Rightarrow> InterNodeLoadResponse list \<Rightarrow> ('db, 'q) engine \<Rightarrow> (bool \<times> ('db, 'q) engine) outcome" where
  "load_tasks x [] g = finished (True, g)"
| "load_tasks x (item # items) g =
     run_then (LoadRemote x \<lparr>ld_metadata = lr_metadata item, ld_only_metadata = False\<rparr> new_LoadResponse g)
       (\<lambda>((ok, _), _, g). run_then (load_tasks x items g) (\<lambda>(res, g). finished (ok \<and> res, g)))"

definition BatchLoadRemote_exchange ::
  "('db, 'q) libs \<Rightarrow> InterNodeBatchLoadRequest \<Rightarrow> InterNodeBatchLoadResponse \<Rightarrow> buffer \<Rightarrow>
     'q conn \<Rightarrow> ('db, 'q) engine \<Rightarrow> ((bool \<times> InterNodeBatchLoadResponse) \<times> 'q conn \<times> ('db, 'q) engine) outcome" where
  "BatchLoadRemote_exchange x req rsp b k g =
     run_then (send_message (Add (x_al x) (size_bytes (routine_code INTER_NODE_BATCH_LOAD))) b k) (\<lambda>(ok, b, k).
     if \<not> ok then finished ((False, rsp), k, g)
     else run_then (send_message (BatchLoadRequest_Marshal (x_al x) req) (Reset b) k) (\<lambda>(ok, b, k).
     if \<not> ok then finished ((False, rsp), k, g)
     else run_then (receive_message (x_al x) b k) (\<lambda>(ok, b, k).
     if \<not> ok then finished ((False, rsp), k, g)
     else run_then (returned (BatchLoadResponse_Unmarshal rsp b)) (\<lambda>(rsp, b).
     if br_code rsp = STATUS_UNKNOWN_ERROR then finished ((False, rsp), k, g)
     else if bl_only_metadata req then finished ((True, rsp), k, g)
     else run_then (load_tasks x (br_responses rsp) g) (\<lambda>(res, g). finished ((res, rsp), k, g))))))"

definition BatchLoadRemote ::
  "('db, 'q) libs \<Rightarrow> InterNodeBatchLoadRequest \<Rightarrow> InterNodeBatchLoadResponse \<Rightarrow>
     ('db, 'q) engine \<Rightarrow> ((bool \<times> InterNodeBatchLoadResponse) \<times> 'q conn option \<times> ('db, 'q) engine) outcome" where
  "BatchLoadRemote x req rsp g =
     run_then (returned (Buffer_new (x_al x))) (\<lambda>b.
     run_then (returned (getEndpoint (x_vars x) ''rdma'')) (\<lambda>ep.
     run_then (returned (getNextNode (x_resolve x) (x_world x))) (\<lambda>remoteIP.
     case remoteIP of None \<Rightarrow> finished ((False, rsp), None, g)
     | Some a \<Rightarrow>
       run_then (with_connection x (setAddr a ep) (False, rsp) (BatchLoadRemote_exchange x req rsp b) g)
         (\<lambda>(r, k, g). finished (r, Some k, g)))))"

section \<open>Asking for the backups, reading the disk\<close>

definition NotifyBackup_exchange ::
  "('db, 'q) libs \<Rightarrow> int \<Rightarrow> buffer \<Rightarrow> 'q conn \<Rightarrow> ('db, 'q) engine \<Rightarrow> ((bool \<times> int) \<times> 'q conn \<times> ('db, 'q) engine) outcome" where
  "NotifyBackup_exchange x rsp b k g =
     run_then (send_message (Add (x_al x) (size_bytes (routine_code INTER_NODE_NOTIFY_BACKUP))) b k) (\<lambda>(ok, b, k).
     if \<not> ok then finished ((False, rsp), k, g)
     else run_then (receive_message (x_al x) b k) (\<lambda>(ok, b, k).
     if \<not> ok then finished ((False, rsp), k, g)
     else run_then (returned (Code_Unmarshal b)) (\<lambda>(rsp, b).
     finished ((rsp \<noteq> STATUS_UNKNOWN_ERROR, rsp), k, g))))"

definition NotifyBackup ::
  "('db, 'q) libs \<Rightarrow> int \<Rightarrow> ('db, 'q) engine \<Rightarrow> ((bool \<times> int) \<times> 'q conn option \<times> ('db, 'q) engine) outcome" where
  "NotifyBackup x rsp g =
     run_then (returned (Buffer_new (x_al x))) (\<lambda>b.
     run_then (returned (getEndpoint (x_vars x) ''rdma'')) (\<lambda>ep.
     run_then (returned (getPrevNode (x_resolve x) (x_world x))) (\<lambda>remoteIP.
     case remoteIP of None \<Rightarrow> finished ((False, rsp), None, g)
     | Some a \<Rightarrow>
       run_then (with_connection x (setAddr a ep) (False, rsp) (NotifyBackup_exchange x rsp b) g)
         (\<lambda>(r, k, g). finished (r, Some k, g)))))"

text \<open>\<open>fread\<close> into the entry's memory.\<close>

definition store_bytes :: "memory \<Rightarrow> size_t \<Rightarrow> byte list \<Rightarrow> memory result" where
  "store_bytes m a bs =
     (if a = 0 \<and> bs \<noteq> [] then Inl (UB ''write through a null pointer'')
      else Inr (\<lambda>y. if unat (y - a) < length bs then bs ! unat (y - a) else m y))"

definition load_file ::
  "('db, 'q) libs \<Rightarrow> Metadata \<Rightarrow> DataEntry \<Rightarrow> ('db, 'q) engine \<Rightarrow> (int \<times> DataEntry \<times> ('db, 'q) engine) result" where
  "load_file x md e g =
     (case x_file x (file_name md) of (opened, data, shut) \<Rightarrow>
      let data = take (unat (msize md)) data in
      case TryLoadFromFile (x_cgroup x) (case g_allocs g of [] \<Rightarrow> None | a # _ \<Rightarrow> a) opened
             (of_nat (length data)) shut md e (g_mon g) of
        (rc, e, m) \<Rightarrow>
          let g = note_allocation md rc e m g in
          and_then (if IsOOM rc \<or> \<not> opened then Inr (g_mem g) else store_bytes (g_mem g) (address e) data)
            (\<lambda>mem. Inr (rc, e, g\<lparr>g_mem := mem\<rparr>)))"

definition note_iteration :: "('db, 'q) libs \<Rightarrow> Metadata \<Rightarrow> ('db, 'q) engine \<Rightarrow> ('db, 'q) engine result" where
  "note_iteration x md g =
     (if iteration md = ''unknown'' then Inr g
      else and_then (stoul (iteration md)) (\<lambda>i.
        if im_isExist i (g_iters g) then Inr g
        else and_then (pushIteration (x_busy x) i (g_iters g)) (\<lambda>im. Inr (g\<lparr>g_iters := im\<rparr>))))"

fun load_files :: "('db, 'q) libs \<Rightarrow> Metadata list \<Rightarrow> ('db, 'q) engine \<Rightarrow> (bool \<times> ('db, 'q) engine) result" where
  "load_files x [] g = Inr (True, g)"
| "load_files x (md # mds) g =
     (if state md = OBSOLESCENT then load_files x mds g
      else and_then (note_iteration x md g) (\<lambda>g.
           and_then (load_file x md new_DataEntry g) (\<lambda>(rc, e, g).
           if \<not> IsSuccess rc then Inr (False, g)
           else and_then (save_entry x md e g) (\<lambda>(ok, g).
           if \<not> ok then Inr (False, g) else load_files x mds g))))"

definition BatchLoadFromFileSystem :: "('db, 'q) libs \<Rightarrow> ('db, 'q) engine \<Rightarrow> (bool \<times> ('db, 'q) engine) result" where
  "BatchLoadFromFileSystem x g =
     and_then (x_client x) (\<lambda>mc.
     and_then (mc_BatchLoad mc \<lparr>ft_node_rank = my_rank x, ft_iteration = '''', ft_state = STATE_ANY\<rparr> (g_db g))
       (\<lambda>(rc, vec, db).
       if rc = STATUS_UNKNOWN_ERROR then Inr (False, g\<lparr>g_db := db\<rparr>)
       else load_files x vec (g\<lparr>g_db := db\<rparr>)))"

end
