(* ===== verification/Handlers.thy ===== *)
theory Handlers
  imports Requests
begin

text \<open>
  The server of \<open>src/coordinator/server.cpp\<close>: the four request handlers, the loop that dispatches the
  requests of one connection, and the acceptance of connections.  A handler gets the accepted
  connection and the node's engine (theory \<open>Requests\<close>); whatever it returns, the loop goes on
  with the next request.
\<close>

section \<open>Backup\<close>

text \<open>The memory for the data: a new allocation, or that of the cached file.\<close>

definition backup_entry ::
  "('db, 'q) libs \<Rightarrow> Metadata \<Rightarrow> ('db, 'q) engine \<Rightarrow> (DataEntry option \<times> ('db, 'q) engine) result" where
  "backup_entry x md g =
     and_then (Storage_Load (my_rank x) md (g_store g)) (\<lambda>found.
     case found of
       None \<Rightarrow>
         (case allocate x md new_DataEntry g of (rc, entry, g) \<Rightarrow>
            if \<not> IsSuccess rc then Inr (None, g)
            else and_then (save_entry x md entry g) (\<lambda>(_, g). Inr (Some entry, g)))
     | Some entry \<Rightarrow>
         (case memfdFtruncate (x_truncate x) (g_sizes g (memfd entry)) md of (rc, n) \<Rightarrow>
            if \<not> IsSuccess rc then Inr (None, g)
            else Inr (Some entry, g\<lparr>g_sizes := (g_sizes g)(memfd entry := n)\<rparr>)))"

text \<open>The answer: has the data arrived.\<close>

definition handleBackup_data ::
  "('db, 'q) libs \<Rightarrow> InterNodeBackupRequest \<Rightarrow> buffer \<Rightarrow> 'q conn \<Rightarrow> ('db, 'q) engine \<Rightarrow>
     (bool \<times> 'q conn \<times> ('db, 'q) engine) outcome" where
  "handleBackup_data x req b k g =
     run_then (returned (backup_entry x (bk_metadata req) g)) (\<lambda>(found, g).
     case found of None \<Rightarrow> finished (False, k, g)
     | Some entry \<Rightarrow>
       run_then (conn_handshake x (address entry) (msize (bk_metadata req)) k g) (\<lambda>(rc, k, g).
       if \<not> IsSuccess rc then finished (False, k, g)
       else run_then (receive_message (x_al x) b k) (\<lambda>(ok, b, k).
       if \<not> ok then finished (False, k, g)
       else run_then (returned (GetString b)) (\<lambda>(sign, b).
       if sign \<noteq> RDMA_WRITE_MSG then Inl (Fatal ''rdma write finish notification mismatch'')
       else finished (True, k, g)))))"

definition handleBackup ::
  "('db, 'q) libs \<Rightarrow> 'q conn \<Rightarrow> ('db, 'q) engine \<Rightarrow> ('q conn \<times> ('db, 'q) engine) outcome" where
  "handleBackup x k g =
     run_then (returned (Buffer_new (x_al x))) (\<lambda>b.
     run_then (conn_read (x_al x) b k) (\<lambda>(ok, b, k).
     if \<not> ok then finished (k, g)
     else run_then (returned (BackupRequest_Unmarshal b)) (\<lambda>(req, b).
     let mem_stat = GetMemoryStat (g_mon g);
         rsp = (if \<not> bk_only_metadata req \<and> total_idle mem_stat < msize (bk_metadata req)
                then STATUS_UNKNOWN_ERROR else STATUS_SUCCESS) in
     run_then (send_message (Code_Marshal (x_al x) rsp) (Reset b) k) (\<lambda>(ok, b, k).
     if \<not> ok then finished (k, g)
     else if rsp \<noteq> STATUS_SUCCESS then finished (k, g)
     else run_then (if \<not> bk_only_metadata req then handleBackup_data x req b k g else finished (True, k, g))
       (\<lambda>(go, k, g).
       if \<not> go then finished (k, g)
       else run_then (AddRateLimited (x_now x) (file_name (bk_metadata req)) (g_op g)) (\<lambda>op.
       finished (k, g\<lparr>g_op := op\<rparr>)))))))"

section \<open>Load\<close>

definition load_answer ::
  "('db, 'q) libs \<Rightarrow> 'db meta_client \<Rightarrow> InterNodeLoadRequest \<Rightarrow> ('db, 'q) engine \<Rightarrow>
     (InterNodeLoadResponse \<times> ('db, 'q) engine) result" where
  "load_answer x mc req g =
     and_then (mc_Load mc (ld_metadata req) (g_db g)) (\<lambda>(rc, md, db).
     let g = g\<lparr>g_db := db\<rparr>;
         rsp = (if \<not> IsSuccess rc then new_LoadResponse\<lparr>lr_code := rc\<rparr> else new_LoadResponse\<lparr>lr_metadata := md\<rparr>) in
     if ld_only_metadata req then Inr (rsp, g)
     else and_then (Storage_Load (my_rank x) md (g_store g)) (\<lambda>found.
       case found of None \<Rightarrow> Inr (rsp\<lparr>lr_code := STATUS_UNKNOWN_ERROR\<rparr>, g)
       | Some entry \<Rightarrow> Inr (rsp\<lparr>lr_data_entry := entry\<rparr>, g)))"

definition handleLoad_data ::
  "('db, 'q) libs \<Rightarrow> InterNodeLoadResponse \<Rightarrow> buffer \<Rightarrow> 'q conn \<Rightarrow> ('db, 'q) engine \<Rightarrow>
     ('q conn \<times> ('db, 'q) engine) outcome" where
  "handleLoad_data x rsp b k g =
     run_then (conn_handshake x (address (lr_data_entry rsp)) (msize (lr_metadata rsp)) k g) (\<lambda>(rc, k, g).
     if \<not> IsSuccess rc then finished (k, g)
     else run_then (receive_message (x_al x) b k) (\<lambda>(ok, b, k).
     if \<not> ok then finished (k, g)
     else run_then (returned (GetString b)) (\<lambda>(sign, b).
     if sign \<noteq> RDMA_READ_MSG then Inl (Fatal ''rdma read finish notification mismatch'')
     else finished (k, g))))"

definition handleLoad ::
  "('db, 'q) libs \<Rightarrow> 'q conn \<Rightarrow> ('db, 'q) engine \<Rightarrow> ('q conn \<times> ('db, 'q) engine) outcome" where
  "handleLoad x k g =
     run_then (returned (Buffer_new (x_al x))) (\<lambda>b.
     run_then (conn_read (x_al x) b k) (\<lambda>(ok, b, k).
     if \<not> ok then finished (k, g)
     else run_then (returned (LoadRequest_Unmarshal b)) (\<lambda>(req, b).
     run_then (returned (x_client x)) (\<lambda>mc.
     run_then (returned (load_answer x mc req g)) (\<lambda>(rsp, g).
     run_then (send_message (LoadResponse_Marshal (x_al x) rsp) (Reset b) k) (\<lambda>(ok, b, k).
     if \<not> ok then finished (k, g)
     else if lr_code rsp \<noteq> STATUS_SUCCESS then finished (k, g)
     else if ld_only_metadata req then finished (k, g)
     else handleLoad_data x rsp b k g))))))"

section \<open>Batch load\<close>

fun batch_entries ::
  "('db, 'q) libs \<Rightarrow> bool \<Rightarrow> Metadata list \<Rightarrow> storage \<Rightarrow> (int \<times> InterNodeLoadResponse list) result" where
  "batch_entries x only_metadata [] s = Inr (STATUS_SUCCESS, [])"
| "batch_entries x only_metadata (item # items) s =
     (if state item = OBSOLESCENT then batch_entries x only_metadata items s
      else let data = new_LoadResponse\<lparr>lr_metadata := item\<rparr> in
        if only_metadata
        then and_then (batch_entries x only_metadata items s) (\<lambda>(rc, rs). Inr (rc, data # rs))
        else and_then (Storage_Load (my_rank x) item s) (\<lambda>found.
          case found of None \<Rightarrow> Inr (STATUS_UNKNOWN_ERROR, [])
          | Some entry \<Rightarrow> and_then (batch_entries x only_metadata items s)
              (\<lambda>(rc, rs). Inr (rc, data\<lparr>lr_data_entry := entry\<rparr> # rs))))"

definition batch_answer ::
  "('db, 'q) libs \<Rightarrow> 'db meta_client \<Rightarrow> InterNodeBatchLoadRequest \<Rightarrow> ('db, 'q) engine \<Rightarrow>
     (InterNodeBatchLoadResponse \<times> ('db, 'q) engine) result" where
  "batch_answer x mc req g =
     and_then (mc_BatchLoad mc (bl_filter req) (g_db g)) (\<lambda>(rc, vec, db).
     let g = g\<lparr>g_db := db\<rparr> in
     if IsNotFound rc then Inr (new_BatchLoadResponse\<lparr>br_code := rc\<rparr>, g)
     else if \<not> IsSuccess rc then Inr (new_BatchLoadResponse\<lparr>br_code := rc\<rparr>, g)
     else and_then (batch_entries x (bl_only_metadata req) vec (g_store g)) (\<lambda>(rc, rs).
       Inr (\<lparr>br_responses = rs, br_code = rc\<rparr>, g)))"

definition handleBatchLoad ::
  "('db, 'q) libs \<Rightarrow> 'q conn \<Rightarrow> ('db, 'q) engine \<Rightarrow> ('q conn \<times> ('db, 'q) engine) outcome" where
  "handleBatchLoad x k g =
     run_then (returned (Buffer_new (x_al x))) (\<lambda>b.
     run_then (conn_read (x_al x) b k) (\<lambda>(ok, b, k).
     if \<not> ok then finished (k, g)
     else run_then (returned (BatchLoadRequest_Unmarshal b)) (\<lambda>(req, b).
     run_then (returned (x_client x)) (\<lambda>mc.
     run_then (returned (batch_answer x mc req g)) (\<lambda>(rsp, g).
     run_then (send_message (BatchLoadResponse_Marshal (x_al x) rsp) (Reset b) k) (\<lambda>(ok, b, k).
     finished (k, g)))))))"

section \<open>Notify backup\<close>

text \<open>One task of the threads: back up one file.\<close>

definition backupEach ::
  "('db, 'q) libs \<Rightarrow> Metadata \<Rightarrow> ('db, 'q) engine \<Rightarrow> (bool \<times> ('db, 'q) engine) outcome" where
  "backupEach x md g =
     run_then (returned (Storage_Load (my_rank x) md (g_store g))) (\<lambda>found.
     case found of None \<Rightarrow> finished (False, g)
     | Some entry \<Rightarrow>
       if state md = OBSOLESCENT then finished (True, g)
       else run_then (ClientUtil_Backup x
              \<lparr>bk_metadata = md, bk_data_entry = entry, bk_only_metadata = False\<rparr> STATUS_SUCCESS g)
              (\<lambda>((ok, _), _, g). finished (ok, g)))"

fun backup_tasks ::
  "('db, 'q) libs \<Rightarrow> Metadata list \<Rightarrow> ('db, 'q) engine \<Rightarrow> (bool \<times> ('db, 'q) engine) outcome" where
  "backup_tasks x [] g = finished (True, g)"
| "backup_tasks x (md # mds) g =
     run_then (backupEach x md g) (\<lambda>(ok, g).
     run_then (backup_tasks x mds g) (\<lambda>(res, g). finished (ok \<and> res, g)))"

definition needs_backup :: "Metadata \<Rightarrow> bool" where
  "needs_backup md \<longleftrightarrow> state md = BACKED_UP \<or> state md = PERSISTENT"

text \<open>The early return when the cache is not complete: nothing has been sent.\<close>

definition cache_incomplete :: "Metadata list \<Rightarrow> storage \<Rightarrow> bool" where
  "cache_incomplete vec s \<longleftrightarrow>
     dom (own_dict s) = {} \<or> length (filter needs_backup vec) \<noteq> card (dom (own_dict s))"

definition handleNotifyBackup ::
  "('db, 'q) libs \<Rightarrow> 'q conn \<Rightarrow> ('db, 'q) engine \<Rightarrow> ('q conn \<times> ('db, 'q) engine) outcome" where
  "handleNotifyBackup x k g =
     run_then (returned (x_client x)) (\<lambda>mc.
     run_then (returned (mc_BatchLoad mc
         \<lparr>ft_node_rank = my_rank x, ft_iteration = '''', ft_state = STATE_ANY\<rparr> (g_db g))) (\<lambda>(rc, vec, db).
     let g = g\<lparr>g_db := db\<rparr>;
         rsp = (if IsNotFound rc then rc else if \<not> IsSuccess rc then rc else STATUS_SUCCESS) in
     if cache_incomplete vec (g_store g) then finished (k, g)
     else run_then (backup_tasks x vec g) (\<lambda>(res, g).
       let rsp = (if \<not> res then STATUS_UNKNOWN_ERROR else rsp) in
       run_then (returned (Buffer_new (x_al x))) (\<lambda>b.
       run_then (send_message (Code_Marshal (x_al x) rsp) b k) (\<lambda>(ok, b, k).
       finished (k, g))))))"

section \<open>The loop of a connection\<close>

text \<open>The switch of \<open>execute\<close>; \<open>False\<close>: an undefined routine.\<close>

definition dispatch ::
  "('db, 'q) libs \<Rightarrow> size_t \<Rightarrow> 'q conn \<Rightarrow> ('db, 'q) engine \<Rightarrow> (bool \<times> 'q conn \<times> ('db, 'q) engine) outcome" where
  "dispatch x routine k g =
     (let handled = (\<lambda>r. run_then r (\<lambda>(k, g). finished (True, k, g))) in
      if routine = routine_code INTER_NODE_BACKUP then handled (handleBackup x k g)
      else if routine = routine_code INTER_NODE_LOAD then handled (handleLoad x k g)
      else if routine = routine_code INTER_NODE_BATCH_LOAD then handled (handleBatchLoad x k g)
      else if routine = routine_code INTER_NODE_NOTIFY_BACKUP then handled (handleNotifyBackup x k g)
      else finished (False, k, g))"

text \<open>The loop, for at most \<open>n\<close> rounds.\<close>

fun execute ::
  "('db, 'q) libs \<Rightarrow> nat \<Rightarrow> buffer \<Rightarrow> 'q conn \<Rightarrow> ('db, 'q) engine \<Rightarrow> ('q conn \<times> ('db, 'q) engine) outcome" where
  "execute x 0 b k g = Inr None"
| "execute x (Suc n) b k g =
     run_then (conn_read (x_al x) b k) (\<lambda>(ok, b, k).
     if \<not> ok then finished (k, g)
     else if GetBufferSize b \<noteq> 8 then finished (k, g)
     else run_then (returned (Get_size b)) (\<lambda>(routine, b).
     run_then (dispatch x routine k g) (\<lambda>(go, k, g).
     if go then execute x n (Reset b) k g else finished (k, g))))"

text \<open>
  A connection is served until it ends; every round reads at least one byte of what the peer
  sends, so one round more than the bytes that come is enough (\<open>execute_enough\<close>).
\<close>

definition serve_connection ::
  "('db, 'q) libs \<Rightarrow> 'q conn \<Rightarrow> ('db, 'q) engine \<Rightarrow> ('q conn \<times> ('db, 'q) engine) outcome" where
  "serve_connection x k g =
     run_then (returned (Buffer_new (x_al x))) (\<lambda>b.
     run_then (execute x (Suc (length (in_bytes (k_in k)))) b k g) (\<lambda>(k, g).
     case RdmaCommunicator_delete (x_dok x) (k_comm k) (g_verbs g) (g_nics g) of (fds, v, h) \<Rightarrow>
       finished (k, g\<lparr>g_verbs := v, g_nics := h\<rparr>)))"

text \<open>
  The loop of \<open>Serve\<close> over the results of \<open>accept\<close>: descriptor, \<open>errno\<close> and, where a connection
  came, what it will say.  Each connection has a thread of its own in the code; here one is served
  after the other.  A null communicator is used by its thread.
\<close>

fun serve_accepted ::
  "('db, 'q) libs \<Rightarrow> endpoint \<Rightarrow> (int \<times> int \<times> 'q conn) list \<Rightarrow> ('db, 'q) engine \<Rightarrow>
     ('q conn list \<times> ('db, 'q) engine) outcome" where
  "serve_accepted x ep [] g = finished ([], g)"
| "serve_accepted x ep ((ret, errno, k) # rest) g =
     (case Accept ret errno of
        None \<Rightarrow> Inl (UB ''null communicator'')
      | Some fd \<Rightarrow>
        (case RdmaCommunicator_new ep (sint fd) (g_nics g) of (c, h) \<Rightarrow>
           run_then (serve_connection x (k\<lparr>k_comm := c\<rparr>) (g\<lparr>g_nics := h\<rparr>)) (\<lambda>(k, g).
           run_then (serve_accepted x ep rest g) (\<lambda>(ks, g). finished (k # ks, g)))))"

section \<open>Every round reads something\<close>

text \<open>What is left of the peer's bytes.\<close>

definition pending :: "'q conn \<Rightarrow> nat" where
  "pending k = length (in_bytes (k_in k))"

lemma pending_updates [simp]:
  "pending (k\<lparr>k_out := s\<rparr>) = pending k" "pending (k\<lparr>k_comm := c\<rparr>) = pending k"
  "pending (k\<lparr>k_dev := d\<rparr>) = pending k" "pending (k\<lparr>k_in := i\<rparr>) = length (in_bytes i)"
  by (simp_all add: pending_def)

named_theorems pending_rules \<open>the calls read forward\<close>

lemma pending_read_strict:
  "ensures (conn_read al b k) (\<lambda>(ok, b', k'). pending k' + of_bool ok \<le> pending k)"
  by (rule ensuresI)
    (auto simp: conn_read_def and_then_Inr_iff finished_def pending_def dest!: Read_shorter)

lemma pending_read [pending_rules]:
  "pending k \<le> n \<Longrightarrow> ensures (conn_read al b k) (\<lambda>(ok, b', k'). pending k' \<le> n)"
  by (rule ensures_mono [OF pending_read_strict]) auto

lemma pending_receive [pending_rules]:
  "pending k \<le> n \<Longrightarrow> ensures (receive_message al b k) (\<lambda>(ok, b', k'). pending k' \<le> n)"
  unfolding receive_message_def by (rule pending_read)

lemma pending_send [pending_rules]:
  "pending k \<le> n \<Longrightarrow> ensures (send_message f b k) (\<lambda>(ok, b', k'). pending k' \<le> n)"
  by (rule ensuresI)
    (auto simp: send_message_def conn_write_def run_then_finished_iff and_then_Inr_iff finished_def returned_def)

lemma pending_handshake [pending_rules]:
  "pending k \<le> n \<Longrightarrow> ensures (conn_handshake x a m k g) (\<lambda>(rc, k', g'). pending k' \<le> n)"
  by (rule ensuresI) (auto simp: conn_handshake_def pending_def dest!: rdma_handshake_shorter)

text \<open>A call on values does not touch the connection.\<close>

lemma ensures_value [pending_rules]: "ensures r (\<lambda>_. True)"
  by (auto simp: ensures_def split: sum.splits option.splits)

lemma ensures_if:
  "(c \<Longrightarrow> ensures r P) \<Longrightarrow> (\<not> c \<Longrightarrow> ensures r' P) \<Longrightarrow> ensures (if c then r else r') P"
  by simp

lemma pending_handleBackup_data:
  "pending k \<le> n \<Longrightarrow> ensures (handleBackup_data x req b k g) (\<lambda>(ok, k', g'). pending k' \<le> n)"
  unfolding handleBackup_data_def
  by (rule ensures_rules pending_rules ensures_if conjI impI | assumption | clarsimp split: option.splits)+


lemma pending_handleLoad_data:
  "pending k \<le> n \<Longrightarrow> ensures (handleLoad_data x rsp b k g) (\<lambda>(k', g'). pending k' \<le> n)"
  unfolding handleLoad_data_def
  by (rule ensures_rules pending_rules ensures_if conjI impI | assumption | clarsimp)+

lemma pending_handleBackup:
  "pending k \<le> n \<Longrightarrow> ensures (handleBackup x k g) (\<lambda>(k', g'). pending k' \<le> n)"
  unfolding handleBackup_def Let_def
  by (rule ensures_rules pending_rules pending_handleBackup_data ensures_if conjI impI | assumption | clarsimp)+

lemma pending_handleLoad:
  "pending k \<le> n \<Longrightarrow> ensures (handleLoad x k g) (\<lambda>(k', g'). pending k' \<le> n)"
  unfolding handleLoad_def
  by (rule ensures_rules pending_rules pending_handleLoad_data ensures_if conjI impI | assumption | clarsimp)+

lemma pending_handleBatchLoad:
  "pending k \<le> n \<Longrightarrow> ensures (handleBatchLoad x k g) (\<lambda>(k', g'). pending k' \<le> n)"
  unfolding handleBatchLoad_def
  by (rule ensures_rules pending_rules ensures_if conjI impI | assumption | clarsimp)+

lemma pending_handleNotifyBackup:
  "pending k \<le> n \<Longrightarrow> ensures (handleNotifyBackup x k g) (\<lambda>(k', g'). pending k' \<le> n)"
  unfolding handleNotifyBackup_def Let_def
  by (rule ensures_rules pending_rules ensures_if conjI impI | assumption | clarsimp)+

lemma pending_handled:
  "ensures r (\<lambda>(k', g'). pending k' \<le> n) \<Longrightarrow>
     ensures (run_then r (\<lambda>(k, g). finished (True, k, g))) (\<lambda>(go, k', g'). pending k' \<le> n)"
  by (rule ensures_then) auto

lemma pending_dispatch:
  "pending k \<le> n \<Longrightarrow> ensures (dispatch x routine k g) (\<lambda>(go, k', g'). pending k' \<le> n)"
  by (auto simp: dispatch_def Let_def intro!: pending_handled pending_handleBackup pending_handleLoad
      pending_handleBatchLoad pending_handleNotifyBackup)

text \<open>More rounds than bytes left change nothing.\<close>

lemma run_then_cong:
  assumes "ensures r Q" and "\<And>y. Q y \<Longrightarrow> f y = f' y"
  shows "run_then r f = run_then r f'"
  using assms by (auto simp: ensures_def run_then_def and_then_def split: sum.splits option.splits)

lemma execute_enough:
  fixes x :: "('db, 'q) libs"
  shows "pending k < n \<Longrightarrow> execute x n b k g = execute x (Suc (pending k)) b k g"
proof (induction "pending k" arbitrary: n b k g rule: less_induct)
  case less
  then obtain m where n: "n = Suc m" "pending k \<le> m" by (cases n) auto
  have "execute x m b' k' g' = execute x (pending k) b' k' g'" if "pending k' < pending k" for b' g' and k' :: "'q conn"
    using less.hyps [OF that, of m b' g'] less.hyps [OF that, of "pending k" b' g'] that n(2) by simp
  note same = this
  show ?case
    unfolding n(1) execute.simps
  proof (rule run_then_cong [OF pending_read_strict], clarify)
    fix ok b1 and k1 :: "'q conn"
    assume p: "pending k1 + of_bool ok \<le> pending k"
    let ?go = "\<lambda>m b2 (go, k, g). if go then execute x m (Reset b2) k g else finished (k, g)"
    let ?round = "\<lambda>m. run_then (returned (Get_size b1))
      (\<lambda>(routine, b2). run_then (dispatch x routine k1 g) (?go m b2))"
    have "?round m = ?round (pending k)" if ok
    proof (rule run_then_cong [OF ensures_value], clarify)
      fix routine b2
      show "run_then (dispatch x routine k1 g) (?go m b2) = run_then (dispatch x routine k1 g) (?go (pending k) b2)"
        by (rule run_then_cong [OF pending_dispatch [OF order_refl]]) (use p that in \<open>auto intro!: same\<close>)
    qed
    then show "(if \<not> ok then finished (k1, g) else if GetBufferSize b1 \<noteq> 8 then finished (k1, g) else ?round m) =
      (if \<not> ok then finished (k1, g) else if GetBufferSize b1 \<noteq> 8 then finished (k1, g) else ?round (pending k))"
      by simp
  qed
qed


text \<open>The loop itself always ends: it is a handler that hangs, if anything does.\<close>

lemma execute_hangs_in_handler:
  "pending k < n \<Longrightarrow> execute x n b k g = Inr None \<Longrightarrow>
     \<exists>routine k' g'. pending k' < pending k \<and> dispatch x routine k' g' = Inr None"
proof (induction n arbitrary: b k g)
  case 0
  then show ?case by simp
next
  case (Suc m)
  obtain r where r: "conn_read (x_al x) b k = r" by blast
  from Suc.prems(2) r obtain ok b1 k1 where read: "conn_read (x_al x) b k = finished (ok, b1, k1)"
    by (auto simp: conn_read_def and_then_def split: sum.splits prod.splits)
  have p: "pending k1 + of_bool ok \<le> pending k"
    using ensuresD [OF pending_read_strict [of "x_al x" b k]] read by (simp add: finished_def)
  from Suc.prems(2) read have ok: ok by (cases ok) (auto simp: finished_def)
  then have less: "pending k1 < pending k" using p by simp
  let ?go = "\<lambda>b2 (go, k, g). if go then execute x m (Reset b2) k g else finished (k, g)"
  have "GetBufferSize b1 = 8"
    using Suc.prems(2) read ok by (auto simp: finished_def split: if_splits)
  with Suc.prems(2) read ok have rest: "run_then (returned (Get_size b1))
      (\<lambda>(routine, b2). run_then (dispatch x routine k1 g) (?go b2)) = Inr None"
    by simp
  obtain routine b2 where run: "run_then (dispatch x routine k1 g) (?go b2) = Inr None"
  proof (cases "Get_size b1")
    case (Inl e)
    with rest show ?thesis by simp
  next
    case (Inr y)
    with rest show ?thesis using that by (cases y) simp
  qed
  show ?case
  proof (cases "dispatch x routine k1 g = Inr None")
    case True
    then show ?thesis using less by blast
  next
    case False
    with run obtain go k2 g2 where d: "dispatch x routine k1 g = Inr (Some (go, k2, g2))"
      by (auto simp: run_then_def and_then_def split: sum.splits option.splits)
    with run have again: "execute x m (Reset b2) k2 g2 = Inr None"
      by (cases go) (auto simp: finished_def)
    have "pending k2 \<le> pending k1"
      using ensuresD [OF pending_dispatch [OF order_refl, of x routine k1 g] d] by simp
    then have "pending k2 < pending k" "pending k2 < m" using less Suc.prems(1) by simp_all
    with Suc.IH [OF this(2) again] show ?thesis by (meson less_trans)
  qed
qed

end
