(* ===== verification/Protocol.thy ===== *)
theory Protocol
  imports Handlers
begin

text \<open>
  The two sides of a request together: what a client (theory \<open>Requests\<close>) writes is what the handler
  of its peer (theory \<open>Handlers\<close>) reads, and the other way round.  \<open>talk\<close> is the view of a connection
  as the bytes to come and the bytes written so far.
\<close>

section \<open>Conversations\<close>

text \<open>
  The peer's bytes are there when they are read, and the connection takes what is written; the
  unread and the written bytes.
\<close>

definition talk :: "'q conn \<Rightarrow> byte list \<Rightarrow> byte list \<Rightarrow> bool" where
  "talk k r w \<longleftrightarrow> in_frags (k_in k) = [] \<and> out_room (k_out k) = None \<and> out_frags (k_out k) = [] \<and>
     in_bytes (k_in k) = r \<and> out_bytes (k_out k) = w"

text \<open>Two states of one connection between which only bytes have moved.\<close>

definition same_link :: "'q conn \<Rightarrow> 'q conn \<Rightarrow> bool" where
  "same_link k k' \<longleftrightarrow> k' = k\<lparr>k_in := k_in k', k_out := k_out k'\<rparr>"

lemma same_link_updates: "same_link k (k\<lparr>k_in := i\<rparr>)" "same_link k (k\<lparr>k_out := s\<rparr>)"
  by (simp_all add: same_link_def)

lemma same_linkD:
  assumes "same_link k k'"
  shows "k_comm k' = k_comm k" "k_qp k' = k_qp k" "k_dev k' = k_dev k" "k_answers k' = k_answers k"
    "k_ids k' = k_ids k" "k_stack k' = k_stack k" "k_lkey k' = k_lkey k"
  by (subst assms [unfolded same_link_def], simp)+

lemma same_link_iff:
  "same_link k k' \<longleftrightarrow> k_comm k' = k_comm k \<and> k_qp k' = k_qp k \<and> k_dev k' = k_dev k \<and>
     k_answers k' = k_answers k \<and> k_ids k' = k_ids k \<and> k_stack k' = k_stack k \<and> k_lkey k' = k_lkey k"
  by (cases k; cases k') (auto simp: same_link_def)

lemma same_link_trans: "same_link k k' \<Longrightarrow> same_link k' k'' \<Longrightarrow> same_link k k''"
  by (simp add: same_link_iff)

lemma send_message_ok:
  assumes "emits f bs" and "bs \<noteq> []" and "length bs \<le> 2 ^ 63" and "buf_ok b" and "content b = []"
    and "talk k r w"
  shows "\<exists>b' k'. send_message f b k = finished (True, b', k') \<and> buf_ok b' \<and> same_link k k' \<and>
     talk k' r (w @ message_frame bs)"
proof -
  obtain b1 where b1: "f b = Inr b1" "buf_ok b1" "content b1 = bs"
    using assms(1,3-5) by (auto simp: emits_def room_def wrote_def)
  have k: "out_room (k_out k) = None" "out_frags (k_out k) = []" using assms(6) by (simp_all add: talk_def)
  obtain s where s: "Write b1 (k_out k) = Inr (True, s)"
      "out_bytes s = out_bytes (k_out k) @ message_frame bs"
    using Write_frame [OF b1(2) k(1)] b1(3) assms(2) by auto
  have "out_room s = None \<and> out_frags s = []" using Write_quiet [OF s(1) k] .
  then have "send_message f b k = finished (True, b1, k\<lparr>k_out := s\<rparr>)" "talk (k\<lparr>k_out := s\<rparr>) r (w @ message_frame bs)"
    using b1(1) s assms(6) by (simp_all add: send_message_def conn_write_def talk_def)
  then show ?thesis using b1(2) same_link_updates(2) by blast
qed

lemma conn_read_ok:
  assumes "\<forall>n. al n" and "buf_ok b" and "content b = []" and "bs \<noteq> []" and "length bs \<le> 2 ^ 63"
    and "talk k (message_frame bs @ r) w"
  shows "\<exists>b' k'. conn_read al b k = finished (True, b', k') \<and> buf_ok b' \<and> content b' = bs \<and> unread b' = bs \<and>
     same_link k k' \<and> talk k' r w"
proof -
  have "unat (buf_length b) = 0" using length_content [OF assms(2)] assms(3) by simp
  then have "buf_length b = 0" by (simp add: unat_eq_zero)
  moreover have "in_bytes (k_in k) = message_frame bs @ r" using assms(6) by (simp add: talk_def)
  moreover have "length bs < 2 ^ 64" using assms(5) by simp
  ultimately obtain b' i where i: "Read al b (k_in k) = Inr (True, b', i)" "buf_ok b'" "content b' = bs"
      "unread b' = bs" "in_bytes i = r"
    using Read_frame [OF assms(2) _ assms(1) _ assms(4)] by metis
  have "in_frags i = []" using Read_quiet [OF i(1)] assms(6) by (simp add: talk_def)
  then have "conn_read al b k = finished (True, b', k\<lparr>k_in := i\<rparr>)" "talk (k\<lparr>k_in := i\<rparr>) r w"
    using i(1,5) assms(6) by (simp_all add: conn_read_def talk_def)
  then show ?thesis using i(2-4) same_link_updates(1) by blast
qed

lemma receive_message_ok:
  assumes "\<forall>n. al n" and "buf_ok b" and "bs \<noteq> []" and "length bs \<le> 2 ^ 63"
    and "talk k (message_frame bs @ r) w"
  shows "\<exists>b' k'. receive_message al b k = finished (True, b', k') \<and> buf_ok b' \<and> content b' = bs \<and> unread b' = bs \<and>
     same_link k k' \<and> talk k' r w"
  using conn_read_ok [OF assms(1) _ _ assms(3-5), of "Reset b"] Reset_ok [OF assms(2)]
  by (simp add: receive_message_def)

lemma parse_ok:
  assumes "parses u bs v" and "buf_ok b" and "unread b = bs"
  shows "\<exists>b'. returned (u b) = finished (v, b') \<and> buf_ok b'"
  using parsesD [OF assms(1,2), of "[]"] assms(3) by auto

text \<open>One side's handshake, in a conversation with a peer that has \<open>pc\<close> and \<open>pl\<close>.\<close>

definition link_ready ::
  "('q \<Rightarrow> qp_state \<times> 32 word) \<Rightarrow> ('db, 'q) libs \<Rightarrow> size_t \<Rightarrow> size_t \<Rightarrow> 'q conn \<Rightarrow> verbs \<Rightarrow> rdma_comm \<Rightarrow> verbs \<Rightarrow>
     bool" where
  "link_ready obs x a n k v l v' \<longleftrightarrow>
     create_resource (k_answers k) (x_dok x) ((c_link (k_comm k))\<lparr>region := a, region_size := n\<rparr>) v =
       (STATUS_SUCCESS, l, v') \<and>
     fst (obs (k_qp k)) = RESET \<and> ids_ok l (k_ids k) \<and> length (k_stack k) = CM_SIZE"

lemma link_ready_same: "same_link k k' \<Longrightarrow> link_ready obs x a n k' v l v' = link_ready obs x a n k v l v'"
  by (simp add: link_ready_def same_linkD)

lemma handshake_ok:
  assumes "modify_contract obs (x_modify x)" and "link_ready obs x a n k (g_verbs g) l v" and "ids_ok pc pl"
    and "talk k (con_frame pc pl @ [81] @ r) w"
  shows "\<exists>k'. conn_handshake x a n k g = finished (STATUS_SUCCESS, k', g\<lparr>g_verbs := v\<rparr>) \<and>
     c_link (k_comm k') = l\<lparr>remote_props := local_con_data pc pl\<rparr> \<and> k_dev k' = k_dev k \<and> k_lkey k' = k_lkey k \<and>
     talk k' r (w @ con_frame l (k_ids k) @ [81])"
proof -
  have k: "create_resource (k_answers k) (x_dok x) ((c_link (k_comm k))\<lparr>region := a, region_size := n\<rparr>) (g_verbs g) =
      (STATUS_SUCCESS, l, v)" "fst (obs (k_qp k)) = RESET" "ids_ok l (k_ids k)" "length (k_stack k) = CM_SIZE"
    using assms(2) by (simp_all add: link_ready_def)
  have t: "in_bytes (k_in k) = con_frame pc pl @ [81] @ r" "in_frags (k_in k) = []"
      "out_room (k_out k) = None" "out_frags (k_out k) = []" "out_bytes (k_out k) = w"
    using assms(4) by (simp_all add: talk_def)
  obtain q i s where q: "connect_qp (x_modify x) (k_ids k) l (k_stack k) (k_qp k) (k_in k) (k_out k) =
       Some (STATUS_SUCCESS, l\<lparr>remote_props := local_con_data pc pl\<rparr>, q, i, s)"
      "out_bytes s = out_bytes (k_out k) @ con_frame l (k_ids k) @ [81]" "in_bytes i = r"
      "in_frags i = []" "out_room s = None" "out_frags s = []"
    using connect_qp_one_side [OF assms(1) k(2,3) assms(3) t(1-4) k(4)] by blast
  let ?k = "k\<lparr>k_comm := (k_comm k)\<lparr>c_link := l\<lparr>remote_props := local_con_data pc pl\<rparr>\<rparr>, k_qp := q, k_in := i, k_out := s\<rparr>"
  have "conn_handshake x a n k g = finished (STATUS_SUCCESS, ?k, g\<lparr>g_verbs := v\<rparr>)"
    using k(1) q(1) by (simp add: conn_handshake_def rdma_handshake_def IsSuccess_def finished_def)
  then show ?thesis using q t by (intro exI [of _ ?k]) (simp add: talk_def)
qed

section \<open>A backup\<close>

text \<open>What each side says.\<close>

definition backup_call :: "InterNodeBackupRequest \<Rightarrow> byte list" where
  "backup_call req = message_frame (size_bytes (routine_code INTER_NODE_BACKUP)) @
     message_frame (backup_request_bytes req)"

definition code_answer :: "int \<Rightarrow> byte list" where
  "code_answer rc = message_frame (int_bytes rc)"

definition note_frame :: "string \<Rightarrow> byte list" where
  "note_frame s = message_frame (string_bytes s)"

lemma string_bytes_ne: "string_bytes s \<noteq> []"
  by (simp add: string_bytes_def)

lemma W_length: "length (string_bytes ''W'') \<le> 2 ^ 63"
  by (simp add: string_bytes_def c_str_def)

lemma talk_same_dev: "talk (k\<lparr>k_dev := d\<rparr>) r w = talk k r w"
  by (simp add: talk_def)

lemma backup_request_bytes_ne: "backup_request_bytes req \<noteq> []"
  by (simp add: backup_request_bytes_def bool_bytes_def)

lemma Backup_data_ok:
  assumes al: "\<forall>n. x_al x n" and "modify_contract obs (x_modify x)"
    and "link_ready obs x a n k (g_verbs g) l v" and "ids_ok pc pl"
    and "talk k (con_frame pc pl @ [81] @ r) w" and "buf_ok b"
    and "address (bk_data_entry req) = a" and "msize (bk_metadata req) = n"
    and "rdma_write (x_nic x) (l\<lparr>remote_props := local_con_data pc pl\<rparr>) (k_lkey k) a 0 0 n
           ((k_dev k)\<lparr>dev_local := g_mem g\<rparr>) = Inr (Some (True, d))"
  shows "\<exists>k'. Backup_data x req b k g = finished (True, k', g\<lparr>g_verbs := v, g_mem := dev_local d\<rparr>) \<and>
     k_dev k' = d \<and> talk k' r (w @ con_frame l (k_ids k) @ [81] @ note_frame ''W'')"
proof -
  obtain k1 where k1: "conn_handshake x a n k g = finished (STATUS_SUCCESS, k1, g\<lparr>g_verbs := v\<rparr>)"
      "c_link (k_comm k1) = l\<lparr>remote_props := local_con_data pc pl\<rparr>" "k_dev k1 = k_dev k" "k_lkey k1 = k_lkey k"
      "talk k1 r (w @ con_frame l (k_ids k) @ [81])"
    using handshake_ok [OF assms(2-5)] by blast
  have w: "conn_rdma_write x a n k1 (g\<lparr>g_verbs := v\<rparr>) =
      finished (True, k1\<lparr>k_dev := d\<rparr>, g\<lparr>g_verbs := v, g_mem := dev_local d\<rparr>)"
    using assms(9) k1(2-4) by (simp add: conn_rdma_write_def after_transfer_def)
  have "buf_ok (Reset b)" "content (Reset b) = []" using Reset_ok [OF assms(6)] by simp_all
  from send_message_ok [OF emits_AddString [OF al, of "''W''"] string_bytes_ne W_length this,
      of "k1\<lparr>k_dev := d\<rparr>" r "w @ con_frame l (k_ids k) @ [81]"] k1(5)
  obtain b' k2 where "send_message (AddString (x_al x) ''W'') (Reset b) (k1\<lparr>k_dev := d\<rparr>) = finished (True, b', k2)"
      "same_link (k1\<lparr>k_dev := d\<rparr>) k2" "talk k2 r ((w @ con_frame l (k_ids k) @ [81]) @ note_frame ''W'')"
    by (auto simp: talk_same_dev note_frame_def)
  then show ?thesis
    using k1(1) w by (intro exI [of _ k2]) (simp add: Backup_data_def Let_def assms(7,8) IsSuccess_def same_linkD)
qed

lemma Backup_exchange_ok:
  assumes al: "\<forall>n. x_al x n" and "modify_contract obs (x_modify x)"
    and "link_ready obs x a n k (g_verbs g) l v" and "ids_ok pc pl"
    and "talk k (code_answer STATUS_SUCCESS @ con_frame pc pl @ [81] @ r) w" and "buf_ok b" and "content b = []"
    and "length (backup_request_bytes req) \<le> 2 ^ 63" and "\<not> bk_only_metadata req"
    and "address (bk_data_entry req) = a" and "msize (bk_metadata req) = n"
    and "rdma_write (x_nic x) (l\<lparr>remote_props := local_con_data pc pl\<rparr>) (k_lkey k) a 0 0 n
           ((k_dev k)\<lparr>dev_local := g_mem g\<rparr>) = Inr (Some (True, d))"
  shows "\<exists>k'. Backup_exchange x req rsp b k g =
       finished ((True, STATUS_SUCCESS), k', g\<lparr>g_verbs := v, g_mem := dev_local d\<rparr>) \<and> k_dev k' = d \<and>
     talk k' r (w @ backup_call req @ con_frame l (k_ids k) @ [81] @ note_frame ''W'')"
proof -
  let ?rt = "size_bytes (routine_code INTER_NODE_BACKUP)"
  obtain b1 k1 where k1: "send_message (Add (x_al x) ?rt) b k = finished (True, b1, k1)" "buf_ok b1"
      "same_link k k1" "talk k1 (code_answer STATUS_SUCCESS @ con_frame pc pl @ [81] @ r) (w @ message_frame ?rt)"
    using send_message_ok [OF emits_Add [OF al, of ?rt] _ _ assms(6,7,5)]
    by (auto simp: size_bytes_def simp flip: length_0_conv)
  have "buf_ok (Reset b1)" "content (Reset b1) = []" using Reset_ok [OF k1(2)] by simp_all
  from send_message_ok [OF emits_BackupRequest [OF al, of req] backup_request_bytes_ne assms(8) this k1(4)]
  obtain b2 k2 where k2: "send_message (BackupRequest_Marshal (x_al x) req) (Reset b1) k1 = finished (True, b2, k2)"
      "buf_ok b2" "same_link k1 k2"
      "talk k2 (code_answer STATUS_SUCCESS @ con_frame pc pl @ [81] @ r) (w @ backup_call req)"
    by (auto simp: backup_call_def)
  have ne: "int_bytes STATUS_SUCCESS \<noteq> []" "length (int_bytes STATUS_SUCCESS) \<le> 2 ^ 63"
    by (simp_all flip: length_0_conv)
  obtain b3 k3 where k3: "receive_message (x_al x) b2 k2 = finished (True, b3, k3)" "buf_ok b3"
      "unread b3 = int_bytes STATUS_SUCCESS" "same_link k2 k3"
      "talk k3 (con_frame pc pl @ [81] @ r) (w @ backup_call req)"
    using receive_message_ok [OF al k2(2) ne k2(4) [unfolded code_answer_def]] by blast
  obtain b4 where b4: "returned (Code_Unmarshal b3) = finished (STATUS_SUCCESS, b4)" "buf_ok b4"
    using parse_ok [OF parses_Code k3(2,3)] by (auto simp: int_range_def STATUS_SUCCESS_def)
  have link: "same_link k k3"
    using k1(3) k2(3) k3(4) by (blast intro: same_link_trans)
  obtain k4 where "Backup_data x req b4 k3 g = finished (True, k4, g\<lparr>g_verbs := v, g_mem := dev_local d\<rparr>)"
      "k_dev k4 = d" "talk k4 r ((w @ backup_call req) @ con_frame l (k_ids k3) @ [81] @ note_frame ''W'')"
    using Backup_data_ok [OF al assms(2) _ assms(4) k3(5) b4(2) assms(10,11), of g l v d] assms(3,12)
    by (auto simp: link_ready_same [OF link] same_linkD [OF link])
  then show ?thesis
    using k1(1) k2(1) k3(1) b4(1) assms(9)
    by (intro exI [of _ k4]) (simp add: Backup_exchange_def same_linkD [OF link])
qed

text \<open>The handler's side, from its request on.\<close>

lemma handleBackup_data_ok:
  assumes al: "\<forall>n. x_al x n" and "modify_contract obs (x_modify x)"
    and "backup_entry x (bk_metadata req) g = Inr (Some e, g1)"
    and "link_ready obs x (address e) (msize (bk_metadata req)) k (g_verbs g1) l v" and "ids_ok pc pl"
    and "talk k (con_frame pc pl @ [81] @ note_frame ''W'' @ r) w" and "buf_ok b"
  shows "\<exists>k'. handleBackup_data x req b k g = finished (True, k', g1\<lparr>g_verbs := v\<rparr>) \<and>
     talk k' r (w @ con_frame l (k_ids k) @ [81])"
proof -
  obtain k1 where k1: "conn_handshake x (address e) (msize (bk_metadata req)) k g1 =
        finished (STATUS_SUCCESS, k1, g1\<lparr>g_verbs := v\<rparr>)"
      "talk k1 (note_frame ''W'' @ r) (w @ con_frame l (k_ids k) @ [81])"
    using handshake_ok [OF assms(2,4,5,6)] by blast
  obtain b1 k2 where k2: "receive_message (x_al x) b k1 = finished (True, b1, k2)" "buf_ok b1"
      "unread b1 = string_bytes ''W''" "talk k2 r (w @ con_frame l (k_ids k) @ [81])"
    using receive_message_ok [OF al assms(7) string_bytes_ne W_length k1(2) [unfolded note_frame_def]] by blast
  have "string_ok ''W''" by (simp add: string_ok_def)
  then obtain b2 where "returned (GetString b1) = finished (''W'', b2)"
    using parse_ok [OF parses_GetString k2(2,3)] by blast
  then show ?thesis
    using assms(3) k1(1) k2(1,4)
    by (intro exI [of _ k2]) (simp add: handleBackup_data_def RDMA_WRITE_MSG_def IsSuccess_def)
qed

text \<open>Every handler starts by reading its request.\<close>

lemma Buffer_new_finished:
  "\<forall>n. al n \<Longrightarrow> \<exists>b. returned (Buffer_new al) = finished b \<and> buf_ok b \<and> content b = []"
  using Buffer_new_ok [of al] by auto

lemma handleBackup_ok:
  assumes al: "\<forall>n. x_al x n" and "modify_contract obs (x_modify x)"
    and "backup_request_ok req" and "length (backup_request_bytes req) \<le> 2 ^ 63" and "\<not> bk_only_metadata req"
    and "msize (bk_metadata req) \<le> total_idle (mstat (g_mon g))"
    and "backup_entry x (bk_metadata req) g = Inr (Some e, g1)"
    and "link_ready obs x (address e) (msize (bk_metadata req)) k (g_verbs g1) l v" and "ids_ok pc pl"
    and "talk k (message_frame (backup_request_bytes req) @ con_frame pc pl @ [81] @ note_frame ''W'' @ r) w"
    and "AddRateLimited (x_now x) (file_name (bk_metadata req)) (g_op g1) = Inr (Some op')"
  shows "\<exists>k'. handleBackup x k g = finished (k', g1\<lparr>g_verbs := v, g_op := op'\<rparr>) \<and>
     talk k' r (w @ code_answer STATUS_SUCCESS @ con_frame l (k_ids k) @ [81])"
proof -
  obtain b where b: "returned (Buffer_new (x_al x)) = finished b" "buf_ok b" "content b = []"
    using Buffer_new_finished [OF al] by blast
  obtain b1 k1 where k1: "conn_read (x_al x) b k = finished (True, b1, k1)" "buf_ok b1"
      "unread b1 = backup_request_bytes req" "same_link k k1"
      "talk k1 (con_frame pc pl @ [81] @ note_frame ''W'' @ r) w"
    using conn_read_ok [OF al b(2,3) backup_request_bytes_ne assms(4,10)] by blast
  obtain b2 where b2: "returned (BackupRequest_Unmarshal b1) = finished (req, b2)" "buf_ok b2"
    using parse_ok [OF parses_BackupRequest [OF assms(3)] k1(2,3)] by blast
  have ne: "int_bytes STATUS_SUCCESS \<noteq> []" "length (int_bytes STATUS_SUCCESS) \<le> 2 ^ 63"
    by (simp_all flip: length_0_conv)
  have "buf_ok (Reset b2)" "content (Reset b2) = []" using Reset_ok [OF b2(2)] by simp_all
  from send_message_ok [OF emits_Code [OF al] ne this k1(5)]
  obtain b3 k2 where k2: "send_message (Code_Marshal (x_al x) STATUS_SUCCESS) (Reset b2) k1 = finished (True, b3, k2)"
      "buf_ok b3" "same_link k1 k2"
      "talk k2 (con_frame pc pl @ [81] @ note_frame ''W'' @ r) (w @ code_answer STATUS_SUCCESS)"
    by (auto simp: code_answer_def)
  have link: "same_link k k2" using same_link_trans [OF k1(4) k2(3)] .
  obtain k3 where "handleBackup_data x req b3 k2 g = finished (True, k3, g1\<lparr>g_verbs := v\<rparr>)"
      "talk k3 r ((w @ code_answer STATUS_SUCCESS) @ con_frame l (k_ids k2) @ [81])"
    using handleBackup_data_ok [OF al assms(2,7) _ assms(9) k2(4,2), of l v] assms(8)
    by (auto simp: link_ready_same [OF link])
  moreover have "\<not> total_idle (mstat (g_mon g)) < msize (bk_metadata req)" using assms(6) by (rule leD)
  ultimately show ?thesis
    using b(1) k1(1) b2(1) k2(1) assms(5,11)
    by (intro exI [of _ k3])
      (simp add: handleBackup_def Let_def GetMemoryStat_def same_linkD [OF link] finished_def [symmetric])
qed

section \<open>The loop of a connection\<close>

text \<open>A round that reads a routine number; the round that finds the connection ended.\<close>

lemma execute_round:
  assumes al: "\<forall>n. x_al x n" and "buf_ok b" and "content b = []"
    and "talk k (message_frame (size_bytes c) @ r) w"
  shows "\<exists>b' k'. execute x (Suc n) b k g = run_then (dispatch x c k' g)
       (\<lambda>(go, k, g). if go then execute x n (Reset b') k g else finished (k, g)) \<and>
     buf_ok b' \<and> same_link k k' \<and> talk k' r w"
proof -
  have ne: "size_bytes c \<noteq> []" "length (size_bytes c) \<le> 2 ^ 63" by (simp_all flip: length_0_conv)
  obtain b1 k1 where k1: "conn_read (x_al x) b k = finished (True, b1, k1)" "buf_ok b1"
      "content b1 = size_bytes c" "unread b1 = size_bytes c" "same_link k k1" "talk k1 r w"
    using conn_read_ok [OF al assms(2,3) ne assms(4)] by blast
  have "unat (buf_length b1) = 8" using length_content [OF k1(2)] k1(3) by simp
  then have "of_nat (unat (buf_length b1)) = (of_nat 8 :: size_t)" by (rule arg_cong)
  then have "GetBufferSize b1 = 8" by (simp add: GetBufferSize_def)
  moreover obtain b2 where "returned (Get_size b1) = finished (c, b2)" "buf_ok b2"
    using parse_ok [OF parses_Get_size k1(2,4)] by blast
  ultimately show ?thesis using k1 by (intro exI [of _ b2] exI [of _ k1]) simp
qed

lemma Read_ended:
  assumes "in_bytes s = []" and "buf_length b = 0"
  shows "Read al b s = Inr (False, store_cells [] b, s) \<or> Read al b s = Inr (False, b, s)"
proof -
  have "sock_recv 8 s = (word_of_int (ending_code (in_end s)), [], s)"
    using assms(1) by (cases "in_end s")
      (simp_all add: sock_recv_def sock_recv_loop.simps [of _ "[]"] recv1_def)
  moreover have "partial_size [] = 0"
    by (simp add: partial_size_def size_of_bytes_def eval_nat_numeral)
  moreover have "sock_recv 0 s = (0, [], s)" by (simp add: sock_recv_def sock_recv_loop.simps)
  ultimately show ?thesis
    using assms(2) by (cases "in_end s") (simp_all add: Read_def GetBufferSize_def Realloc_def Let_def)
qed

lemma execute_ended:
  assumes "talk k [] w"
  shows "execute x (Suc n) (Reset b) k g = finished (k, g)"
proof -
  have "in_bytes (k_in k) = []" using assms by (simp add: talk_def)
  then have "Read (x_al x) (Reset b) (k_in k) = Inr (False, store_cells [] (Reset b), k_in k) \<or>
      Read (x_al x) (Reset b) (k_in k) = Inr (False, Reset b, k_in k)"
    by (rule Read_ended) (simp add: Reset_def)
  moreover have "k\<lparr>k_in := k_in k\<rparr> = k" by simp
  ultimately show ?thesis by (auto simp: conn_read_def)
qed

lemma serve_one_request:
  assumes al: "\<forall>n. x_al x n" and "talk k (message_frame (size_bytes c) @ r) w"
    and "\<And>k'. same_link k k' \<Longrightarrow> talk k' r w \<Longrightarrow> \<exists>k''. dispatch x c k' g = finished (True, k'', g') \<and> talk k'' [] w'"
  shows "\<exists>k' v h. serve_connection x k g = finished (k', g'\<lparr>g_verbs := v, g_nics := h\<rparr>) \<and> talk k' [] w'"
proof -
  obtain b where b: "returned (Buffer_new (x_al x)) = finished b" "buf_ok b" "content b = []"
    using Buffer_new_finished [OF al] by blast
  have "0 < length (in_bytes (k_in k))" using assms(2) by (simp add: talk_def message_frame_def size_bytes_def)
  then obtain m where m: "length (in_bytes (k_in k)) = Suc m" by (cases "length (in_bytes (k_in k))") auto
  obtain b' k1 where k1: "execute x (Suc (Suc m)) b k g = run_then (dispatch x c k1 g)
       (\<lambda>(go, k, g). if go then execute x (Suc m) (Reset b') k g else finished (k, g))"
      "same_link k k1" "talk k1 r w"
    using execute_round [OF al b(2,3) assms(2)] by blast
  obtain k2 where k2: "dispatch x c k1 g = finished (True, k2, g')" "talk k2 [] w'"
    using assms(3) [OF k1(2,3)] by blast
  obtain fds v h where "RdmaCommunicator_delete (x_dok x) (k_comm k2) (g_verbs g') (g_nics g') = (fds, v, h)"
    by (metis prod_cases3)
  then show ?thesis
    using b(1) m k1(1) k2 execute_ended [OF k2(2), of x]
    by (intro exI [of _ k2] exI [of _ v] exI [of _ h]) (simp add: serve_connection_def del: execute.simps)
qed

text \<open>A connection that comes about.\<close>

definition connects :: "'q dial \<Rightarrow> bool" where
  "connects d \<longleftrightarrow> 0 < r_socket (d_calls d) \<and> 0 < r_inet_pton (d_calls d) \<and> r_connect (d_calls d) = 0"

definition dialled :: "endpoint \<Rightarrow> 'q dial \<Rightarrow> nic_helper \<Rightarrow> 'q conn" where
  "dialled ep d h =
     (d_conn d)\<lparr>k_comm := (fst (RdmaCommunicator_new ep (-1) h))\<lparr>c_fd := r_socket (d_calls d)\<rparr>\<rparr>"

lemma with_connection_ok:
  assumes "g_dials g = d # ds" and "connects d"
    and "body (dialled ep d (g_nics g)) (g\<lparr>g_nics := snd (ChooseNic (g_nics g)), g_dials := ds\<rparr>) =
      finished (r, k', g')"
  shows "\<exists>v h. with_connection x ep failed body g = finished (r, k', g'\<lparr>g_verbs := v, g_nics := h\<rparr>)"
proof -
  obtain nm h where h: "ChooseNic (g_nics g) = (nm, h)" by fastforce
  obtain c where c: "RdmaCommunicator_new ep (-1) (g_nics g) = (c, h)"
    by (simp add: RdmaCommunicator_new_def h)
  obtain fds v h' where "RdmaCommunicator_delete (x_dok x) (k_comm k') (g_verbs g') (g_nics g') = (fds, v, h')"
    by (metis prod_cases3)
  then show ?thesis
    using assms h c by (intro exI [of _ v] exI [of _ h'])
      (simp add: with_connection_def connects_def Connect_def dialled_def Let_def)
qed

section \<open>Both sides of a backup\<close>

lemma allocate_keeps:
  "allocate x md e g = (rc, e', g') \<Longrightarrow> g_op g' = g_op g \<and> g_mem g' = g_mem g \<and> g_dials g' = g_dials g \<and>
     g_store g' = g_store g \<and> g_verbs g' = g_verbs g \<and> g_nics g' = g_nics g \<and> g_db g' = g_db g \<and>
     g_iters g' = g_iters g"
  by (auto simp: allocate_def note_allocation_def split: prod.splits if_splits)

lemma save_entry_effect:
  assumes "save_entry x md e g = Inr (ok, g')" and "file_name md \<noteq> []"
  shows "Storage_Load (my_rank x) md (g_store g') = Inr (Some e) \<and> ok \<and> g_op g' = g_op g \<and>
     g_mem g' = g_mem g \<and> g_dials g' = g_dials g \<and> g_verbs g' = g_verbs g \<and> g_nics g' = g_nics g"
  using assms by (auto simp: save_entry_def Storage_Save_def Storage_Load_def and_then_def split: if_splits)

lemma backup_entry_effect:
  assumes "backup_entry x md g = Inr (Some e, g1)"
  shows "Storage_Load (my_rank x) md (g_store g1) = Inr (Some e) \<and> g_op g1 = g_op g \<and> g_mem g1 = g_mem g"
proof -
  have name: "file_name md \<noteq> []" using assms by (auto simp: backup_entry_def Storage_Load_def)
  then obtain found where f: "Storage_Load (my_rank x) md (g_store g) = Inr found"
    using Storage_Load_found by blast
  show ?thesis
  proof (cases found)
    case (Some e0)
    then show ?thesis using assms f
      by (auto simp: backup_entry_def split: prod.splits if_splits)
  next
    case None
    obtain rc e0 g0 where g0: "allocate x md new_DataEntry g = (rc, e0, g0)" by (metis prod_cases3)
    obtain ok g2 where "save_entry x md e0 g0 = Inr (ok, g2)" "e = e0" "g1 = g2"
    proof -
      have "(if \<not> IsSuccess rc then Inr (None, g0)
          else and_then (save_entry x md e0 g0) (\<lambda>(_, g). Inr (Some e0, g))) = Inr (Some e, g1)"
        using assms by (simp add: backup_entry_def f None g0)
      then show thesis
        by (cases "save_entry x md e0 g0") (auto split: if_splits intro: that)
    qed
    with save_entry_effect [OF this(1) name] allocate_keeps [OF g0] show ?thesis by simp
  qed
qed

lemma dispatch_backup: "dispatch x (routine_code INTER_NODE_BACKUP) k g =
    run_then (handleBackup x k g) (\<lambda>(k, g). finished (True, k, g))"
  by (simp add: dispatch_def)

lemma ClientUtil_Backup_ok:
  assumes al: "\<forall>n. x_al x n" and "getEndpoint (x_vars x) ''rdma'' = Inr ep"
    and "getNextNode (x_resolve x) (x_world x) = Inr (Some peer)" and "g_dials g = d # ds" and "connects d"
    and "modify_contract obs (x_modify x)"
    and "link_ready obs x a n (dialled (setAddr peer ep) d (g_nics g)) (g_verbs g) l v" and "ids_ok pc pl"
    and "talk (d_conn d) (code_answer STATUS_SUCCESS @ con_frame pc pl @ [81] @ r) w"
    and "length (backup_request_bytes req) \<le> 2 ^ 63" and "\<not> bk_only_metadata req"
    and "address (bk_data_entry req) = a" and "msize (bk_metadata req) = n"
    and "rdma_write (x_nic x) (l\<lparr>remote_props := local_con_data pc pl\<rparr>) (k_lkey (d_conn d)) a 0 0 n
           ((k_dev (d_conn d))\<lparr>dev_local := g_mem g\<rparr>) = Inr (Some (True, dv))"
  shows "\<exists>k' g'. ClientUtil_Backup x req rsp g = finished ((True, STATUS_SUCCESS), Some k', g') \<and> k_dev k' = dv \<and>
     g_mem g' = dev_local dv \<and>
     talk k' r (w @ backup_call req @ con_frame l (k_ids (d_conn d)) @ [81] @ note_frame ''W'')"
proof -
  obtain b where b: "returned (Buffer_new (x_al x)) = finished b" "buf_ok b" "content b = []"
    using Buffer_new_finished [OF al] by blast
  let ?k = "dialled (setAddr peer ep) d (g_nics g)" and ?h = "snd (ChooseNic (g_nics g))"
  let ?g = "g\<lparr>g_nics := ?h, g_dials := ds\<rparr>"
  have k: "talk ?k (code_answer STATUS_SUCCESS @ con_frame pc pl @ [81] @ r) w"
    using assms(9) by (simp add: talk_def dialled_def)
  have "link_ready obs x a n ?k (g_verbs ?g) l v" using assms(7) by simp
  moreover have "rdma_write (x_nic x) (l\<lparr>remote_props := local_con_data pc pl\<rparr>) (k_lkey ?k) a 0 0 n
       ((k_dev ?k)\<lparr>dev_local := g_mem ?g\<rparr>) = Inr (Some (True, dv))"
    using assms(14) by (simp add: dialled_def)
  ultimately obtain k' where k': "Backup_exchange x req rsp b ?k ?g =
       finished ((True, STATUS_SUCCESS), k', ?g\<lparr>g_verbs := v, g_mem := dev_local dv\<rparr>)"
      "k_dev k' = dv" "talk k' r (w @ backup_call req @ con_frame l (k_ids ?k) @ [81] @ note_frame ''W'')"
    using Backup_exchange_ok [OF al assms(6) _ assms(8) k b(2,3) assms(10-13), of ?g l v dv rsp] by blast
  obtain v' h where "with_connection x (setAddr peer ep) (False, rsp) (Backup_exchange x req rsp b) g =
      finished ((True, STATUS_SUCCESS), k', (?g\<lparr>g_verbs := v, g_mem := dev_local dv\<rparr>)\<lparr>g_verbs := v', g_nics := h\<rparr>)"
    using with_connection_ok [OF assms(4,5), of "Backup_exchange x req rsp b", OF k'(1), of x "(False, rsp)"] by blast
  then show ?thesis
    using b(1) assms(2,3) k'(2,3)
    by (intro exI [of _ k'] exI [of _ "(?g\<lparr>g_verbs := v, g_mem := dev_local dv\<rparr>)\<lparr>g_verbs := v', g_nics := h\<rparr>"])
      (simp add: ClientUtil_Backup_def dialled_def)
qed

lemma serve_backup_ok:
  assumes al: "\<forall>n. x_al x n" and "modify_contract obs (x_modify x)"
    and "backup_request_ok req" and "length (backup_request_bytes req) \<le> 2 ^ 63" and "\<not> bk_only_metadata req"
    and "msize (bk_metadata req) \<le> total_idle (mstat (g_mon g))"
    and "backup_entry x (bk_metadata req) g = Inr (Some e, g1)"
    and "link_ready obs x (address e) (msize (bk_metadata req)) k (g_verbs g1) l v" and "ids_ok pc pl"
    and "talk k (backup_call req @ con_frame pc pl @ [81] @ note_frame ''W'') w"
    and "AddRateLimited (x_now x) (file_name (bk_metadata req)) (g_op g1) = Inr (Some op')"
  shows "\<exists>k' v' h. serve_connection x k g =
       finished (k', (g1\<lparr>g_verbs := v, g_op := op'\<rparr>)\<lparr>g_verbs := v', g_nics := h\<rparr>) \<and>
     talk k' [] (w @ code_answer STATUS_SUCCESS @ con_frame l (k_ids k) @ [81])"
proof -
  let ?r = "message_frame (backup_request_bytes req) @ con_frame pc pl @ [81] @ note_frame ''W''"
  have "talk k (message_frame (size_bytes (routine_code INTER_NODE_BACKUP)) @ ?r) w"
    using assms(10) by (simp add: backup_call_def)
  moreover have "\<exists>k''. dispatch x (routine_code INTER_NODE_BACKUP) k' g =
        finished (True, k'', g1\<lparr>g_verbs := v, g_op := op'\<rparr>) \<and>
      talk k'' [] (w @ code_answer STATUS_SUCCESS @ con_frame l (k_ids k) @ [81])"
    if k': "same_link k k'" "talk k' ?r w" for k'
  proof -
    have "talk k' (?r @ []) w" using k'(2) by simp
    then obtain k'' where "handleBackup x k' g = finished (k'', g1\<lparr>g_verbs := v, g_op := op'\<rparr>)"
        "talk k'' [] (w @ code_answer STATUS_SUCCESS @ con_frame l (k_ids k') @ [81])"
      using handleBackup_ok [OF al assms(2-7) _ assms(9) _ assms(11), of k' l v "[]" w] assms(8)
      by (auto simp: link_ready_same [OF k'(1)])
    then show ?thesis unfolding dispatch_backup by (intro exI [of _ k'']) (simp add: same_linkD [OF k'(1)])
  qed
  ultimately show ?thesis by (rule serve_one_request [OF al])
qed

section \<open>When the allocation fails\<close>

text \<open>Messages that fit in the buffer do not ask the allocator.\<close>

lemma Read_fitting:
  assumes "buf_ok b" and "content b = []" and "in_bytes s = message_frame bs @ rest" and "bs \<noteq> []"
    and "length bs \<le> unat (buf_size b)" and "length bs < 2 ^ 64"
  shows "\<exists>b' s'. Read al b s = Inr (True, b', s') \<and> Read (\<lambda>_. True) b s = Inr (True, b', s') \<and>
     buf_size b' = buf_size b"
proof -
  let ?n = "of_nat (length bs) :: size_t"
  have n: "unat ?n = length bs" using assms(6) by (rule unat_of_nat_small)
  have "unat (buf_length b) = 0" using length_content [OF assms(1)] assms(2) by simp
  then have b: "GetBufferSize b = 0" by (simp add: unat_eq_zero GetBufferSize_def)
  obtain s1 where s1: "sock_recv 8 s = (8, size_bytes ?n, s1)" "in_bytes s1 = bs @ rest"
    using sock_recv_exact [of s "size_bytes ?n" "bs @ rest" 8] assms(3) by (auto simp: message_frame_def)
  obtain s2 where s2: "sock_recv ?n s1 = (?n, bs, s2)"
    using sock_recv_exact [OF s1(2)] n by metis
  have "Realloc al ?n b = Inr b" "Realloc (\<lambda>_. True) ?n b = Inr b"
    using assms(5) by (simp_all add: Realloc_def word_less_nat_alt n)
  moreover have "partial_size (size_bytes ?n) = ?n" by (simp add: partial_size_def)
  moreover have "\<not> ?n \<le> 0" using n assms(4) by (simp add: word_le_nat_alt)
  ultimately show ?thesis
    using s1(1) s2 b by (simp add: Read_def Let_def SetBufferSize_def store_cells_def)
qed

lemma conn_read_fitting:
  assumes "buf_ok b" and "content b = []" and "talk k (message_frame bs @ r) w" and "bs \<noteq> []"
    and "length bs \<le> unat (buf_size b)" and "length bs \<le> 2 ^ 63"
  shows "\<exists>b' k'. conn_read al b k = finished (True, b', k') \<and> buf_ok b' \<and> content b' = bs \<and> unread b' = bs \<and>
     buf_size b' = buf_size b \<and> same_link k k' \<and> talk k' r w"
proof -
  have "in_bytes (k_in k) = message_frame bs @ r" using assms(3) by (simp add: talk_def)
  from Read_fitting [OF assms(1,2) this assms(4,5)] assms(6)
  obtain b' s' where "Read al b (k_in k) = Inr (True, b', s')" "Read (\<lambda>_. True) b (k_in k) = Inr (True, b', s')"
      "buf_size b' = buf_size b"
    by force
  then have r: "conn_read al b k = finished (True, b', k\<lparr>k_in := s'\<rparr>)" "buf_size b' = buf_size b"
      "conn_read (\<lambda>_. True) b k = finished (True, b', k\<lparr>k_in := s'\<rparr>)"
    by (simp_all add: conn_read_def)
  obtain b1 k1 where k1: "conn_read (\<lambda>_. True) b k = finished (True, b1, k1)" "buf_ok b1" "content b1 = bs"
      "unread b1 = bs" "same_link k k1" "talk k1 r w"
    using conn_read_ok [of "\<lambda>_. True", OF allI [OF TrueI] assms(1,2,4,6,3)] by blast
  have "(True, b', k\<lparr>k_in := s'\<rparr>) = (True, b1, k1)"
    using trans [OF r(3) [symmetric] k1(1)] by (simp only: finished_def sum.inject option.inject)
  then show ?thesis using r(1,2) k1(2-6) by blast
qed

lemma send_code_fitting:
  assumes "buf_ok b" and "content b = []" and "4 < buf_size b" and "talk k r w"
  shows "\<exists>b' k'. send_message (Code_Marshal al rc) b k = finished (True, b', k') \<and> buf_ok b' \<and> same_link k k' \<and>
     talk k' r (w @ code_answer rc)"
proof -
  have "unat (buf_length b) = 0" using length_content [OF assms(1)] assms(2) by simp
  then have "buf_length b = 0" by (simp add: unat_eq_zero)
  then have "Code_Marshal al rc b = Code_Marshal (\<lambda>_. True) rc b"
    using assms(3) by (simp add: Code_Marshal_def Add_def not_le [symmetric])
  moreover have "emits (Code_Marshal (\<lambda>_. True) rc) (int_bytes rc)" by (rule emits_Code) simp
  ultimately show ?thesis
    using send_message_ok [of "Code_Marshal (\<lambda>_. True) rc" "int_bytes rc", OF _ _ _ assms(1,2,4)]
    by (simp add: send_message_def code_answer_def flip: length_0_conv)
qed

text \<open>The handler has said yes, cannot get the memory, and returns to the loop.\<close>

lemma handleBackup_gives_up:
  assumes "x_al x 4096" and "backup_request_ok req" and "length (backup_request_bytes req) \<le> 4096"
    and "\<not> bk_only_metadata req" and "msize (bk_metadata req) \<le> total_idle (mstat (g_mon g))"
    and "backup_entry x (bk_metadata req) g = Inr (None, g1)"
    and "talk k (message_frame (backup_request_bytes req) @ r) w"
  shows "\<exists>k'. handleBackup x k g = finished (k', g1) \<and> talk k' r (w @ code_answer STATUS_SUCCESS)"
proof -
  obtain b where b: "Buffer_new (x_al x) = Inr b" "buf_ok b" "content b = []" "buf_size b = 4096"
    using Buffer_new_ok [of "\<lambda>_. True"] assms(1) by (auto simp: Buffer_new_def BUFFER_BLOCK_SIZE_def)
  have len: "length (backup_request_bytes req) \<le> unat (buf_size b)" "length (backup_request_bytes req) \<le> 2 ^ 63"
    using assms(3) b(4) by simp_all
  obtain b1 k1 where k1: "conn_read (x_al x) b k = finished (True, b1, k1)" "buf_ok b1"
      "content b1 = backup_request_bytes req" "unread b1 = backup_request_bytes req" "talk k1 r w"
    using conn_read_fitting [OF b(2,3) assms(7) backup_request_bytes_ne len] by blast
  obtain b2 where b2: "BackupRequest_Unmarshal b1 = Inr (req, b2)" "buf_ok b2" "content b2 = content b1"
    using parsesD [OF parses_BackupRequest [OF assms(2)] k1(2), of "[]"] k1(4) by auto
  have "4 < length (content b2)"
    using b2(3) k1(3) by (simp add: backup_request_bytes_def metadata_bytes_def string_bytes_def)
  then have "4 < buf_size b2"
    using length_content [OF b2(2)] b2(2) by (simp add: buf_ok_def word_less_nat_alt word_le_nat_alt)
  then have "4 < buf_size (Reset b2)" by (simp add: Reset_def)
  moreover have "buf_ok (Reset b2)" "content (Reset b2) = []" using Reset_ok [OF b2(2)] by simp_all
  ultimately obtain b3 k2 where "send_message (Code_Marshal (x_al x) STATUS_SUCCESS) (Reset b2) k1 = finished (True, b3, k2)"
      "talk k2 r (w @ code_answer STATUS_SUCCESS)"
    using send_code_fitting k1(5) by blast
  moreover have "\<not> total_idle (mstat (g_mon g)) < msize (bk_metadata req)" using assms(5) by (rule leD)
  ultimately show ?thesis
    using b(1) k1(1) b2(1) assms(4,6)
    by (intro exI [of _ k2]) (simp add: handleBackup_def Let_def GetMemoryStat_def handleBackup_data_def)
qed

lemma Get_size_keeps: "Get_size b = Inr (c, b') \<Longrightarrow> buf_size b' = buf_size b"
  by (auto simp: Get_size_def Get_def and_then_Inr_iff split: if_splits)

lemma execute_round_fitting:
  assumes "buf_ok b" and "content b = []" and "buf_size b = 4096"
    and "talk k (message_frame (size_bytes c) @ r) w"
  shows "\<exists>b' k'. execute x (Suc n) b k g = run_then (dispatch x c k' g)
       (\<lambda>(go, k, g). if go then execute x n (Reset b') k g else finished (k, g)) \<and>
     buf_ok b' \<and> buf_size b' = 4096 \<and> talk k' r w"
proof -
  have ne: "size_bytes c \<noteq> []" "length (size_bytes c) \<le> unat (buf_size b)" "length (size_bytes c) \<le> 2 ^ 63"
    using assms(3) by (simp_all flip: length_0_conv)
  obtain b1 k1 where k1: "conn_read (x_al x) b k = finished (True, b1, k1)" "buf_ok b1"
      "content b1 = size_bytes c" "unread b1 = size_bytes c" "buf_size b1 = 4096" "talk k1 r w"
    using conn_read_fitting [OF assms(1,2,4) ne, of "x_al x"] assms(3) by auto
  have "unat (buf_length b1) = 8" using length_content [OF k1(2)] k1(3) by simp
  then have "of_nat (unat (buf_length b1)) = (of_nat 8 :: size_t)" by (rule arg_cong)
  then have "GetBufferSize b1 = 8" by (simp add: GetBufferSize_def)
  moreover obtain b2 where "Get_size b1 = Inr (c, b2)" "buf_ok b2"
    using parsesD [OF parses_Get_size k1(2), of c "[]"] k1(4) by auto
  ultimately show ?thesis using k1 Get_size_keeps by (intro exI [of _ b2] exI [of _ k1]) auto
qed

lemma conn_read_too_large:
  assumes "buf_ok b" and "content b = []" and "talk k (size_bytes n @ r) w" and "buf_size b < n" and "\<not> al n"
  shows "conn_read al b k = Inl (Fatal ''cannot reallocate memory'')"
proof -
  have "in_bytes (k_in k) = size_bytes n @ r" using assms(3) by (simp add: talk_def)
  then obtain s1 where s1: "sock_recv 8 (k_in k) = (8, size_bytes n, s1)"
    using sock_recv_exact [of "k_in k" "size_bytes n" r 8] by auto
  have "unat (buf_length b) = 0" using length_content [OF assms(1)] assms(2) by simp
  then have "GetBufferSize b = 0" by (simp add: unat_eq_zero GetBufferSize_def)
  moreover have "partial_size (size_bytes n) = n" by (simp add: partial_size_def)
  ultimately show ?thesis
    using s1 assms(4,5) by (simp add: conn_read_def Read_def Realloc_def Let_def)
qed

lemma con_frame_header: "\<exists>tl. con_frame c l = size_bytes (htonll (region c)) @ tl"
  by (simp add: con_frame_def con_bytes_def con_to_net_def local_con_data_def size_bytes_def)

section \<open>Both sides of a backup\<close>

lemma backup_both_sides:
  assumes "\<forall>n. x_al xc n" and "\<forall>n. x_al xs n" and "modify_contract obs (x_modify xc)"
    and "modify_contract obs (x_modify xs)" and "nic_contract (x_nic xc)"
    and "backup_request_ok req" and "length (backup_request_bytes req) \<le> 2 ^ 63" and "\<not> bk_only_metadata req"
    and "address (bk_data_entry req) = a" and "bk_metadata req = md" and "msize md = n" and "0 < n"
    and "getEndpoint (x_vars xc) ''rdma'' = Inr ep" and "getNextNode (x_resolve xc) (x_world xc) = Inr (Some peer)"
    and "g_dials gc = d # ds" and "connects d"
    and "link_ready obs xc a n (dialled (setAddr peer ep) d (g_nics gc)) (g_verbs gc) lc vc"
    and "n \<le> total_idle (mstat (g_mon gs))" and "backup_entry xs md gs = Inr (Some e, g1)"
    and "link_ready obs xs (address e) n ks (g_verbs g1) ls vs"
    and "op_ok (g_op gs)" and "ch_cap (op_queue (g_op gs)) = 0"
    and "talk (d_conn d) (code_answer STATUS_SUCCESS @ con_frame ls (k_ids ks) @ [81]) []"
    and "talk ks (backup_call req @ con_frame lc (k_ids (d_conn d)) @ [81] @ note_frame ''W'') []"
    and "dev_outstanding (k_dev (d_conn d)) = []" and "dev_remote (k_dev (d_conn d)) = g_mem gs"
    and "rdma_write (x_nic xc) (lc\<lparr>remote_props := local_con_data ls (k_ids ks)\<rparr>) (k_lkey (d_conn d)) a 0 0 n
           ((k_dev (d_conn d))\<lparr>dev_local := g_mem gc\<rparr>) = Inr (Some (True, dv))"
    and "a \<noteq> 0" and "address e \<noteq> 0" and "unat a + unat n < 2 ^ 64" and "unat (address e) + unat n \<le> 2 ^ 64"
  shows "\<exists>kc' gc' ks' gs'. ClientUtil_Backup xc req rsp gc = finished ((True, STATUS_SUCCESS), Some kc', gc') \<and>
     serve_connection xs ks gs = finished (ks', gs') \<and>
     talk kc' [] (in_bytes (k_in ks)) \<and> talk ks' [] (in_bytes (k_in (d_conn d))) \<and>
     Storage_Load (my_rank xs) md (g_store gs') = Inr (Some e) \<and>
     ch_queue (op_queue (g_op gs')) = ch_queue (op_queue (g_op gs)) @ [file_name md] \<and>
     dev_remote (k_dev kc') = transfer (g_mem gs) (address e) (g_mem gc) a (unat n)"
proof -
  have ids: "ids_ok ls (k_ids ks)" "ids_ok lc (k_ids (d_conn d))"
    using assms(17,20) by (simp_all add: link_ready_def dialled_def)
  have region: "region lc = a" "region ls = address e"
    using assms(17,20) by (auto simp: link_ready_def dest: create_resource_region)
  have md: "msize (bk_metadata req) = n" using assms(10,11) by simp
  have talk_c: "talk (d_conn d) (code_answer STATUS_SUCCESS @ con_frame ls (k_ids ks) @ [81] @ []) []"
    using assms(23) by simp
  obtain kc' gc' where c: "ClientUtil_Backup xc req rsp gc = finished ((True, STATUS_SUCCESS), Some kc', gc')"
      "k_dev kc' = dv"
      "talk kc' [] ([] @ backup_call req @ con_frame lc (k_ids (d_conn d)) @ [81] @ note_frame ''W'')"
    using ClientUtil_Backup_ok [OF assms(1,13-16,3,17) ids(1) talk_c assms(7-9) md assms(27), of rsp] by blast
  have g1: "Storage_Load (my_rank xs) md (g_store g1) = Inr (Some e)" "g_op g1 = g_op gs"
    using backup_entry_effect [OF assms(19)] by simp_all
  obtain rl where op: "AddRateLimited (x_now xs) (file_name md) (g_op g1) =
      Inr (Some ((g_op gs)\<lparr>op_queue := push_locked (file_name md) (op_queue (g_op gs)), op_limiter := rl\<rparr>))"
    using AddRateLimited_room [OF assms(21)] assms(22) g1(2) by auto
  let ?op = "(g_op gs)\<lparr>op_queue := push_locked (file_name md) (op_queue (g_op gs)), op_limiter := rl\<rparr>"
  obtain ks' v h where s:
      "serve_connection xs ks gs = finished (ks', (g1\<lparr>g_verbs := vs, g_op := ?op\<rparr>)\<lparr>g_verbs := v, g_nics := h\<rparr>)"
      "talk ks' [] ([] @ code_answer STATUS_SUCCESS @ con_frame ls (k_ids ks) @ [81])"
    using serve_backup_ok [OF assms(2,4,6-8), of gs e g1 ks ls vs lc "k_ids (d_conn d)" "[]"]
      assms(10,11,18-20,24) ids(2) op by auto
  have "dev_remote dv = transfer (g_mem gs) (address e) (g_mem gc) a (unat n)"
    using rdma_write_effect [OF assms(5) _ assms(27,12)] assms(25,26,28-31) region
    by (simp add: local_con_data_def)
  then show ?thesis
    using c s g1(1) assms(23,24)
    by (intro exI [of _ kc'] exI [of _ gc'] exI [of _ ks']
        exI [of _ "(g1\<lparr>g_verbs := vs, g_op := ?op\<rparr>)\<lparr>g_verbs := v, g_nics := h\<rparr>"])
      (simp add: talk_def push_locked_def)
qed

section \<open>Properties\<close>

text \<open>C7: A backup, both sides: the client's call and the next node's server, each reading what the other
  writes, both run to their end.  The client's call returns true; the server has the file in its
  index, under the metadata of the request and with the memory it announced, its name is the last
  in the server's work queue, and at that memory are the client's bytes, nothing else changed.\<close>

theorem backup_reaches_next_node:
  assumes "\<forall>n. x_al xc n" and "\<forall>n. x_al xs n" and "modify_contract obs (x_modify xc)"
    and "modify_contract obs (x_modify xs)" and "nic_contract (x_nic xc)"
    and "backup_request_ok req" and "length (backup_request_bytes req) \<le> 2 ^ 63" and "\<not> bk_only_metadata req"
    and "address (bk_data_entry req) = a" and "bk_metadata req = md" and "msize md = n" and "0 < n"
    and "getEndpoint (x_vars xc) ''rdma'' = Inr ep" and "getNextNode (x_resolve xc) (x_world xc) = Inr (Some peer)"
    and "g_dials gc = d # ds" and "connects d"
    and "link_ready obs xc a n (dialled (setAddr peer ep) d (g_nics gc)) (g_verbs gc) lc vc"
    and "n \<le> total_idle (mstat (g_mon gs))" and "backup_entry xs md gs = Inr (Some e, g1)"
    and "link_ready obs xs (address e) n ks (g_verbs g1) ls vs"
    and "op_ok (g_op gs)" and "ch_cap (op_queue (g_op gs)) = 0"
    and "talk (d_conn d) (code_answer STATUS_SUCCESS @ con_frame ls (k_ids ks) @ [81]) []"
    and "talk ks (backup_call req @ con_frame lc (k_ids (d_conn d)) @ [81] @ note_frame ''W'') []"
    and "dev_outstanding (k_dev (d_conn d)) = []" and "dev_remote (k_dev (d_conn d)) = g_mem gs"
    and "rdma_write (x_nic xc) (lc\<lparr>remote_props := local_con_data ls (k_ids ks)\<rparr>) (k_lkey (d_conn d)) a 0 0 n
           ((k_dev (d_conn d))\<lparr>dev_local := g_mem gc\<rparr>) = Inr (Some (True, dv))"
    and "a \<noteq> 0" and "address e \<noteq> 0" and "unat a + unat n < 2 ^ 64" and "unat (address e) + unat n \<le> 2 ^ 64"
  shows "\<exists>kc' gc' ks' gs'. ClientUtil_Backup xc req rsp gc = finished ((True, STATUS_SUCCESS), Some kc', gc') \<and>
     serve_connection xs ks gs = finished (ks', gs') \<and>
     talk kc' [] (in_bytes (k_in ks)) \<and> talk ks' [] (in_bytes (k_in (d_conn d))) \<and>
     Storage_Load (my_rank xs) md (g_store gs') = Inr (Some e) \<and>
     ch_queue (op_queue (g_op gs')) = ch_queue (op_queue (g_op gs)) @ [file_name md] \<and>
     dev_remote (k_dev kc') = transfer (g_mem gs) (address e) (g_mem gc) a (unat n)"
  by (rule backup_both_sides [OF assms])

text \<open>Two nodes of a concrete world.\<close>

definition demo_world :: "int \<Rightarrow> world" where
  "demo_world r = \<lparr>w_hostname = ''a'', w_job_name = ''job'', w_hosts = [''a'', ''b''], w_world_size = 2,
     w_node_rank = r\<rparr>"

definition demo_libs :: "int \<Rightarrow> (mem_db, qp_state \<times> 32 word) libs" where
  "demo_libs r = \<lparr>x_vars = Map.empty, x_world = demo_world r, x_resolve = Some, x_client = Inr (mysql_client mem_sql),
     x_al = (\<lambda>_. True), x_dok = (\<lambda>_. True), x_modify = demo_modify, x_nic = demo_nic,
     x_cgroup = demo_cgroup, x_truncate = True, x_now = 0, x_busy = False, x_file = (\<lambda>_. (False, [], False))\<rparr>"

definition demo_conn :: "byte list \<Rightarrow> 32 word \<Rightarrow> device \<Rightarrow> (qp_state \<times> 32 word) conn" where
  "demo_conn bs i d = \<lparr>k_comm = \<lparr>c_ep = \<lparr>ep_addr = ''b'', ep_port = 0\<rparr>, c_fd = 7, c_link = demo_comm\<rparr>,
     k_in = demo_in bs, k_out = demo_out, k_qp = (RESET, 0), k_dev = d, k_answers = demo_answers,
     k_ids = demo_ids i, k_stack = replicate 34 0, k_lkey = 9\<rparr>"

definition demo_calls :: socket_calls where
  "demo_calls = \<lparr>r_socket = 7, r_setsockopt = 0, r_bind = 0, r_listen = 0, r_inet_pton = 1, r_connect = 0\<rparr>"

definition demo_engine ::
  "memory \<Rightarrow> DataEntry option list \<Rightarrow> (qp_state \<times> 32 word) dial list \<Rightarrow> (mem_db, qp_state \<times> 32 word) engine" where
  "demo_engine mem allocs dials = \<lparr>g_db = [], g_nics = \<lparr>nics = [''mlx5_0''], busy = [(''mlx5_0'', 0)]\<rparr>,
     g_verbs = \<lparr>fresh_id = 0, held = []\<rparr>, g_store = storage_new,
     g_mon = \<lparr>user_limit = 1000, mstat = MemoryStat_new\<lparr>total_capacity := 1000, total_idle := 1000\<rparr>\<rparr>,
     g_mem = mem, g_allocs = allocs,
     g_op = \<lparr>op_queue = channel_new 0, op_limiter = rl_new\<rparr>, g_iters = \<lparr>im_queue = [], im_max = 999\<rparr>,
     g_sizes = (\<lambda>_. 0), g_dials = dials\<rparr>"

definition demo_req :: InterNodeBackupRequest where
  "demo_req = \<lparr>bk_metadata = demo_file 64, bk_data_entry = new_DataEntry\<lparr>address := 4096\<rparr>,
     bk_only_metadata = False\<rparr>"

definition demo_entry :: DataEntry where
  "demo_entry = \<lparr>address = 8192, pid = 11, memfd = 5\<rparr>"

definition demo_ready :: device where
  "demo_ready = (demo_device (\<lambda>_. 0))\<lparr>dev_polls := [Completion 0]\<rparr>"

definition demo_dial :: "byte list \<Rightarrow> (qp_state \<times> 32 word) dial" where
  "demo_dial bs = \<lparr>d_calls = demo_calls, d_conn = demo_conn bs 7 demo_ready\<rparr>"

lemmas demo_defs = demo_world_def demo_libs_def demo_conn_def demo_calls_def demo_engine_def demo_req_def
  demo_entry_def demo_ready_def demo_dial_def

lemma demo_link: "link_ready id (demo_libs r) a 64 (demo_conn bs i d) \<lparr>fresh_id = 0, held = []\<rparr> (demo_created a) demo_verbs"
  using demo_create [of a] demo_ids_ok [of a i]
  by (simp add: link_ready_def demo_libs_def demo_conn_def CM_SIZE_def)

lemma demo_zero_con: "con_of_bytes (replicate 34 0) = zero_con"
  by (simp add: con_of_bytes_def zero_con_def take_replicate drop_replicate eval_nat_numeral)

lemma demo_dialled:
  "link_ready id (demo_libs r) a 64 (dialled ep (demo_dial bs) (g_nics (demo_engine m as ds)))
     \<lparr>fresh_id = 0, held = []\<rparr> (demo_created a) demo_verbs"
proof -
  have "c_link (fst (RdmaCommunicator_new ep (-1) (g_nics (demo_engine m as ds)))) = demo_comm"
    by (simp add: RdmaCommunicator_new_def ChooseNic_def demo_engine_def demo_comm_def demo_zero_con Let_def)
  then show ?thesis
    using demo_link [of r a bs 7 demo_ready] by (simp add: link_ready_def dialled_def demo_dial_def demo_conn_def)
qed

definition demo_sent64 :: device where
  "demo_sent64 = demo_ready\<lparr>dev_local := (\<lambda>a. ucast a), dev_remote := transfer (\<lambda>_. 0) 8192 (\<lambda>a. ucast a) 4096 64,
     dev_polls := []\<rparr>"

lemma demo_write64:
  "rdma_write demo_nic ((demo_created 4096)\<lparr>remote_props := local_con_data (demo_created 8192) (demo_ids 8)\<rparr>)
     9 4096 0 0 64 (demo_ready\<lparr>dev_local := \<lambda>a. ucast a\<rparr>) = Inr (Some (True, demo_sent64))"
  by (simp add: rdma_write_def memory_registered_def demo_created_def demo_comm_def local_con_data_def
      post_chunks.simps next_chunk_def RDMA_CHUNK_SIZE_def post_send_def post_answer_def send_request_def
      demo_ready_def demo_device_def demo_sent64_def demo_nic_def poll_completion_def complete_oldest_def
      RDMA_SLEEP_MIN_MILLISECONDS_def Let_def)

definition demo_server_says :: "byte list" where
  "demo_server_says = code_answer STATUS_SUCCESS @ con_frame (demo_created 8192) (demo_ids 8) @ [81]"

definition demo_client_says :: "byte list" where
  "demo_client_says = backup_call demo_req @ con_frame (demo_created 4096) (demo_ids 7) @ [81] @ note_frame ''W''"

definition demo_source :: "(mem_db, qp_state \<times> 32 word) engine" where
  "demo_source = demo_engine (\<lambda>a. ucast a) [] [demo_dial demo_server_says]"

definition demo_target :: "(mem_db, qp_state \<times> 32 word) engine" where
  "demo_target = demo_engine (\<lambda>_. 0) [Some demo_entry] []"

lemma demo_backup_entry:
  "\<exists>g1. backup_entry (demo_libs 1) (demo_file 64) demo_target = Inr (Some demo_entry, g1) \<and>
     g_verbs g1 = \<lparr>fresh_id = 0, held = []\<rparr>"
  by (simp add: backup_entry_def demo_target_def demo_engine_def demo_libs_def demo_world_def my_rank_def
      Storage_Load_def storage_new_def allocate_def note_allocation_def TryMemfdMalloc_def enough_def
      collectMetric_def MemoryStat_new_def demo_file_def new_Metadata_def memfdCalloc_def demo_entry_def
      new_DataEntry_def save_entry_def Storage_Save_def demo_cgroup_def count_usage_def status_defs Let_def)

lemma demo_req_ok: "backup_request_ok demo_req \<and> length (backup_request_bytes demo_req) \<le> 100"
  by (simp add: backup_request_ok_def demo_req_def demo_file_def new_Metadata_def metadata_ok_def
      string_ok_def entry_ok_def int_range_def new_DataEntry_def backup_request_bytes_def
      metadata_bytes_def entry_bytes_def bool_bytes_def string_bytes_def c_str_def)

lemma demo_endpoint:
  "getEndpoint (x_vars (demo_libs 0)) ''rdma'' = Inr \<lparr>ep_addr = ''0.0.0.0'', ep_port = 18080\<rparr>"
  by (simp add: getEndpoint_def demo_libs_def GetEnv_def Let_def)
     (simp add: atoi_def digits_val_def is_digit_def digit_val_def is_space_def)

lemma demo_peer: "getNextNode (x_resolve (demo_libs 0)) (x_world (demo_libs 0)) = Inr (Some ''b'')"
  by (simp add: getNextNode_def next_rank_def host_at_def demo_libs_def demo_world_def c_mod_def)

lemma backup_reaches_next_node_witness:
  "\<exists>kc' gc' ks' gs'. ClientUtil_Backup (demo_libs 0) demo_req 0 demo_source =
       finished ((True, STATUS_SUCCESS), Some kc', gc') \<and>
     serve_connection (demo_libs 1) (demo_conn demo_client_says 8 demo_ready) demo_target = finished (ks', gs') \<and>
     talk kc' [] demo_client_says \<and> talk ks' [] demo_server_says \<and>
     Storage_Load 1 (demo_file 64) (g_store gs') = Inr (Some demo_entry) \<and>
     ch_queue (op_queue (g_op gs')) = [''f''] \<and>
     dev_remote (k_dev kc') = transfer (\<lambda>_. 0) 8192 (\<lambda>a. ucast a) 4096 64"
proof -
  obtain g1 where g1: "backup_entry (demo_libs 1) (demo_file 64) demo_target = Inr (Some demo_entry, g1)"
      "g_verbs g1 = \<lparr>fresh_id = 0, held = []\<rparr>"
    using demo_backup_entry by blast
  note ep = demo_endpoint and peer = demo_peer
  have "\<exists>kc' gc' ks' gs'. ClientUtil_Backup (demo_libs 0) demo_req 0 demo_source =
       finished ((True, STATUS_SUCCESS), Some kc', gc') \<and>
     serve_connection (demo_libs 1) (demo_conn demo_client_says 8 demo_ready) demo_target = finished (ks', gs') \<and>
     talk kc' [] (in_bytes (k_in (demo_conn demo_client_says 8 demo_ready))) \<and>
     talk ks' [] (in_bytes (k_in (d_conn (demo_dial demo_server_says)))) \<and>
     Storage_Load (my_rank (demo_libs 1)) (demo_file 64) (g_store gs') = Inr (Some demo_entry) \<and>
     ch_queue (op_queue (g_op gs')) = ch_queue (op_queue (g_op demo_target)) @ [file_name (demo_file 64)] \<and>
     dev_remote (k_dev kc') = transfer (g_mem demo_target) (address demo_entry) (g_mem demo_source) 4096 (unat (64 :: size_t))"
    by (rule backup_reaches_next_node [where obs = id and d = "demo_dial demo_server_says" and ds = "[]" and
        lc = "demo_created 4096" and ls = "demo_created 8192" and dv = demo_sent64 and req = demo_req,
        OF _ _ _ _ _ _ _ _ _ _ _ _ ep peer _ _ _ _ g1(1)])
      (use demo_req_ok demo_link [of 1 8192 demo_client_says 8 demo_ready] demo_write64 g1(2)
         demo_dialled [of 0 4096 _ demo_server_says "\<lambda>a. ucast a" "[]" "[demo_dial demo_server_says]"]
       in \<open>simp_all add: demo_contract demo_nic_contract demo_source_def demo_target_def demo_libs_def demo_req_def
        demo_file_def demo_dial_def demo_calls_def connects_def demo_entry_def demo_engine_def op_ok_def ch_ok_def
        channel_new_def talk_def demo_conn_def demo_in_def demo_out_def demo_server_says_def demo_client_says_def
        demo_ready_def demo_device_def new_DataEntry_def\<close>)
  then show ?thesis
    by (simp add: demo_conn_def demo_in_def demo_dial_def demo_libs_def my_rank_def demo_world_def demo_target_def
        demo_source_def demo_engine_def channel_new_def demo_file_def new_Metadata_def demo_entry_def)
qed

text \<open>C10: A server that has promised a backup and then cannot allocate the memory returns to its loop
  without a word to the client.  The client, told to go on, sends its connection data; the loop
  takes the address in it, in network byte order, for the length of a message, asks for that much
  memory and, not getting it, ends the process with every checkpoint it holds.\<close>

theorem failed_allocation_ends_server:
  assumes "x_al x 4096" and "\<not> x_al x (htonll (region lc))" and "4096 < htonll (region lc)"
    and "backup_request_ok req" and "length (backup_request_bytes req) \<le> 4096"
    and "\<not> bk_only_metadata req" and "msize (bk_metadata req) \<le> total_idle (mstat (g_mon g))"
    and "backup_entry x (bk_metadata req) g = Inr (None, g1)"
    and "talk k (backup_call req @ con_frame lc ids @ r) []"
  shows "serve_connection x k g = Inl (Fatal ''cannot reallocate memory'')"
proof -
  obtain b where b: "Buffer_new (x_al x) = Inr b" "buf_ok b" "content b = []" "buf_size b = 4096"
    using Buffer_new_ok [of "\<lambda>_. True"] assms(1) by (auto simp: Buffer_new_def BUFFER_BLOCK_SIZE_def)
  let ?r = "message_frame (backup_request_bytes req) @ con_frame lc ids @ r"
  have k: "talk k (message_frame (size_bytes (routine_code INTER_NODE_BACKUP)) @ ?r) []"
    using assms(9) by (simp add: backup_call_def)
  then have "1 < length (in_bytes (k_in k))" by (simp add: talk_def message_frame_def)
  then obtain m where m: "length (in_bytes (k_in k)) = Suc m" by (cases "length (in_bytes (k_in k))") auto
  obtain b' k1 where k1: "execute x (Suc (Suc m)) b k g = run_then (dispatch x (routine_code INTER_NODE_BACKUP) k1 g)
       (\<lambda>(go, k, g). if go then execute x (Suc m) (Reset b') k g else finished (k, g))"
      "buf_ok b'" "buf_size b' = 4096" "talk k1 ?r []"
    using execute_round_fitting [OF b(2-4) k] by blast
  obtain k2 where k2: "handleBackup x k1 g = finished (k2, g1)"
      "talk k2 (con_frame lc ids @ r) (code_answer STATUS_SUCCESS)"
    using handleBackup_gives_up [OF assms(1,4-8) k1(4)] by auto
  obtain tl where "con_frame lc ids = size_bytes (htonll (region lc)) @ tl" using con_frame_header by blast
  then have "talk k2 (size_bytes (htonll (region lc)) @ tl @ r) (code_answer STATUS_SUCCESS)"
    using k2(2) by simp
  moreover have "buf_ok (Reset b')" "content (Reset b') = []" "buf_size (Reset b') < htonll (region lc)"
    using Reset_ok [OF k1(2)] k1(3) assms(3) by (simp_all add: Reset_def)
  ultimately have "conn_read (x_al x) (Reset b') k2 = Inl (Fatal ''cannot reallocate memory'')"
    using conn_read_too_large assms(2) by blast
  then have "execute x (Suc m) (Reset b') k2 g1 = Inl (Fatal ''cannot reallocate memory'')" by simp
  then have "execute x (Suc (Suc m)) b k g = Inl (Fatal ''cannot reallocate memory'')"
    unfolding k1(1) dispatch_backup k2(1) by (simp del: execute.simps)
  then show ?thesis by (simp add: serve_connection_def b(1) m del: execute.simps)
qed

definition demo_poor :: "(mem_db, qp_state \<times> 32 word) libs" where
  "demo_poor = (demo_libs 1)\<lparr>x_al := \<lambda>n. n \<le> 1000000\<rparr>"

text \<open>A backup exactly as large as the idle memory passes the check and is then refused.\<close>

definition demo_big :: InterNodeBackupRequest where
  "demo_big = demo_req\<lparr>bk_metadata := demo_file 1000\<rparr>"

lemma demo_big_refused: "\<exists>g1. backup_entry demo_poor (demo_file 1000) demo_target = Inr (None, g1)"
  by (simp add: backup_entry_def demo_target_def demo_engine_def demo_poor_def demo_libs_def demo_world_def
      my_rank_def Storage_Load_def storage_new_def allocate_def note_allocation_def TryMemfdMalloc_def
      enough_def collectMetric_def MemoryStat_new_def demo_file_def new_Metadata_def status_defs Let_def)

lemma demo_htonll: "htonll 4096 = 4503599627370496"
proof -
  have eight: "(8 :: nat) = Suc (Suc (Suc (Suc (Suc (Suc (Suc (Suc 0)))))))" by simp
  have "le_enc 8 4096 = [0, 16, 0, 0, 0, 0, 0, 0]" unfolding eight by simp
  then show ?thesis by (simp add: htonll_def swap_bytes_def)
qed

lemma failed_allocation_ends_server_witness:
  "serve_connection demo_poor
     (demo_conn (backup_call demo_big @ con_frame (demo_created 4096) (demo_ids 7)) 8 demo_ready) demo_target =
   Inl (Fatal ''cannot reallocate memory'')"
proof -
  obtain g1 where g1: "backup_entry demo_poor (demo_file 1000) demo_target = Inr (None, g1)"
    using demo_big_refused by blast
  have h: "htonll 4096 = (4503599627370496 :: 64 word)"
    by (rule demo_htonll)
  have req: "backup_request_ok demo_big" "length (backup_request_bytes demo_big) \<le> 4096"
    by (simp_all add: backup_request_ok_def demo_big_def demo_req_def demo_file_def new_Metadata_def metadata_ok_def
        string_ok_def entry_ok_def int_range_def new_DataEntry_def backup_request_bytes_def
        metadata_bytes_def entry_bytes_def bool_bytes_def string_bytes_def c_str_def)
  show ?thesis
    by (rule failed_allocation_ends_server [where lc = "demo_created 4096" and ids = "demo_ids 7" and r = "[]" and
        req = demo_big and ?g1.0 = g1])
      (use g1 req in \<open>simp_all add: h demo_poor_def demo_created_def demo_big_def demo_req_def demo_target_def
        demo_engine_def demo_file_def demo_conn_def demo_in_def demo_out_def talk_def\<close>)
qed

end
