(* ===== verification/Leftovers.thy ===== *)
theory Leftovers
  imports Protocol
begin

text \<open>
  What a request leaves behind: whatever the peer, the kernel and the card answer, a client call of
  theory \<open>Requests\<close> that returns has given back the verbs objects and the network card it took.
\<close>

section \<open>Choosing and releasing a card\<close>

lemma map_of_twice:
  assumes "sorted_wrt (<) (map fst m)"
  shows "map_of (map_update k f 0 (map_update k h 0 m)) =
     (map_of m)(k \<mapsto> f (h (case map_of m k of None \<Rightarrow> 0 | Some v \<Rightarrow> v)))"
  by (simp add: map_of_map_update [OF sorted_map_update [OF assms]] map_of_map_update [OF assms])

lemma chosen_and_released:
  assumes "nic_ok h" and "ChooseNic h = (nm, h')"
  shows "held_by (ReleaseNic nm h') = held_by h" and "nic_ok (ReleaseNic nm h')"
proof -
  have h': "h' = h\<lparr>busy := map_update nm (\<lambda>n. n + 1) 0 (busy h)\<rparr>"
    using assms(2) by (auto simp: ChooseNic_def Let_def)
  have "map_of (busy (ReleaseNic nm h')) = (map_of (busy h))(nm \<mapsto> (case map_of (busy h) nm of None \<Rightarrow> 0 | Some v \<Rightarrow> v))"
    using map_of_twice [of "busy h" nm "\<lambda>n. n - 1" "\<lambda>n. n + 1"] assms(1)
    by (simp add: ReleaseNic_def h' nic_ok_def)
  then show "held_by (ReleaseNic nm h') = held_by h"
    by (auto simp: held_by_def fun_eq_iff split: option.splits)
  show "nic_ok (ReleaseNic nm h')"
    using nic_ok_ReleaseNic [OF nic_ok_ChooseNic [OF assms(1)]] assms(2) by simp
qed

section \<open>A connection and what it holds\<close>

text \<open>
  Before the handshake the connection holds nothing; after it, what is held besides \<open>B\<close> are its
  handles.  The cards are left alone.
\<close>

definition unlinked :: "string \<Rightarrow> (verb_obj \<times> nat) multiset \<Rightarrow> nic_helper \<Rightarrow> 'q conn \<Rightarrow> ('db, 'q) engine \<Rightarrow> bool" where
  "unlinked nm B H k g \<longleftrightarrow> dev_name (c_link (k_comm k)) = nm \<and> handles (c_link (k_comm k)) = [] \<and>
     mset (held (g_verbs g)) = B \<and> g_nics g = H"

definition linked :: "string \<Rightarrow> (verb_obj \<times> nat) multiset \<Rightarrow> nic_helper \<Rightarrow> 'q conn \<Rightarrow> ('db, 'q) engine \<Rightarrow> bool" where
  "linked nm B H k g \<longleftrightarrow> dev_name (c_link (k_comm k)) = nm \<and>
     mset (held (g_verbs g)) = mset (handles (c_link (k_comm k))) + B \<and> g_nics g = H"

lemma unlinked_linked: "unlinked nm B H k g \<Longrightarrow> linked nm B H k g"
  by (simp add: unlinked_def linked_def)

lemma linked_updates [simp]:
  "linked nm B H k (g\<lparr>g_store := s\<rparr>) = linked nm B H k g"
  "unlinked nm B H k (g\<lparr>g_store := s\<rparr>) = unlinked nm B H k g"
  by (simp_all add: linked_def unlinked_def)

named_theorems leftover_rules \<open>the calls keep the books\<close>

lemma send_keeps: "ensures (send_message f b k) (\<lambda>(ok, b', k'). k_comm k' = k_comm k)"
  by (rule ensuresI)
    (auto simp: send_message_def conn_write_def run_then_finished_iff and_then_Inr_iff finished_def returned_def)

lemma receive_keeps: "ensures (receive_message al b k) (\<lambda>(ok, b', k'). k_comm k' = k_comm k)"
  by (rule ensuresI) (auto simp: receive_message_def conn_read_def and_then_Inr_iff finished_def)

lemma leftover_messages:
  "unlinked nm B H k g \<Longrightarrow> ensures (send_message f b k) (\<lambda>(ok, b', k'). unlinked nm B H k' g)"
  "unlinked nm B H k g \<Longrightarrow> ensures (receive_message al b k) (\<lambda>(ok, b', k'). unlinked nm B H k' g)"
  by (rule ensures_mono [OF send_keeps] ensures_mono [OF receive_keeps]; auto simp: unlinked_def)+

lemma leftover_note:
  "linked nm B H k g \<Longrightarrow> ensures (send_message f b k) (\<lambda>(ok, b', k'). linked nm B H k' g)"
  by (rule ensures_mono [OF send_keeps]) (auto simp: linked_def)

lemma create_resource_name:
  "create_resource a dok c v = (rc, c', v') \<Longrightarrow> dev_name c \<noteq> [] \<Longrightarrow> dev_name c' = dev_name c"
  by (auto simp: create_resource_def grab_def acquire_def create_exit_def resources_destroy_def
      pick_device_def Let_def split: option.splits if_splits)

lemma connect_qp_keeps:
  "connect_qp ibv l c stack q i s = Some (rc, c', q', i', s') \<Longrightarrow>
     dev_name c' = dev_name c \<and> handles c' = handles c"
  by (auto simp: connect_qp_def Let_def split: prod.splits option.splits if_splits)

lemma leftover_handshake [leftover_rules]:
  assumes "\<forall>k. x_dok x k" and "nm \<noteq> []" and "unlinked nm B H k g"
  shows "ensures (conn_handshake x a n k g) (\<lambda>(rc, k', g'). linked nm B H k' g')"
proof (rule ensuresI, clarify)
  fix rc k' g'
  assume call: "conn_handshake x a n k g = Inr (Some (rc, k', g'))"
  let ?c = "(c_link (k_comm k))\<lparr>region := a, region_size := n\<rparr>"
  obtain rc1 c1 v1 where c1: "create_resource (k_answers k) (x_dok x) ?c (g_verbs g) = (rc1, c1, v1)"
    by (metis prod_cases3)
  have "handles ?c = []" "dev_name ?c = nm" using assms(3) by (simp_all add: unlinked_def)
  then have o: "mset (held v1) = mset (handles c1) + B" "dev_name c1 = nm"
    using create_resource_owned [OF assms(1), of ?c "g_verbs g" "k_answers k"] c1
      create_resource_name [OF c1] assms(2,3) by (simp_all add: owned_def unlinked_def)
  show "linked nm B H k' g'"
  proof (cases "IsSuccess rc1")
    case False
    then show ?thesis using call c1 o assms(3)
      by (auto simp: conn_handshake_def rdma_handshake_def linked_def unlinked_def)
  next
    case True
    then obtain c2 q i s where "connect_qp (x_modify x) (k_ids k) c1 (k_stack k) (k_qp k) (k_in k) (k_out k) =
        Some (rc, c2, q, i, s)" "k_comm k' = (k_comm k)\<lparr>c_link := c2\<rparr>" "g' = g\<lparr>g_verbs := v1\<rparr>"
      using call c1 by (auto simp: conn_handshake_def rdma_handshake_def split: option.splits prod.splits)
    then show ?thesis using o assms(3) connect_qp_keeps by (fastforce simp: linked_def unlinked_def)
  qed
qed

lemma leftover_after:
  "linked nm B H k g \<Longrightarrow> ensures (after_transfer k g r) (\<lambda>(ok, k', g'). linked nm B H k' g')"
  by (rule ensuresI) (auto simp: after_transfer_def run_then_finished_iff finished_def linked_def)

lemma leftover_transfer [leftover_rules]:
  "linked nm B H k g \<Longrightarrow> ensures (conn_rdma_write x a n k g) (\<lambda>(ok, k', g'). linked nm B H k' g')"
  "linked nm B H k g \<Longrightarrow> ensures (conn_rdma_read x a n k g) (\<lambda>(ok, k', g'). linked nm B H k' g')"
  unfolding conn_rdma_write_def conn_rdma_read_def by (rule leftover_after; assumption)+

lemma leftover_allocate:
  "allocate x md e g = (rc, e', g') \<Longrightarrow> unlinked nm B H k g' = unlinked nm B H k g"
  by (auto simp: allocate_def note_allocation_def unlinked_def split: prod.splits if_splits)

lemma leftover_save [leftover_rules]:
  "unlinked nm B H k g \<Longrightarrow> ensures (returned (save_entry x md e g)) (\<lambda>(ok, g'). unlinked nm B H k g')"
  by (rule ensures_returned) (auto simp: save_entry_def and_then_Inr_iff)

lemma leftover_value: "ensures (returned r) (\<lambda>_. True)"
  by (rule ensures_returned) simp

lemma leftover_if:
  "(c \<Longrightarrow> ensures r P) \<Longrightarrow> (\<not> c \<Longrightarrow> ensures r' P) \<Longrightarrow> ensures (if c then r else r') P"
  by simp

section \<open>The calls\<close>

lemma leftover_Backup_data:
  "\<forall>k. x_dok x k \<Longrightarrow> nm \<noteq> [] \<Longrightarrow> unlinked nm B H k g \<Longrightarrow>
     ensures (Backup_data x req b k g) (\<lambda>(ok, k', g'). linked nm B H k' g')"
  unfolding Backup_data_def Let_def
  by (rule ensures_rules leftover_rules leftover_note leftover_if | assumption | clarsimp)+

lemma leftover_Backup:
  "\<forall>k. x_dok x k \<Longrightarrow> nm \<noteq> [] \<Longrightarrow> unlinked nm B H k g \<Longrightarrow>
     ensures (Backup_exchange x req rsp b k g) (\<lambda>(r, k', g'). linked nm B H k' g')"
  unfolding Backup_exchange_def
  by (rule ensures_rules leftover_messages leftover_Backup_data leftover_value leftover_if | assumption
      | clarsimp simp: unlinked_linked)+

lemma leftover_LoadRemote_data:
  "\<forall>k. x_dok x k \<Longrightarrow> nm \<noteq> [] \<Longrightarrow> unlinked nm B H k g \<Longrightarrow>
     ensures (LoadRemote_data x rsp b k g) (\<lambda>(ok, k', g'). linked nm B H k' g')"
  unfolding LoadRemote_data_def Let_def
  by (cases "allocate x (lr_metadata rsp) new_DataEntry g")
    (frule leftover_allocate [of _ _ _ _ _ _ _ nm B H k], simp only: prod.case,
     (rule ensures_rules leftover_rules leftover_note leftover_if | assumption
      | clarsimp simp: unlinked_linked)+)

lemma leftover_LoadRemote:
  "\<forall>k. x_dok x k \<Longrightarrow> nm \<noteq> [] \<Longrightarrow> unlinked nm B H k g \<Longrightarrow>
     ensures (LoadRemote_exchange x req rsp b k g) (\<lambda>(r, k', g'). linked nm B H k' g')"
  unfolding LoadRemote_exchange_def
  by (rule ensures_rules leftover_messages leftover_LoadRemote_data leftover_value leftover_if | assumption
      | clarsimp simp: unlinked_linked)+

lemma leftover_NotifyBackup:
  "unlinked nm B H k g \<Longrightarrow>
     ensures (NotifyBackup_exchange x rsp b k g) (\<lambda>(r, k', g'). linked nm B H k' g')"
  unfolding NotifyBackup_exchange_def
  by (rule ensures_rules leftover_messages leftover_value leftover_if | assumption
      | clarsimp simp: unlinked_linked)+

text \<open>The verbs objects and, card by card, the communicators that use it, are what they were.\<close>

definition given_back :: "('db, 'q) engine \<Rightarrow> ('db, 'q) engine \<Rightarrow> bool" where
  "given_back g g' \<longleftrightarrow> mset (held (g_verbs g')) = mset (held (g_verbs g)) \<and>
     held_by (g_nics g') = held_by (g_nics g) \<and> nic_ok (g_nics g')"

lemma leftover_connection:
  assumes dok: "\<forall>k. x_dok x k" and h: "nic_ok (g_nics g)" and nm: "ChooseNic (g_nics g) = (nm, H)"
    and body: "\<And>k g1. unlinked nm (mset (held (g_verbs g))) H k g1 \<Longrightarrow>
      ensures (body k g1) (\<lambda>(r, k', g'). linked nm (mset (held (g_verbs g))) H k' g')"
  shows "ensures (with_connection x ep failed body g) (\<lambda>(r, k, g'). given_back g g')"
proof (rule ensuresI, clarify)
  fix r k g'
  assume call: "with_connection x ep failed body g = Inr (Some (r, k, g'))"
  obtain c where c: "RdmaCommunicator_new ep (-1) (g_nics g) = (c, H)" "dev_name (c_link c) = nm" "handles (c_link c) = []"
    by (simp add: RdmaCommunicator_new_def nm handles_def)
  obtain d ds where d: "g_dials g = d # ds"
    using call c(1) by (auto simp: with_connection_def split: list.splits)
  obtain ok c1 where c1: "Connect (d_calls d) c = Inr (ok, c1)"
    using call by (auto simp: with_connection_def c(1) d and_then_Inr_iff)
  then have link: "c_link c1 = c_link c" by (auto simp: Connect_def Let_def split: if_splits)
  let ?k = "(d_conn d)\<lparr>k_comm := c1\<rparr>" and ?g = "g\<lparr>g_nics := H, g_dials := ds\<rparr>"
  have "unlinked nm (mset (held (g_verbs g))) H ?k ?g" using c link by (simp add: unlinked_def)
  then have "ensures (if ok then body ?k ?g else finished (failed, ?k, ?g))
      (\<lambda>(r, k', g'). linked nm (mset (held (g_verbs g))) H k' g')"
    using body unlinked_linked by auto
  moreover obtain r2 k2 g2 where g2: "(if ok then body ?k ?g else finished (failed, ?k, ?g)) = Inr (Some (r2, k2, g2))"
      "(case RdmaCommunicator_delete (x_dok x) (k_comm k2) (g_verbs g2) (g_nics g2) of (fds, v, h) \<Rightarrow>
         finished (r2, k2, g2\<lparr>g_verbs := v, g_nics := h\<rparr>)) = Inr (Some (r, k, g'))"
    using call by (auto simp: with_connection_def c(1) d c1 Let_def run_then_finished_iff)
  ultimately have l: "linked nm (mset (held (g_verbs g))) H k2 g2" using ensuresD by fastforce
  obtain l2 v2 where v2: "resources_destroy (x_dok x) (c_link (k_comm k2)) (g_verbs g2) = (l2, v2)" by fastforce
  have "mset (held v2) = mset (held (g_verbs g))"
    using destroy_held(2) [OF dok v2] l by (simp add: linked_def)
  moreover have "dev_name l2 = nm"
    using v2 l by (auto simp: resources_destroy_def linked_def Let_def)
  moreover have "g' = g2\<lparr>g_verbs := v2, g_nics := ReleaseNic (dev_name l2) (g_nics g2)\<rparr>"
    using g2(2) v2 by (simp add: RdmaCommunicator_delete_def finished_def)
  ultimately show "given_back g g'"
    using l chosen_and_released [OF h nm] by (simp add: given_back_def linked_def)
qed

lemma leftover_call:
  assumes "ensures r (\<lambda>(r, k, g'). given_back g g')"
  shows "ensures (run_then r (\<lambda>(r, k, g). finished (r, Some k, g))) (\<lambda>(r, k, g'). given_back g g')"
  by (rule ensures_then [OF assms]) auto

lemma given_back_refl: "nic_ok (g_nics g) \<Longrightarrow> given_back g g"
  by (simp add: given_back_def)

section \<open>Properties\<close>


lemma demo_backup_returns:
  "\<exists>k g'. ClientUtil_Backup (demo_libs 0) demo_req 0 demo_source = finished ((True, STATUS_SUCCESS), Some k, g')"
proof -
  have "\<exists>k g'. ClientUtil_Backup (demo_libs 0) demo_req 0 demo_source =
       finished ((True, STATUS_SUCCESS), Some k, g') \<and> k_dev k = demo_sent64 \<and> g_mem g' = dev_local demo_sent64 \<and>
     talk k [] ([] @ backup_call demo_req @ con_frame (demo_created 4096) (k_ids (d_conn (demo_dial demo_server_says)))
       @ [81] @ note_frame ''W'')"
    by (rule ClientUtil_Backup_ok [where obs = id and d = "demo_dial demo_server_says" and ds = "[]" and a = 4096 and
        n = 64 and l = "demo_created 4096" and v = demo_verbs and pc = "demo_created 8192" and pl = "demo_ids 8",
        OF _ demo_endpoint demo_peer])
      (use demo_req_ok demo_write64 demo_ids_ok
         demo_dialled [of 0 4096 _ demo_server_says "\<lambda>a. ucast a" "[]" "[demo_dial demo_server_says]"]
       in \<open>simp_all add: demo_contract demo_source_def demo_libs_def demo_req_def demo_file_def demo_dial_def
        demo_calls_def connects_def demo_engine_def talk_def demo_conn_def demo_in_def demo_out_def
        demo_server_says_def demo_ready_def demo_device_def new_DataEntry_def\<close>)
  then show ?thesis by blast
qed


end
