(* ===== verification/Loading.thy ===== *)
theory Loading
  imports Protocol
begin

text \<open>
  Both sides of a load (\<open>LoadRemote\<close> of \<open>src/coordinator/client.cpp\<close>, \<open>handleLoad\<close> of
  \<open>src/coordinator/server.cpp\<close>): a node gets a checkpoint file back from the memory of another node.
\<close>

section \<open>The client\<close>

definition load_call :: "InterNodeLoadRequest \<Rightarrow> byte list" where
  "load_call req = message_frame (size_bytes (routine_code INTER_NODE_LOAD)) @
     message_frame (load_request_bytes req)"

definition load_reply :: "InterNodeLoadResponse \<Rightarrow> byte list" where
  "load_reply rsp = message_frame (load_response_bytes rsp)"

lemma load_bytes_ne: "load_request_bytes req \<noteq> []" "load_response_bytes rsp \<noteq> []"
  by (simp_all add: load_request_bytes_def load_response_bytes_def bool_bytes_def flip: length_0_conv)

lemma R_length: "length (string_bytes ''R'') \<le> 2 ^ 63"
  by (simp add: string_bytes_def c_str_def)

lemma LoadRemote_data_ok:
  assumes al: "\<forall>n. x_al x n" and "modify_contract obs (x_modify x)"
    and "lr_metadata rsp = md" and "msize md = n" and "n \<le> total_idle (mstat (g_mon g))"
    and "allocate x md new_DataEntry g = (STATUS_SUCCESS, e, g1)" and "save_entry x md e g1 = Inr (ok, g2)"
    and "link_ready obs x (address e) n k (g_verbs g2) l v" and "ids_ok pc pl"
    and "talk k (con_frame pc pl @ [81] @ r) w" and "buf_ok b"
    and "rdma_read (x_nic x) (l\<lparr>remote_props := local_con_data pc pl\<rparr>) (k_lkey k) (address e) 0 0 n
           ((k_dev k)\<lparr>dev_local := g_mem g2\<rparr>) = Inr (Some (True, d))"
  shows "\<exists>k'. LoadRemote_data x rsp b k g = finished (True, k', g2\<lparr>g_verbs := v, g_mem := dev_local d\<rparr>) \<and>
     talk k' r (w @ con_frame l (k_ids k) @ [81] @ note_frame ''R'')"
proof -
  obtain k1 where k1: "conn_handshake x (address e) n k g2 = finished (STATUS_SUCCESS, k1, g2\<lparr>g_verbs := v\<rparr>)"
      "c_link (k_comm k1) = l\<lparr>remote_props := local_con_data pc pl\<rparr>" "k_dev k1 = k_dev k" "k_lkey k1 = k_lkey k"
      "talk k1 r (w @ con_frame l (k_ids k) @ [81])"
    using handshake_ok [OF assms(2,8,9,10)] by blast
  have w: "conn_rdma_read x (address e) n k1 (g2\<lparr>g_verbs := v\<rparr>) =
      finished (True, k1\<lparr>k_dev := d\<rparr>, g2\<lparr>g_verbs := v, g_mem := dev_local d\<rparr>)"
    using assms(12) k1(2-4) by (simp add: conn_rdma_read_def after_transfer_def)
  have "buf_ok (Reset b)" "content (Reset b) = []" using Reset_ok [OF assms(11)] by simp_all
  from send_message_ok [OF emits_AddString [OF al, of "''R''"] string_bytes_ne R_length this,
      of "k1\<lparr>k_dev := d\<rparr>" r "w @ con_frame l (k_ids k) @ [81]"] k1(5)
  obtain b' k2 where "send_message (AddString (x_al x) ''R'') (Reset b) (k1\<lparr>k_dev := d\<rparr>) = finished (True, b', k2)"
      "talk k2 r ((w @ con_frame l (k_ids k) @ [81]) @ note_frame ''R'')"
    by (auto simp: talk_same_dev note_frame_def)
  moreover have "\<not> total_idle (mstat (g_mon g)) < n" using assms(5) by (rule leD)
  ultimately show ?thesis
    using k1(1) w assms(6,7)
    by (intro exI [of _ k2])
      (simp add: LoadRemote_data_def Let_def assms(3,4) GetMemoryStat_def IsSuccess_def RDMA_READ_MSG_def)
qed

text \<open>Up to the response, whatever it is.\<close>

lemma LoadRemote_exchange_asks:
  assumes al: "\<forall>n. x_al x n" and "talk k (load_reply rsp @ r) w" and "buf_ok b" and "content b = []"
    and "length (load_request_bytes req) \<le> 2 ^ 63" and "length (load_response_bytes rsp) \<le> 2 ^ 63"
    and "load_response_ok rsp"
  shows "\<exists>b' k'. LoadRemote_exchange x req rsp0 b k g =
      (if \<not> IsSuccess (lr_code rsp) then finished ((False, rsp), k', g)
       else if ld_only_metadata req then finished ((True, rsp), k', g)
       else run_then (LoadRemote_data x rsp b' k' g) (\<lambda>(ok, k, g). finished ((ok, rsp), k, g))) \<and>
     buf_ok b' \<and> same_link k k' \<and> talk k' r (w @ load_call req)"
proof -
  let ?rt = "size_bytes (routine_code INTER_NODE_LOAD)"
  obtain b1 k1 where k1: "send_message (Add (x_al x) ?rt) b k = finished (True, b1, k1)" "buf_ok b1"
      "same_link k k1" "talk k1 (load_reply rsp @ r) (w @ message_frame ?rt)"
    using send_message_ok [OF emits_Add [OF al, of ?rt] _ _ assms(3,4,2)]
    by (auto simp: size_bytes_def simp flip: length_0_conv)
  have "buf_ok (Reset b1)" "content (Reset b1) = []" using Reset_ok [OF k1(2)] by simp_all
  from send_message_ok [OF emits_LoadRequest [OF al, of req] load_bytes_ne(1) assms(5) this k1(4)]
  obtain b2 k2 where k2: "send_message (LoadRequest_Marshal (x_al x) req) (Reset b1) k1 = finished (True, b2, k2)"
      "buf_ok b2" "same_link k1 k2" "talk k2 (load_reply rsp @ r) (w @ load_call req)"
    by (auto simp: load_call_def)
  obtain b3 k3 where k3: "receive_message (x_al x) b2 k2 = finished (True, b3, k3)" "buf_ok b3"
      "unread b3 = load_response_bytes rsp" "same_link k2 k3" "talk k3 r (w @ load_call req)"
    using receive_message_ok [OF al k2(2) load_bytes_ne(2) assms(6) k2(4) [unfolded load_reply_def]] by blast
  obtain b4 where "returned (LoadResponse_Unmarshal b3) = finished (rsp, b4)" "buf_ok b4"
    using parse_ok [OF parses_LoadResponse [OF assms(7)] k3(2,3)] by blast
  moreover have "same_link k k3"
    using k1(3) k2(3) k3(4) by (blast intro: same_link_trans)
  ultimately show ?thesis
    using k1(1) k2(1) k3(1,5) by (intro exI [of _ b4] exI [of _ k3]) (simp add: LoadRemote_exchange_def)
qed

lemma LoadRemote_exchange_ok:
  assumes al: "\<forall>n. x_al x n" and "modify_contract obs (x_modify x)"
    and "lr_metadata rsp = md" and "msize md = n" and "n \<le> total_idle (mstat (g_mon g))"
    and "allocate x md new_DataEntry g = (STATUS_SUCCESS, e, g1)" and "save_entry x md e g1 = Inr (ok, g2)"
    and "link_ready obs x (address e) n k (g_verbs g2) l v" and "ids_ok pc pl"
    and "talk k (load_reply rsp @ con_frame pc pl @ [81] @ r) w" and "buf_ok b" and "content b = []"
    and "rdma_read (x_nic x) (l\<lparr>remote_props := local_con_data pc pl\<rparr>) (k_lkey k) (address e) 0 0 n
           ((k_dev k)\<lparr>dev_local := g_mem g2\<rparr>) = Inr (Some (True, d))"
    and "length (load_request_bytes req) \<le> 2 ^ 63" and "length (load_response_bytes rsp) \<le> 2 ^ 63"
    and "\<not> ld_only_metadata req" and "load_response_ok rsp" and "lr_code rsp = STATUS_SUCCESS"
  shows "\<exists>k'. LoadRemote_exchange x req rsp0 b k g =
       finished ((True, rsp), k', g2\<lparr>g_verbs := v, g_mem := dev_local d\<rparr>) \<and>
     talk k' r (w @ load_call req @ con_frame l (k_ids k) @ [81] @ note_frame ''R'')"
proof -
  obtain b' k' where asks: "LoadRemote_exchange x req rsp0 b k g =
        run_then (LoadRemote_data x rsp b' k' g) (\<lambda>(ok, k, g). finished ((ok, rsp), k, g))"
      "buf_ok b'" "same_link k k'" "talk k' (con_frame pc pl @ [81] @ r) (w @ load_call req)"
    using LoadRemote_exchange_asks [OF al assms(10-12,14,15,17), of rsp0 g] assms(16,18) by (auto simp: IsSuccess_def)
  have "talk k'' r ((w @ load_call req) @ con_frame l (k_ids k') @ [81] @ note_frame ''R'') \<Longrightarrow>
      LoadRemote_data x rsp b' k' g = finished (True, k'', g2\<lparr>g_verbs := v, g_mem := dev_local d\<rparr>) \<Longrightarrow> ?thesis" for k''
    using asks(1) by (intro exI [of _ k'']) (simp add: same_linkD [OF asks(3)])
  then show ?thesis
    using LoadRemote_data_ok [OF al assms(2-7) _ assms(9) asks(4,2), of l v d] assms(8,13)
    by (auto simp: link_ready_same [OF asks(3)] same_linkD [OF asks(3)])
qed

lemma LoadRemote_ok:
  assumes al: "\<forall>n. x_al x n" and "getEndpoint (x_vars x) ''rdma'' = Inr ep"
    and "getNodeIP (x_resolve x) (x_world x) (node_rank (ld_metadata req)) = Inr (Some peer)"
    and "g_dials g = d # ds" and "connects d" and "modify_contract obs (x_modify x)"
    and "lr_metadata rsp = md" and "msize md = n" and "n \<le> total_idle (mstat (g_mon g))"
    and "allocate x md new_DataEntry (g\<lparr>g_nics := snd (ChooseNic (g_nics g)), g_dials := ds\<rparr>) = (STATUS_SUCCESS, e, g1)"
    and "save_entry x md e g1 = Inr (ok, g2)"
    and "link_ready obs x (address e) n (dialled (setAddr peer ep) d (g_nics g)) (g_verbs g2) l v" and "ids_ok pc pl"
    and "talk (d_conn d) (load_reply rsp @ con_frame pc pl @ [81] @ r) w"
    and "rdma_read (x_nic x) (l\<lparr>remote_props := local_con_data pc pl\<rparr>) (k_lkey (d_conn d)) (address e) 0 0 n
           ((k_dev (d_conn d))\<lparr>dev_local := g_mem g2\<rparr>) = Inr (Some (True, dv))"
    and "length (load_request_bytes req) \<le> 2 ^ 63" and "length (load_response_bytes rsp) \<le> 2 ^ 63"
    and "\<not> ld_only_metadata req" and "load_response_ok rsp" and "lr_code rsp = STATUS_SUCCESS"
  shows "\<exists>k' g'. LoadRemote x req rsp0 g = finished ((True, rsp), Some k', g') \<and>
     g_mem g' = dev_local dv \<and> g_store g' = g_store g2 \<and>
     talk k' r (w @ load_call req @ con_frame l (k_ids (d_conn d)) @ [81] @ note_frame ''R'')"
proof -
  obtain b where b: "returned (Buffer_new (x_al x)) = finished b" "buf_ok b" "content b = []"
    using Buffer_new_finished [OF al] by blast
  let ?k = "dialled (setAddr peer ep) d (g_nics g)" and ?h = "snd (ChooseNic (g_nics g))"
  let ?g = "g\<lparr>g_nics := ?h, g_dials := ds\<rparr>"
  have k: "talk ?k (load_reply rsp @ con_frame pc pl @ [81] @ r) w" "k_lkey ?k = k_lkey (d_conn d)"
      "k_dev ?k = k_dev (d_conn d)" "k_ids ?k = k_ids (d_conn d)"
    using assms(14) by (simp_all add: talk_def dialled_def)
  have "n \<le> total_idle (mstat (g_mon ?g))" using assms(9) by simp
  then obtain k' where k': "LoadRemote_exchange x req rsp0 b ?k ?g =
       finished ((True, rsp), k', g2\<lparr>g_verbs := v, g_mem := dev_local dv\<rparr>)"
      "talk k' r (w @ load_call req @ con_frame l (k_ids ?k) @ [81] @ note_frame ''R'')"
    using LoadRemote_exchange_ok [OF al assms(6-8) _ assms(10-13) k(1) b(2,3) _ assms(16-20), of dv rsp0]
      assms(15) k(2,3) by auto
  obtain v' h where "with_connection x (setAddr peer ep) (False, rsp0) (LoadRemote_exchange x req rsp0 b) g =
      finished ((True, rsp), k', (g2\<lparr>g_verbs := v, g_mem := dev_local dv\<rparr>)\<lparr>g_verbs := v', g_nics := h\<rparr>)"
    using with_connection_ok [OF assms(4,5), of "LoadRemote_exchange x req rsp0 b", OF k'(1), of x "(False, rsp0)"]
    by blast
  then show ?thesis
    using b(1) assms(2,3) k'(2) k(4)
    by (intro exI [of _ k'] exI [of _ "(g2\<lparr>g_verbs := v, g_mem := dev_local dv\<rparr>)\<lparr>g_verbs := v', g_nics := h\<rparr>"])
      (simp add: LoadRemote_def)
qed

section \<open>The server\<close>

lemma handleLoad_data_ok:
  assumes al: "\<forall>n. x_al x n" and "modify_contract obs (x_modify x)"
    and "link_ready obs x (address (lr_data_entry rsp)) (msize (lr_metadata rsp)) k (g_verbs g) l v" and "ids_ok pc pl"
    and "talk k (con_frame pc pl @ [81] @ note_frame ''R'' @ r) w" and "buf_ok b"
  shows "\<exists>k'. handleLoad_data x rsp b k g = finished (k', g\<lparr>g_verbs := v\<rparr>) \<and>
     talk k' r (w @ con_frame l (k_ids k) @ [81])"
proof -
  obtain k1 where k1: "conn_handshake x (address (lr_data_entry rsp)) (msize (lr_metadata rsp)) k g =
        finished (STATUS_SUCCESS, k1, g\<lparr>g_verbs := v\<rparr>)"
      "talk k1 (note_frame ''R'' @ r) (w @ con_frame l (k_ids k) @ [81])"
    using handshake_ok [OF assms(2-5)] by blast
  obtain b1 k2 where k2: "receive_message (x_al x) b k1 = finished (True, b1, k2)" "buf_ok b1"
      "unread b1 = string_bytes ''R''" "talk k2 r (w @ con_frame l (k_ids k) @ [81])"
    using receive_message_ok [OF al assms(6) string_bytes_ne R_length k1(2) [unfolded note_frame_def]] by blast
  have "string_ok ''R''" by (simp add: string_ok_def)
  then obtain b2 where "returned (GetString b1) = finished (''R'', b2)"
    using parse_ok [OF parses_GetString k2(2,3)] by blast
  then show ?thesis
    using k1(1) k2(1,4)
    by (intro exI [of _ k2]) (simp add: handleLoad_data_def RDMA_READ_MSG_def IsSuccess_def)
qed

text \<open>Up to the response, whatever it is.\<close>

lemma handleLoad_answers:
  assumes al: "\<forall>n. x_al x n" and "metadata_ok (ld_metadata req)" and "length (load_request_bytes req) \<le> 2 ^ 63"
    and "length (load_response_bytes rsp) \<le> 2 ^ 63"
    and "x_client x = Inr mc" and "load_answer x mc req g = Inr (rsp, g1)"
    and "talk k (message_frame (load_request_bytes req) @ r) w"
  shows "\<exists>b' k'. handleLoad x k g =
      (if lr_code rsp \<noteq> STATUS_SUCCESS then finished (k', g1)
       else if ld_only_metadata req then finished (k', g1)
       else handleLoad_data x rsp b' k' g1) \<and>
     buf_ok b' \<and> same_link k k' \<and> talk k' r (w @ load_reply rsp)"
proof -
  obtain b where b: "returned (Buffer_new (x_al x)) = finished b" "buf_ok b" "content b = []"
    using Buffer_new_finished [OF al] by blast
  obtain b1 k1 where k1: "conn_read (x_al x) b k = finished (True, b1, k1)" "buf_ok b1"
      "unread b1 = load_request_bytes req" "same_link k k1" "talk k1 r w"
    using conn_read_ok [OF al b(2,3) load_bytes_ne(1) assms(3,7)] by blast
  obtain b2 where b2: "returned (LoadRequest_Unmarshal b1) = finished (req, b2)" "buf_ok b2"
    using parse_ok [OF parses_LoadRequest [OF assms(2)] k1(2,3)] by blast
  have "buf_ok (Reset b2)" "content (Reset b2) = []" using Reset_ok [OF b2(2)] by simp_all
  from send_message_ok [OF emits_LoadResponse [OF al, of rsp] load_bytes_ne(2) assms(4) this k1(5)]
  obtain b3 k2 where k2: "send_message (LoadResponse_Marshal (x_al x) rsp) (Reset b2) k1 = finished (True, b3, k2)"
      "buf_ok b3" "same_link k1 k2" "talk k2 r (w @ load_reply rsp)"
    by (auto simp: load_reply_def)
  then show ?thesis
    using b(1) k1(1) b2(1) assms(5,6) same_link_trans [OF k1(4) k2(3)]
    by (intro exI [of _ b3] exI [of _ k2]) (simp add: handleLoad_def)
qed

lemma handleLoad_ok:
  assumes al: "\<forall>n. x_al x n" and "modify_contract obs (x_modify x)"
    and "metadata_ok (ld_metadata req)" and "length (load_request_bytes req) \<le> 2 ^ 63"
    and "length (load_response_bytes rsp) \<le> 2 ^ 63" and "\<not> ld_only_metadata req"
    and "x_client x = Inr mc" and "load_answer x mc req g = Inr (rsp, g1)" and "lr_code rsp = STATUS_SUCCESS"
    and "link_ready obs x (address (lr_data_entry rsp)) (msize (lr_metadata rsp)) k (g_verbs g1) l v" and "ids_ok pc pl"
    and "talk k (message_frame (load_request_bytes req) @ con_frame pc pl @ [81] @ note_frame ''R'' @ r) w"
  shows "\<exists>k'. handleLoad x k g = finished (k', g1\<lparr>g_verbs := v\<rparr>) \<and>
     talk k' r (w @ load_reply rsp @ con_frame l (k_ids k) @ [81])"
proof -
  obtain b' k' where answers: "handleLoad x k g = handleLoad_data x rsp b' k' g1" "buf_ok b'" "same_link k k'"
      "talk k' (con_frame pc pl @ [81] @ note_frame ''R'' @ r) (w @ load_reply rsp)"
    using handleLoad_answers [OF al assms(3-5,7,8,12)] assms(6,9) by auto
  then show ?thesis
    using handleLoad_data_ok [OF al assms(2) _ assms(11) answers(4,2), of rsp g1 l v] assms(10)
    by (auto simp: link_ready_same [OF answers(3)] same_linkD [OF answers(3)])
qed

lemma dispatch_load: "dispatch x (routine_code INTER_NODE_LOAD) k g =
    run_then (handleLoad x k g) (\<lambda>(k, g). finished (True, k, g))"
  by (simp add: dispatch_def)

lemma serve_load_ok:
  assumes al: "\<forall>n. x_al x n" and "modify_contract obs (x_modify x)"
    and "metadata_ok (ld_metadata req)" and "length (load_request_bytes req) \<le> 2 ^ 63"
    and "length (load_response_bytes rsp) \<le> 2 ^ 63" and "\<not> ld_only_metadata req"
    and "x_client x = Inr mc" and "load_answer x mc req g = Inr (rsp, g1)" and "lr_code rsp = STATUS_SUCCESS"
    and "link_ready obs x (address (lr_data_entry rsp)) (msize (lr_metadata rsp)) k (g_verbs g1) l v" and "ids_ok pc pl"
    and "talk k (load_call req @ con_frame pc pl @ [81] @ note_frame ''R'') w"
  shows "\<exists>k' v' h. serve_connection x k g = finished (k', (g1\<lparr>g_verbs := v\<rparr>)\<lparr>g_verbs := v', g_nics := h\<rparr>) \<and>
     talk k' [] (w @ load_reply rsp @ con_frame l (k_ids k) @ [81])"
proof -
  let ?r = "message_frame (load_request_bytes req) @ con_frame pc pl @ [81] @ note_frame ''R''"
  have "talk k (message_frame (size_bytes (routine_code INTER_NODE_LOAD)) @ ?r) w"
    using assms(12) by (simp add: load_call_def)
  moreover have "\<exists>k''. dispatch x (routine_code INTER_NODE_LOAD) k' g = finished (True, k'', g1\<lparr>g_verbs := v\<rparr>) \<and>
      talk k'' [] (w @ load_reply rsp @ con_frame l (k_ids k) @ [81])"
    if k': "same_link k k'" "talk k' ?r w" for k'
  proof -
    have "talk k' (?r @ []) w" using k'(2) by simp
    then obtain k'' where "handleLoad x k' g = finished (k'', g1\<lparr>g_verbs := v\<rparr>)"
        "talk k'' [] (w @ load_reply rsp @ con_frame l (k_ids k') @ [81])"
      using handleLoad_ok [OF al assms(2-9) _ assms(11), of k' l v "[]" w] assms(10)
      by (auto simp: link_ready_same [OF k'(1)])
    then show ?thesis unfolding dispatch_load by (intro exI [of _ k'']) (simp add: same_linkD [OF k'(1)])
  qed
  ultimately show ?thesis by (rule serve_one_request [OF al])
qed

section \<open>Properties\<close>

text \<open>C8: A load, both sides: the client's call and the server of the node asked, each reading what the
  other writes, both run to their end.  The call returns true with the server's response, the file
  is in the client's index with its new memory, and every byte of that memory is the byte the
  server holds for the file.\<close>

theorem load_brings_the_bytes:
  assumes "\<forall>n. x_al xc n" and "\<forall>n. x_al xs n" and "modify_contract obs (x_modify xc)"
    and "modify_contract obs (x_modify xs)" and "nic_contract (x_nic xc)"
    and "metadata_ok (ld_metadata req)" and "length (load_request_bytes req) \<le> 2 ^ 63" and "\<not> ld_only_metadata req"
    and "load_response_ok rsp" and "length (load_response_bytes rsp) \<le> 2 ^ 63" and "lr_code rsp = STATUS_SUCCESS"
    and "lr_metadata rsp = md" and "msize md = n" and "file_name md \<noteq> []"
    and "getEndpoint (x_vars xc) ''rdma'' = Inr ep"
    and "getNodeIP (x_resolve xc) (x_world xc) (node_rank (ld_metadata req)) = Inr (Some peer)"
    and "g_dials gc = d # ds" and "connects d" and "n \<le> total_idle (mstat (g_mon gc))"
    and "allocate xc md new_DataEntry (gc\<lparr>g_nics := snd (ChooseNic (g_nics gc)), g_dials := ds\<rparr>) = (STATUS_SUCCESS, e, g1)"
    and "save_entry xc md e g1 = Inr (ok, g2)"
    and "link_ready obs xc (address e) n (dialled (setAddr peer ep) d (g_nics gc)) (g_verbs g2) lc vc"
    and "x_client xs = Inr mc" and "load_answer xs mc req gs = Inr (rsp, g3)"
    and "link_ready obs xs (address (lr_data_entry rsp)) n ks (g_verbs g3) ls vs"
    and "talk (d_conn d) (load_reply rsp @ con_frame ls (k_ids ks) @ [81]) []"
    and "talk ks (load_call req @ con_frame lc (k_ids (d_conn d)) @ [81] @ note_frame ''R'') []"
    and "dev_outstanding (k_dev (d_conn d)) = []" and "dev_remote (k_dev (d_conn d)) = g_mem gs"
    and "rdma_read (x_nic xc) (lc\<lparr>remote_props := local_con_data ls (k_ids ks)\<rparr>) (k_lkey (d_conn d)) (address e) 0 0 n
           ((k_dev (d_conn d))\<lparr>dev_local := g_mem g2\<rparr>) = Inr (Some (True, dv))"
    and "address e \<noteq> 0" and "address (lr_data_entry rsp) \<noteq> 0" and "unat (address e) + unat n < 2 ^ 64"
    and "unat (address (lr_data_entry rsp)) + unat n \<le> 2 ^ 64" and "i < n"
  shows "\<exists>kc' gc' ks' gs'. LoadRemote xc req rsp0 gc = finished ((True, rsp), Some kc', gc') \<and>
     serve_connection xs ks gs = finished (ks', gs') \<and>
     talk kc' [] (in_bytes (k_in ks)) \<and> talk ks' [] (in_bytes (k_in (d_conn d))) \<and>
     Storage_Load (my_rank xc) md (g_store gc') = Inr (Some e) \<and>
     g_mem gc' (address e + i) = g_mem gs (address (lr_data_entry rsp) + i)"
proof -
  have ids: "ids_ok ls (k_ids ks)" "ids_ok lc (k_ids (d_conn d))"
    using assms(22,25) by (simp_all add: link_ready_def dialled_def)
  have region: "region lc = address e" "region ls = address (lr_data_entry rsp)"
    using assms(22,25) by (auto simp: link_ready_def dest: create_resource_region)
  have talk_c: "talk (d_conn d) (load_reply rsp @ con_frame ls (k_ids ks) @ [81] @ []) []"
    using assms(26) by simp
  have link: "link_ready obs xs (address (lr_data_entry rsp)) (msize (lr_metadata rsp)) ks (g_verbs g3) ls vs"
    using assms(25) assms(12,13) by simp
  obtain kc' gc' where c: "LoadRemote xc req rsp0 gc = finished ((True, rsp), Some kc', gc')"
      "g_mem gc' = dev_local dv" "g_store gc' = g_store g2"
      "talk kc' [] ([] @ load_call req @ con_frame lc (k_ids (d_conn d)) @ [81] @ note_frame ''R'')"
    using LoadRemote_ok [OF assms(1,15-18,3,12,13,19-22) ids(1) talk_c assms(30,7,10,8,9,11)] by blast
  obtain ks' v h where s: "serve_connection xs ks gs = finished (ks', (g3\<lparr>g_verbs := vs\<rparr>)\<lparr>g_verbs := v, g_nics := h\<rparr>)"
      "talk ks' [] ([] @ load_reply rsp @ con_frame ls (k_ids ks) @ [81])"
    using serve_load_ok [OF assms(2,4,6,7,10,8,23,24,11) link ids(2) assms(27)] by blast
  have "Storage_Load (my_rank xc) md (g_store g2) = Inr (Some e)"
    using save_entry_effect [OF assms(21,14)] by blast
  moreover have "dev_local dv (address e + i) = g_mem gs (address (lr_data_entry rsp) + i)"
    using rdma_read_effect [OF assms(5) _ assms(30)] assms(28,29,31-35) region by (simp add: local_con_data_def)
  ultimately show ?thesis
    using c s assms(26,27)
    by (intro exI [of _ kc'] exI [of _ gc'] exI [of _ ks'] exI [of _ "(g3\<lparr>g_verbs := vs\<rparr>)\<lparr>g_verbs := v, g_nics := h\<rparr>"])
      (simp add: talk_def)
qed

text \<open>Node 0 gets the file of node 1 back.\<close>

definition demo_md1 :: Metadata where "demo_md1 = (demo_file 64)\<lparr>node_rank := 1\<rparr>"

definition demo_table :: "mem_db meta_client" where
  "demo_table = \<lparr>mc_Save = (\<lambda>md db. (STATUS_SUCCESS, db)), mc_Load = (\<lambda>md db. Inr (STATUS_SUCCESS, demo_md1, db)),
     mc_UpdateState = (\<lambda>f st db. (STATUS_SUCCESS, db)), mc_DeleteByFileName = (\<lambda>f db. (STATUS_SUCCESS, db)),
     mc_BatchLoad = (\<lambda>ft db. Inr (STATUS_SUCCESS, [demo_md1], db))\<rparr>"

definition demo_holder :: "(mem_db, qp_state \<times> 32 word) engine" where
  "demo_holder = (demo_engine (\<lambda>a. ucast a) [] [])\<lparr>g_store := \<lparr>own_dict = [''f'' \<mapsto> demo_entry], backup_dict = Map.empty\<rparr>\<rparr>"

definition demo_load :: InterNodeLoadRequest where
  "demo_load = \<lparr>ld_metadata = demo_md1, ld_only_metadata = False\<rparr>"

definition demo_found :: InterNodeLoadResponse where
  "demo_found = \<lparr>lr_metadata = demo_md1, lr_data_entry = demo_entry, lr_code = STATUS_SUCCESS\<rparr>"

definition demo_new_entry :: DataEntry where
  "demo_new_entry = \<lparr>address = 4096, pid = 12, memfd = 6\<rparr>"

definition demo_reader :: device where
  "demo_reader = demo_ready\<lparr>dev_remote := \<lambda>a. ucast a\<rparr>"

definition demo_load_dial :: "byte list \<Rightarrow> (qp_state \<times> 32 word) dial" where
  "demo_load_dial bs = \<lparr>d_calls = demo_calls, d_conn = demo_conn bs 7 demo_reader\<rparr>"

definition demo_holder_says :: "byte list" where
  "demo_holder_says = load_reply demo_found @ con_frame (demo_created 8192) (demo_ids 8) @ [81]"

definition demo_loader_says :: "byte list" where
  "demo_loader_says = load_call demo_load @ con_frame (demo_created 4096) (demo_ids 7) @ [81] @ note_frame ''R''"

definition demo_loader :: "(mem_db, qp_state \<times> 32 word) engine" where
  "demo_loader = demo_engine (\<lambda>_. 0) [Some demo_new_entry] [demo_load_dial demo_holder_says]"

lemma demo_load_allocates:
  "\<exists>g1 g2. allocate (demo_libs 0) demo_md1 new_DataEntry
       (demo_loader\<lparr>g_nics := h, g_dials := []\<rparr>) = (STATUS_SUCCESS, demo_new_entry, g1) \<and>
     save_entry (demo_libs 0) demo_md1 demo_new_entry g1 = Inr (True, g2) \<and>
     g_verbs g2 = \<lparr>fresh_id = 0, held = []\<rparr> \<and> g_mem g2 = (\<lambda>_. 0)"
  by (simp add: demo_loader_def demo_engine_def demo_libs_def demo_world_def my_rank_def demo_md1_def
      storage_new_def allocate_def note_allocation_def TryMemfdMalloc_def enough_def
      collectMetric_def MemoryStat_new_def demo_file_def new_Metadata_def memfdCalloc_def demo_new_entry_def
      new_DataEntry_def save_entry_def Storage_Save_def demo_cgroup_def count_usage_def status_defs Let_def)

lemma demo_load_answer:
  "load_answer ((demo_libs 1)\<lparr>x_client := Inr demo_table\<rparr>) demo_table demo_load demo_holder = Inr (demo_found, demo_holder)"
  by (simp add: load_answer_def demo_table_def demo_load_def demo_holder_def demo_found_def demo_libs_def demo_world_def
      my_rank_def Storage_Load_def demo_md1_def demo_file_def new_Metadata_def new_LoadResponse_def IsSuccess_def
      demo_engine_def Let_def)

definition demo_read64 :: device where
  "demo_read64 = demo_reader\<lparr>dev_local := transfer (\<lambda>_. 0) 4096 (\<lambda>a. ucast a) 8192 64, dev_polls := []\<rparr>"

lemma demo_reads64:
  "rdma_read demo_nic ((demo_created 4096)\<lparr>remote_props := local_con_data (demo_created 8192) (demo_ids 8)\<rparr>)
     9 4096 0 0 64 (demo_reader\<lparr>dev_local := \<lambda>_. 0\<rparr>) = Inr (Some (True, demo_read64))"
  by (simp add: rdma_read_def memory_registered_def demo_created_def demo_comm_def local_con_data_def
      post_chunks.simps next_chunk_def RDMA_CHUNK_SIZE_def post_send_def post_answer_def send_request_def
      demo_ready_def demo_reader_def demo_device_def demo_read64_def demo_nic_def poll_completion_def complete_oldest_def
      RDMA_SLEEP_MIN_MILLISECONDS_def Let_def)

lemma demo_load_dialled:
  "link_ready id (demo_libs r) a 64 (dialled ep (demo_load_dial bs) (g_nics (demo_engine m as ds)))
     \<lparr>fresh_id = 0, held = []\<rparr> (demo_created a) demo_verbs"
  using demo_dialled [of r a ep bs m as ds]
  by (simp add: link_ready_def dialled_def demo_load_dial_def demo_dial_def demo_conn_def)

lemma demo_load_ok:
  "metadata_ok demo_md1" "load_response_ok demo_found" "length (load_request_bytes demo_load) \<le> 100"
  "length (load_response_bytes demo_found) \<le> 100"
  by (simp_all add: demo_md1_def demo_found_def demo_load_def demo_file_def new_Metadata_def metadata_ok_def
      load_response_ok_def string_ok_def entry_ok_def int_range_def demo_entry_def load_request_bytes_def
      load_response_bytes_def metadata_bytes_def entry_bytes_def bool_bytes_def string_bytes_def c_str_def
      STATUS_SUCCESS_def)

lemma load_brings_the_bytes_witness:
  "\<exists>kc' gc' ks' gs'. LoadRemote (demo_libs 0) demo_load new_LoadResponse demo_loader =
       finished ((True, demo_found), Some kc', gc') \<and>
     serve_connection ((demo_libs 1)\<lparr>x_client := Inr demo_table\<rparr>) (demo_conn demo_loader_says 8 demo_ready) demo_holder =
       finished (ks', gs') \<and>
     talk kc' [] demo_loader_says \<and> talk ks' [] demo_holder_says \<and>
     Storage_Load 0 demo_md1 (g_store gc') = Inr (Some demo_new_entry) \<and> g_mem gc' 4100 = ucast (8196 :: size_t)"
proof -
  let ?xs = "(demo_libs 1)\<lparr>x_client := Inr demo_table\<rparr>"
  let ?h = "snd (ChooseNic (g_nics demo_loader))"
  obtain g1 g2 where g: "allocate (demo_libs 0) demo_md1 new_DataEntry
       (demo_loader\<lparr>g_nics := ?h, g_dials := []\<rparr>) = (STATUS_SUCCESS, demo_new_entry, g1)"
     "save_entry (demo_libs 0) demo_md1 demo_new_entry g1 = Inr (True, g2)"
     "g_verbs g2 = \<lparr>fresh_id = 0, held = []\<rparr>" "g_mem g2 = (\<lambda>_. 0)"
    using demo_load_allocates by blast
  have peer: "getNodeIP (x_resolve (demo_libs 0)) (x_world (demo_libs 0)) (node_rank (ld_metadata demo_load)) = Inr (Some ''b'')"
    by (simp add: getNodeIP_def host_at_def demo_libs_def demo_world_def demo_load_def demo_md1_def)
  have server: "link_ready id ?xs 8192 64 (demo_conn bs 8 d) \<lparr>fresh_id = 0, held = []\<rparr> (demo_created 8192) demo_verbs" for bs d
    using demo_link [of 1 8192 bs 8 d] by (simp add: link_ready_def demo_libs_def)
  have "\<exists>kc' gc' ks' gs'. LoadRemote (demo_libs 0) demo_load new_LoadResponse demo_loader =
       finished ((True, demo_found), Some kc', gc') \<and>
     serve_connection ?xs (demo_conn demo_loader_says 8 demo_ready) demo_holder = finished (ks', gs') \<and>
     talk kc' [] (in_bytes (k_in (demo_conn demo_loader_says 8 demo_ready))) \<and>
     talk ks' [] (in_bytes (k_in (d_conn (demo_load_dial demo_holder_says)))) \<and>
     Storage_Load (my_rank (demo_libs 0)) demo_md1 (g_store gc') = Inr (Some demo_new_entry) \<and>
     g_mem gc' (address demo_new_entry + 4) = g_mem demo_holder (address (lr_data_entry demo_found) + 4)"
    by (rule load_brings_the_bytes [where obs = id and d = "demo_load_dial demo_holder_says" and ds = "[]" and
        n = 64 and lc = "demo_created 4096" and ls = "demo_created 8192" and dv = demo_read64 and md = demo_md1,
        OF _ _ _ _ _ _ _ _ _ _ _ _ _ _ demo_endpoint peer _ _ _ g(1,2) _ _ demo_load_answer])
      (use demo_load_ok server demo_reads64 g(3,4)
         demo_load_dialled [of 0 4096 _ demo_holder_says "\<lambda>_. 0" "[Some demo_new_entry]" "[demo_load_dial demo_holder_says]"]
       in \<open>simp_all add: demo_contract demo_nic_contract demo_loader_def demo_holder_def demo_libs_def demo_load_def
        demo_found_def demo_md1_def demo_file_def demo_load_dial_def demo_calls_def connects_def demo_entry_def
        demo_new_entry_def demo_engine_def talk_def demo_conn_def demo_in_def demo_out_def demo_holder_says_def
        demo_loader_says_def demo_ready_def demo_reader_def demo_device_def new_Metadata_def STATUS_SUCCESS_def\<close>)
  then show ?thesis
    by (simp add: demo_conn_def demo_in_def demo_load_dial_def demo_libs_def my_rank_def demo_world_def demo_holder_def
        demo_engine_def demo_new_entry_def demo_found_def demo_entry_def)
qed

end
