(* ===== verification/Answers.thy ===== *)
theory Answers
  imports Loading
begin

text \<open>
  What the server answers to a batch load and to a notification (\<open>handleBatchLoad\<close> and
  \<open>handleNotifyBackup\<close> of \<open>src/coordinator/server.cpp\<close>), over a whole connection.
\<close>

section \<open>Batch load\<close>

text \<open>The files a batch load is about, and the response of one of them.\<close>

definition live :: "Metadata list \<Rightarrow> Metadata list" where
  "live = filter (\<lambda>md. state md \<noteq> OBSOLESCENT)"

definition cached :: "int \<Rightarrow> storage \<Rightarrow> Metadata \<Rightarrow> bool" where
  "cached rank s md \<longleftrightarrow> found_entry rank md s \<noteq> None"

definition response_for :: "int \<Rightarrow> storage \<Rightarrow> Metadata \<Rightarrow> InterNodeLoadResponse" where
  "response_for rank s md = \<lparr>lr_metadata = md, lr_data_entry = the (found_entry rank md s), lr_code = STATUS_SUCCESS\<rparr>"

lemma batch_entries_live:
  "list_all (\<lambda>md. file_name md \<noteq> []) vec \<Longrightarrow>
     batch_entries x False vec s =
       Inr (if list_all (cached (my_rank x) s) (live vec) then STATUS_SUCCESS else STATUS_UNKNOWN_ERROR,
            map (response_for (my_rank x) s) (takeWhile (cached (my_rank x) s) (live vec)))"
  by (induction vec)
    (auto simp: live_def cached_def response_for_def new_LoadResponse_def Storage_Load_found Let_def status_defs)

lemma batch_answer_live:
  assumes "mc_BatchLoad mc (bl_filter req) (g_db g) = Inr (STATUS_SUCCESS, vec, db)"
    and "list_all (\<lambda>md. file_name md \<noteq> []) vec" and "\<not> bl_only_metadata req"
  shows "batch_answer x mc req g =
     Inr (\<lparr>br_responses = map (response_for (my_rank x) (g_store g)) (takeWhile (cached (my_rank x) (g_store g)) (live vec)),
            br_code = (if list_all (cached (my_rank x) (g_store g)) (live vec) then STATUS_SUCCESS
                       else STATUS_UNKNOWN_ERROR)\<rparr>, g\<lparr>g_db := db\<rparr>)"
  using assms by (simp add: batch_answer_def batch_entries_live status_defs Let_def)

definition batch_call :: "InterNodeBatchLoadRequest \<Rightarrow> byte list" where
  "batch_call req = message_frame (size_bytes (routine_code INTER_NODE_BATCH_LOAD)) @
     message_frame (batch_request_bytes req)"

lemma dispatch_batch: "dispatch x (routine_code INTER_NODE_BATCH_LOAD) k g =
    run_then (handleBatchLoad x k g) (\<lambda>(k, g). finished (True, k, g))"
  by (simp add: dispatch_def)

lemma batch_bytes_ne: "batch_request_bytes req \<noteq> []" "batch_response_bytes rsp \<noteq> []"
  by (simp_all add: batch_request_bytes_def batch_response_bytes_def bool_bytes_def flip: length_0_conv)

lemma handleBatchLoad_ok:
  assumes al: "\<forall>n. x_al x n" and "filter_ok (bl_filter req)" and "length (batch_request_bytes req) \<le> 2 ^ 63"
    and "x_client x = Inr mc" and "batch_answer x mc req g = Inr (rsp, g1)"
    and "length (batch_response_bytes rsp) \<le> 2 ^ 63" and "talk k (message_frame (batch_request_bytes req) @ r) w"
  shows "\<exists>k'. handleBatchLoad x k g = finished (k', g1) \<and> talk k' r (w @ message_frame (batch_response_bytes rsp))"
proof -
  obtain b where b: "returned (Buffer_new (x_al x)) = finished b" "buf_ok b" "content b = []"
    using Buffer_new_finished [OF al] by blast
  obtain b1 k1 where k1: "conn_read (x_al x) b k = finished (True, b1, k1)" "buf_ok b1"
      "unread b1 = batch_request_bytes req" "talk k1 r w"
    using conn_read_ok [OF al b(2,3) batch_bytes_ne(1) assms(3,7)] by blast
  obtain b2 where b2: "returned (BatchLoadRequest_Unmarshal b1) = finished (req, b2)" "buf_ok b2"
    using parse_ok [OF parses_BatchLoadRequest [OF assms(2)] k1(2,3)] by blast
  have "buf_ok (Reset b2)" "content (Reset b2) = []" using Reset_ok [OF b2(2)] by simp_all
  from send_message_ok [OF emits_BatchLoadResponse [OF al, of rsp] batch_bytes_ne(2) assms(6) this k1(4)]
  obtain b3 k2 where "send_message (BatchLoadResponse_Marshal (x_al x) rsp) (Reset b2) k1 = finished (True, b3, k2)"
      "talk k2 r (w @ message_frame (batch_response_bytes rsp))"
    by auto
  then show ?thesis
    using b(1) k1(1) b2(1) assms(4,5) by (intro exI [of _ k2]) (simp add: handleBatchLoad_def)
qed

section \<open>Notify backup\<close>

lemma dispatch_notify: "dispatch x (routine_code INTER_NODE_NOTIFY_BACKUP) k g =
    run_then (handleNotifyBackup x k g) (\<lambda>(k, g). finished (True, k, g))"
  by (simp add: dispatch_def)

definition everything_of :: "int \<Rightarrow> BatchLoadFilter" where
  "everything_of rank = \<lparr>ft_node_rank = rank, ft_iteration = '''', ft_state = STATE_ANY\<rparr>"

definition notify_code :: "int \<Rightarrow> bool \<Rightarrow> int" where
  "notify_code rc res = (if res then rc else STATUS_UNKNOWN_ERROR)"

lemma handleNotifyBackup_ok:
  assumes al: "\<forall>n. x_al x n" and "x_client x = Inr mc"
    and "mc_BatchLoad mc (everything_of (my_rank x)) (g_db g) = Inr (rc, vec, db)" and "\<not> cache_incomplete vec (g_store g)"
    and "backup_tasks x vec (g\<lparr>g_db := db\<rparr>) = finished (res, g1)" and "talk k r w"
  shows "\<exists>k'. handleNotifyBackup x k g = finished (k', g1) \<and> talk k' r (w @ code_answer (notify_code rc res))"
proof -
  obtain b where b: "returned (Buffer_new (x_al x)) = finished b" "buf_ok b" "content b = []"
    using Buffer_new_finished [OF al] by blast
  have ne: "int_bytes c \<noteq> []" "length (int_bytes c) \<le> 2 ^ 63" for c
    by (simp_all flip: length_0_conv)
  obtain b1 k1 where k1: "send_message (Code_Marshal (x_al x) (notify_code rc res)) b k = finished (True, b1, k1)"
      "talk k1 r (w @ code_answer (notify_code rc res))"
    using send_message_ok [OF emits_Code [OF al, of "notify_code rc res"] ne b(2,3) assms(6)] by (auto simp: code_answer_def)
  have "(if \<not> res then STATUS_UNKNOWN_ERROR else
      if IsNotFound rc then rc else if \<not> IsSuccess rc then rc else STATUS_SUCCESS) = notify_code rc res"
    by (auto simp: notify_code_def IsSuccess_def)
  then show ?thesis
    using b(1) k1 assms(2-5)
    by (intro exI [of _ k1]) (simp add: handleNotifyBackup_def everything_of_def Let_def)
qed

lemma handleNotifyBackup_silent:
  assumes "x_client x = Inr mc" and "mc_BatchLoad mc (everything_of (my_rank x)) (g_db g) = Inr (rc, vec, db)"
    and "cache_incomplete vec (g_store g)"
  shows "handleNotifyBackup x k g = finished (k, g\<lparr>g_db := db\<rparr>)"
  using assms by (simp add: handleNotifyBackup_def everything_of_def Let_def)

section \<open>Properties\<close>

text \<open>C11: A batch load asked over a connection is answered with one response for each file the filter
  selects that is not obsolescent, in the table's order, each with the entry the node has cached
  under that metadata; at the first file that is not cached the list ends and the code says so.\<close>

theorem batch_load_lists_the_cache:
  assumes "\<forall>n. x_al x n" and "filter_ok (bl_filter req)" and "length (batch_request_bytes req) \<le> 2 ^ 63"
    and "\<not> bl_only_metadata req" and "x_client x = Inr mc"
    and "mc_BatchLoad mc (bl_filter req) (g_db g) = Inr (STATUS_SUCCESS, vec, db)"
    and "list_all (\<lambda>md. file_name md \<noteq> []) vec" and "s = g_store g" and "rank = my_rank x"
    and "rsp = \<lparr>br_responses = map (response_for rank s) (takeWhile (cached rank s) (live vec)),
                br_code = (if list_all (cached rank s) (live vec) then STATUS_SUCCESS else STATUS_UNKNOWN_ERROR)\<rparr>"
    and "length (batch_response_bytes rsp) \<le> 2 ^ 63" and "talk k (batch_call req) []"
  shows "\<exists>k' v h. serve_connection x k g = finished (k', g\<lparr>g_db := db, g_verbs := v, g_nics := h\<rparr>) \<and>
     talk k' [] (message_frame (batch_response_bytes rsp))"
proof -
  have answer: "batch_answer x mc req g = Inr (rsp, g\<lparr>g_db := db\<rparr>)"
    using batch_answer_live [OF assms(6,7,4)] assms(8-10) by simp
  have "talk k (message_frame (size_bytes (routine_code INTER_NODE_BATCH_LOAD)) @ message_frame (batch_request_bytes req)) []"
    using assms(12) by (simp add: batch_call_def)
  moreover have "\<exists>k''. dispatch x (routine_code INTER_NODE_BATCH_LOAD) k' g = finished (True, k'', g\<lparr>g_db := db\<rparr>) \<and>
      talk k'' [] (message_frame (batch_response_bytes rsp))"
    if "talk k' (message_frame (batch_request_bytes req)) []" for k'
    using handleBatchLoad_ok [OF assms(1-3,5) answer assms(11), of k' "[]" "[]"] that
    unfolding dispatch_batch by force
  ultimately show ?thesis
    using serve_one_request [OF assms(1), of k _ "message_frame (batch_request_bytes req)" "[]" g "g\<lparr>g_db := db\<rparr>"]
    by fastforce
qed



definition demo_batch :: InterNodeBatchLoadRequest where
  "demo_batch = \<lparr>bl_filter = everything_of 1, bl_only_metadata = False\<rparr>"

definition demo_batch_reply :: InterNodeBatchLoadResponse where
  "demo_batch_reply = \<lparr>br_responses = [demo_found], br_code = STATUS_SUCCESS\<rparr>"

lemma batch_load_lists_the_cache_witness:
  "\<exists>k' v h. serve_connection ((demo_libs 1)\<lparr>x_client := Inr demo_table\<rparr>)
       (demo_conn (batch_call demo_batch) 8 demo_ready) demo_holder =
       finished (k', demo_holder\<lparr>g_db := [], g_verbs := v, g_nics := h\<rparr>) \<and>
     talk k' [] (message_frame (batch_response_bytes demo_batch_reply))"
proof -
  let ?x = "(demo_libs 1)\<lparr>x_client := Inr demo_table\<rparr>" and ?s = "g_store demo_holder"
  have found: "found_entry 1 demo_md1 ?s = Some demo_entry"
    by (simp add: found_entry_def demo_holder_def demo_md1_def demo_file_def new_Metadata_def)
  have live: "live [demo_md1] = [demo_md1]"
    by (simp add: live_def demo_md1_def demo_file_def new_Metadata_def)
  have rank: "my_rank ?x = 1" by (simp add: my_rank_def demo_libs_def demo_world_def)
  have reply: "demo_batch_reply = \<lparr>br_responses = map (response_for 1 ?s) (takeWhile (cached 1 ?s) (live [demo_md1])),
      br_code = (if list_all (cached 1 ?s) (live [demo_md1]) then STATUS_SUCCESS else STATUS_UNKNOWN_ERROR)\<rparr>"
    by (simp add: live cached_def response_for_def found demo_batch_reply_def demo_found_def)
  have small: "length (batch_response_bytes demo_batch_reply) \<le> 2 ^ 63" "length (batch_request_bytes demo_batch) \<le> 2 ^ 63"
    by (simp_all add: batch_response_bytes_def demo_batch_reply_def responses_bytes_def demo_found_def demo_md1_def
        demo_file_def new_Metadata_def metadata_bytes_def entry_bytes_def string_bytes_def c_str_def
        batch_request_bytes_def demo_batch_def everything_of_def filter_bytes_def bool_bytes_def)
  show ?thesis
    by (rule batch_load_lists_the_cache [where req = demo_batch and mc = demo_table and vec = "[demo_md1]" and
        rank = 1 and s = ?s, OF _ _ small(2) _ _ _ _ refl rank [symmetric] reply small(1)])
      (simp_all add: demo_libs_def demo_table_def demo_holder_def demo_engine_def demo_batch_def everything_of_def
        filter_ok_def int_range_def string_ok_def demo_md1_def demo_file_def new_Metadata_def
        talk_def demo_conn_def demo_in_def demo_out_def)
qed


text \<open>C13: The loop of a connection ends by itself: it makes at most one round for every byte the peer sends,
  more rounds change nothing, and when serving the connection does not return it is because one
  of its handlers, on what is left of the connection, does not.\<close>

theorem connection_loop_ends:
  assumes "pending k < n"
  shows "execute x n b k g = execute x (Suc (pending k)) b k g \<and>
     (execute x n b k g = Inr None \<longrightarrow>
        (\<exists>routine k' g'. pending k' < pending k \<and> dispatch x routine k' g' = Inr None))"
  using execute_enough [OF assms, of x b g] execute_hangs_in_handler [OF assms, of x b g] by blast

text \<open>A peer that sends an undefined routine: whatever the number of rounds, the server leaves.\<close>

definition demo_empty :: buffer where
  "demo_empty = \<lparr>buf_size = 0, buf_data = [], buf_length = 0, buf_offset = 0\<rparr>"

lemma connection_loop_ends_witness:
  "execute (demo_libs 1) 1000 demo_empty (demo_conn (message_frame (size_bytes 99)) 8 demo_ready) demo_target =
   execute (demo_libs 1) 17 demo_empty (demo_conn (message_frame (size_bytes 99)) 8 demo_ready) demo_target"
proof -
  have "pending (demo_conn (message_frame (size_bytes 99)) 8 demo_ready) = 16"
    by (simp add: pending_def demo_conn_def demo_in_def message_frame_def)
  then show ?thesis
    using connection_loop_ends [of "demo_conn (message_frame (size_bytes 99)) 8 demo_ready" 1000 "demo_libs 1" demo_empty demo_target]
    by simp
qed

end
