(* ===== verification/Loader.thy ===== *)
theory Loader
  imports Requests
begin

text \<open>
  The loader of remote files of \<open>include/communicator/http/remote_file_loader.h\<close>: client requests
  put a file's name into a channel of capacity 4, one thread loads it from its node, and the
  clients poll a map until it says the file is there.  What the other threads of the process have
  done by the end of the \<open>n\<close>-th pause of a waiting client is the parameter \<open>others\<close>.
\<close>

section \<open>State\<close>

record keyAndNode =
  kn_key :: string
  kn_rank :: int

text \<open>\<open>fl_locked\<close>: a thread has left the code that holds the mutex without unlocking it.\<close>

record remoteFileLoader =
  fl_requests :: "keyAndNode channel"
  fl_ongoing :: "string \<rightharpoonup> bool"
  fl_locked :: bool

definition remoteFileLoader_new :: remoteFileLoader where
  "remoteFileLoader_new = \<lparr>fl_requests = channel_new 4, fl_ongoing = Map.empty, fl_locked = False\<rparr>"

text \<open>What the requests of one node work on.\<close>

record ('db, 'q) front =
  f_engine :: "('db, 'q) engine"
  f_loader :: remoteFileLoader

type_synonym ('db, 'q) others = "nat \<Rightarrow> ('db, 'q) front \<Rightarrow> ('db, 'q) front"

section \<open>The map of files\<close>

text \<open>\<open>None\<close>: the caller waits for the mutex for ever.\<close>

definition safeInsert :: "string \<Rightarrow> bool \<Rightarrow> remoteFileLoader \<Rightarrow> (bool \<times> remoteFileLoader) option" where
  "safeInsert key val l =
     (if fl_locked l then None
      else if fl_ongoing l key \<noteq> None then Some (True, l\<lparr>fl_locked := True\<rparr>)
      else Some (False, l\<lparr>fl_ongoing := (fl_ongoing l)(key \<mapsto> val)\<rparr>))"

definition safeUpdate :: "string \<Rightarrow> bool \<Rightarrow> remoteFileLoader \<Rightarrow> remoteFileLoader option" where
  "safeUpdate key val l =
     (if fl_locked l then None else Some (l\<lparr>fl_ongoing := (fl_ongoing l)(key \<mapsto> val)\<rparr>))"

definition safeRead :: "string \<Rightarrow> remoteFileLoader \<Rightarrow> bool option option" where
  "safeRead key l = (if fl_locked l then None else Some (fl_ongoing l key))"

definition safeErase :: "string \<Rightarrow> remoteFileLoader \<Rightarrow> remoteFileLoader option" where
  "safeErase key l =
     (if fl_locked l then None else Some (l\<lparr>fl_ongoing := (fl_ongoing l)(key := None)\<rparr>))"

section \<open>The loading thread\<close>

text \<open>The body of the thread's loop for one request.\<close>

definition reconcile_item ::
  "('db, 'q) libs \<Rightarrow> keyAndNode \<Rightarrow> ('db, 'q) front \<Rightarrow> ('db, 'q) front outcome" where
  "reconcile_item x item s =
     (let f = kn_key item in
      if fl_ongoing (f_loader s) f \<noteq> None then finished s
      else case safeInsert f False (f_loader s) of
        None \<Rightarrow> Inr None
      | Some (already_exist, l) \<Rightarrow>
        let s = s\<lparr>f_loader := l\<rparr> in
        if already_exist then finished s
        else let md = \<lparr>job_name = w_job_name (x_world x), file_name = f, node_rank = kn_rank item,
                       iteration = '''', state = STATE_ANY, msize = 0\<rparr> in
          run_then (LoadRemote x \<lparr>ld_metadata = md, ld_only_metadata = False\<rparr> new_LoadResponse (f_engine s))
            (\<lambda>((ok, rsp), _, g).
              let s = s\<lparr>f_engine := g\<rparr> in
              case (if \<not> ok \<or> lr_code rsp \<noteq> STATUS_SUCCESS
                    then safeErase f (f_loader s) else safeUpdate f True (f_loader s)) of
                None \<Rightarrow> Inr None
              | Some l \<Rightarrow> finished (s\<lparr>f_loader := l\<rparr>)))"

text \<open>One round of the thread: it waits while there is no request.\<close>

definition reconcile_turn :: "('db, 'q) libs \<Rightarrow> ('db, 'q) front \<Rightarrow> ('db, 'q) front outcome" where
  "reconcile_turn x s =
     (case ch_read (fl_requests (f_loader s)) of
        Read_result (Some item) ch \<Rightarrow>
          reconcile_item x item (s\<lparr>f_loader := (f_loader s)\<lparr>fl_requests := ch\<rparr>\<rparr>)
      | _ \<Rightarrow> finished s)"

section \<open>Waiting clients\<close>

text \<open>The result carries the number of pauses so far.\<close>

partial_function (option) AddKey ::
  "('db, 'q) others \<Rightarrow> keyAndNode \<Rightarrow> nat \<Rightarrow> ('db, 'q) front \<Rightarrow> (nat \<times> ('db, 'q) front) result option" where
  "AddKey others item n s =
     (case ch_write item (fl_requests (f_loader s)) of
        Throws_closed \<Rightarrow> Some (Inl (Fatal ''cannot write on closed channel''))
      | Write_waits \<Rightarrow> AddKey others item (Suc n) (others n s)
      | Written ch \<Rightarrow> Some (Inr (n, s\<lparr>f_loader := (f_loader s)\<lparr>fl_requests := ch\<rparr>\<rparr>)))"

partial_function (option) WaitUntilFileReady ::
  "('db, 'q) others \<Rightarrow> string \<Rightarrow> nat \<Rightarrow> ('db, 'q) front \<Rightarrow> (nat \<times> ('db, 'q) front) result option" where
  "WaitUntilFileReady others f n s =
     (case safeRead f (f_loader s) of
        None \<Rightarrow> None
      | Some v \<Rightarrow> if v = Some True then Some (Inr (n, s))
                  else WaitUntilFileReady others f (Suc n) (others n s))"

text \<open>A loop that may wait for ever, as an outcome.\<close>

definition awaited :: "'a result option \<Rightarrow> 'a outcome" where
  "awaited r = (case r of None \<Rightarrow> Inr None | Some v \<Rightarrow> returned v)"

lemma awaited_simps [simp]:
  "awaited None = Inr None" "awaited (Some (Inr v)) = finished v" "awaited (Some (Inl e)) = Inl e"
  by (simp_all add: awaited_def)

section \<open>The mutex\<close>

lemma safe_unlocked [simp]:
  "\<not> fl_locked l \<Longrightarrow> safeUpdate f v l = Some (l\<lparr>fl_ongoing := (fl_ongoing l)(f \<mapsto> v)\<rparr>)"
  "\<not> fl_locked l \<Longrightarrow> safeErase f l = Some (l\<lparr>fl_ongoing := (fl_ongoing l)(f := None)\<rparr>)"
  "\<not> fl_locked l \<Longrightarrow> safeRead f l = Some (fl_ongoing l f)"
  "\<not> fl_locked l \<Longrightarrow> fl_ongoing l f = None \<Longrightarrow>
     safeInsert f v l = Some (False, l\<lparr>fl_ongoing := (fl_ongoing l)(f \<mapsto> v)\<rparr>)"
  by (simp_all add: safeUpdate_def safeErase_def safeRead_def safeInsert_def)

text \<open>Inserting a key twice leaves the mutex locked; every later call waits for ever.\<close>

lemma second_insert_locks:
  assumes "safeInsert f v l = Some (False, l1)"
  shows "\<exists>l2. safeInsert f v l1 = Some (True, l2) \<and> safeInsert k w l2 = None \<and> safeUpdate k w l2 = None \<and>
     safeErase k l2 = None \<and> safeRead k l2 = None"
  using assms by (auto simp: safeInsert_def safeUpdate_def safeErase_def safeRead_def split: if_splits)


section \<open>What waiting comes to\<close>

text \<open>The state after \<open>k\<close> more pauses.\<close>

primrec elapse :: "('db, 'q) others \<Rightarrow> nat \<Rightarrow> nat \<Rightarrow> ('db, 'q) front \<Rightarrow> ('db, 'q) front" where
  "elapse others n 0 s = s"
| "elapse others n (Suc k) s = elapse others (Suc n) k (others n s)"

definition file_ready :: "string \<Rightarrow> ('db, 'q) front \<Rightarrow> bool" where
  "file_ready f s \<longleftrightarrow> \<not> fl_locked (f_loader s) \<and> fl_ongoing (f_loader s) f = Some True"

lemma WaitUntilFileReady_now:
  "file_ready f s \<Longrightarrow> WaitUntilFileReady others f n s = Some (Inr (n, s))"
  by (subst WaitUntilFileReady.simps) (simp add: file_ready_def)

lemma WaitUntilFileReady_returns:
  "(\<forall>j < k. \<not> fl_locked (f_loader (elapse others n j s)) \<and> \<not> file_ready f (elapse others n j s)) \<Longrightarrow>
     file_ready f (elapse others n k s) \<Longrightarrow>
     WaitUntilFileReady others f n s = Some (Inr (n + k, elapse others n k s))"
proof (induction k arbitrary: n s)
  case 0
  then show ?case by (simp add: WaitUntilFileReady_now)
next
  case (Suc k)
  have s: "\<not> fl_locked (f_loader s)" "fl_ongoing (f_loader s) f \<noteq> Some True"
    using Suc.prems(1) [rule_format, of 0] by (auto simp: file_ready_def)
  have "\<forall>j < k. \<not> fl_locked (f_loader (elapse others (Suc n) j (others n s))) \<and>
      \<not> file_ready f (elapse others (Suc n) j (others n s))"
    using Suc.prems(1) by (metis Suc_mono elapse.simps(2))
  from Suc.IH [OF this] Suc.prems(2) s show ?case
    by (subst WaitUntilFileReady.simps) simp
qed

lemma WaitUntilFileReady_needs_ready:
  "WaitUntilFileReady others f n s = Some r \<Longrightarrow> \<exists>k. file_ready f (elapse others n k s)"
proof (rule WaitUntilFileReady.raw_induct [where P = "\<lambda>others f n s r. \<exists>k. file_ready f (elapse others n k s)"])
  fix wait others f n s r
  assume IH: "\<And>others f n s r. wait others f n s = Some r \<Longrightarrow> \<exists>k. file_ready f (elapse others n k s)"
    and body: "(case safeRead f (f_loader s) of None \<Rightarrow> None
      | Some v \<Rightarrow> if v = Some True then Some (Inr (n, s)) else wait others f (Suc n) (others n s)) = Some r"
  show "\<exists>k. file_ready f (elapse others n k s)"
  proof (cases "safeRead f (f_loader s) = Some (Some True)")
    case True
    then have "file_ready f (elapse others n 0 s)"
      by (simp add: file_ready_def safeRead_def split: if_splits)
    then show ?thesis ..
  next
    case False
    with body have "wait others f (Suc n) (others n s) = Some r"
      by (auto split: option.splits if_splits)
    from IH [OF this] obtain k where "file_ready f (elapse others n (Suc k) s)" by auto
    then show ?thesis ..
  qed
qed

end
