(* ===== verification/Http.thy ===== *)
theory Http
  imports Loader Bootstrap "HOL-Library.List_Lexorder" "HOL-Library.Char_ord"
begin

text \<open>
  The HTTP service of \<open>include/communicator/http/http_service_impl.h\<close>, through which the training
  process of the same node creates, updates and gets checkpoints.  A request works on the node's
  engine and its loader (\<open>front\<close>); where it sleeps, \<open>others\<close> says what the other threads (work
  queue, server, loader, other requests) have done by the end of the pause.  \<open>createMetadata\<close> holds
  a mutex while it looks after the cached iterations, so that part of two requests never overlaps.
\<close>

section \<open>Messages\<close>

record HttpRequest =
  hq_filename :: string
  hq_noderank :: int
  hq_iteration :: string
  hq_checkpointstate :: int
  hq_size :: size_t

record HttpResponse =
  hs_status :: string
  hs_checkpointstate :: int
  hs_message :: string
  hs_pid :: "int option"
  hs_memfd :: "int option"

definition new_HttpResponse :: HttpResponse where
  "new_HttpResponse = \<lparr>hs_status = '''', hs_checkpointstate = 0, hs_message = '''', hs_pid = None, hs_memfd = None\<rparr>"

definition make_resp :: "HttpResponse \<Rightarrow> string \<Rightarrow> string \<Rightarrow> int \<Rightarrow> HttpResponse" where
  "make_resp res status message st =
     res\<lparr>hs_status := status, hs_checkpointstate := st, hs_message := ''server: '' @ message\<rparr>"

type_synonym ('db, 'q) answer = "(HttpResponse \<times> nat \<times> ('db, 'q) front) outcome"

definition refuse :: "string \<Rightarrow> int \<Rightarrow> nat \<Rightarrow> ('db, 'q) front \<Rightarrow> ('db, 'q) answer" where
  "refuse message st n s = finished (make_resp new_HttpResponse ''ERROR'' message st, n, s)"

definition put_engine :: "('db, 'q) engine \<Rightarrow> ('db, 'q) front \<Rightarrow> ('db, 'q) front" where
  "put_engine g s = s\<lparr>f_engine := g\<rparr>"

definition put_db :: "'db \<Rightarrow> ('db, 'q) front \<Rightarrow> ('db, 'q) front" where
  "put_db db s = s\<lparr>f_engine := (f_engine s)\<lparr>g_db := db\<rparr>\<rparr>"

lemma put_simps [simp]:
  "f_engine (put_engine g s) = g" "f_loader (put_engine g s) = f_loader s"
  "f_engine (put_db db s) = (f_engine s)\<lparr>g_db := db\<rparr>" "f_loader (put_db db s) = f_loader s"
  by (simp_all add: put_engine_def put_db_def)

section \<open>Waiting for the bootstrap\<close>

definition CHECK_BOOTSTRAP_RETRY_INTERVAL_SECONDS :: nat where
  "CHECK_BOOTSTRAP_RETRY_INTERVAL_SECONDS = BOOTSTRAP_MAX_RETRY_INTERVAL_SECONDS * 5"

text \<open>\<open>ready i\<close>: what the \<open>i\<close>-th look at the flag sees.  The result has the pauses made.\<close>

partial_function (option) wait_ready :: "(nat \<Rightarrow> bool) \<Rightarrow> nat \<Rightarrow> nat \<Rightarrow> (bool \<times> nat list) option" where
  "wait_ready ready i wait =
     (if ready i then Some (True, [])
      else if wait < CHECK_BOOTSTRAP_RETRY_INTERVAL_SECONDS
      then Option.bind (wait_ready ready (Suc i) (wait * 2)) (\<lambda>(ok, ps). Some (ok, wait # ps))
      else Some (False, [wait]))"

definition not_ready_message :: string where
  "not_ready_message = ''bootstrap timed out in '' @ to_string (int CHECK_BOOTSTRAP_RETRY_INTERVAL_SECONDS) @
     ''s and did not complete. Please check the server''"

definition when_ready ::
  "(nat \<Rightarrow> bool) \<Rightarrow> ('db, 'q) others \<Rightarrow> (nat \<Rightarrow> ('db, 'q) front \<Rightarrow> ('db, 'q) answer) \<Rightarrow>
     ('db, 'q) front \<Rightarrow> ('db, 'q) answer" where
  "when_ready ready others body s =
     (case wait_ready ready 0 BOOTSTRAP_MIN_RETRY_INTERVAL_SECONDS of
        None \<Rightarrow> Inr None
      | Some (ok, ps) \<Rightarrow>
          (let s = elapse others 0 (length ps) s in
           if \<not> ok then refuse not_ready_message (-1) (length ps) s else body (length ps) s))"

section \<open>Getting a file\<close>

text \<open>Is the backup of the file kept on this node?\<close>

definition backed_up_here :: "('db, 'q) libs \<Rightarrow> Metadata \<Rightarrow> bool result" where
  "backed_up_here x md =
     (if w_world_size (x_world x) = 0 then Inl (UB ''remainder by zero'')
      else Inr (c_mod (node_rank md + 1) (w_world_size (x_world x)) = my_rank x))"

definition fetch_remote ::
  "('db, 'q) others \<Rightarrow> string \<Rightarrow> int \<Rightarrow> nat \<Rightarrow> ('db, 'q) front \<Rightarrow> (nat \<times> ('db, 'q) front) outcome" where
  "fetch_remote others f rank n s =
     run_then (awaited (AddKey others \<lparr>kn_key = f, kn_rank = rank\<rparr> n s)) (\<lambda>(n, s).
       awaited (WaitUntilFileReady others f n s))"

definition get_entry ::
  "('db, 'q) libs \<Rightarrow> Metadata \<Rightarrow> nat \<Rightarrow> ('db, 'q) front \<Rightarrow> ('db, 'q) answer" where
  "get_entry x md n s =
     run_then (returned (Storage_Load (my_rank x) md (g_store (f_engine s)))) (\<lambda>found.
     case found of
       None \<Rightarrow> refuse ''in-memory checkpoint does not exist in local or backup'' (state_code (state md)) n s
     | Some e \<Rightarrow> finished (make_resp (new_HttpResponse\<lparr>hs_pid := Some (pid e), hs_memfd := Some (memfd e)\<rparr>)
         ''OK'' ''Metadata was successfully got'' (state_code (state md)), n, s))"

text \<open>After the bootstrap.\<close>

definition get_file ::
  "('db, 'q) libs \<Rightarrow> ('db, 'q) others \<Rightarrow> HttpRequest \<Rightarrow> nat \<Rightarrow> ('db, 'q) front \<Rightarrow> ('db, 'q) answer" where
  "get_file x others req n s =
       run_then (returned (x_client x)) (\<lambda>mc.
       run_then (returned (mc_Load mc (new_Metadata (w_job_name (x_world x)) (hq_filename req)) (g_db (f_engine s))))
         (\<lambda>(rc, md, db).
       let s = put_db db s in
       if \<not> IsSuccess rc
       then refuse ''get metadata failed from database, Please check if the file exists'' (-1) n s
       else if state md = BROKEN \<or> state md = OBSOLESCENT \<or> state md = PENDING
       then refuse ''checkpointstate is BROKEN or OBSOLESCENT or PENDING'' (-1) n s
       else run_then (returned (backed_up_here x md)) (\<lambda>here.
         if here then get_entry x md n s
         else run_then (if node_rank md \<noteq> my_rank x then fetch_remote others (hq_filename req) (node_rank md) n s
                        else finished (n, s)) (\<lambda>(n, s).
              get_entry x md n s))))"

definition getMetadata ::
  "('db, 'q) libs \<Rightarrow> (nat \<Rightarrow> bool) \<Rightarrow> ('db, 'q) others \<Rightarrow> HttpRequest \<Rightarrow> ('db, 'q) front \<Rightarrow> ('db, 'q) answer" where
  "getMetadata x ready others req s = when_ready ready others (get_file x others req) s"

section \<open>Making room for an iteration\<close>

text \<open>The states the work queue has still to take the file out of.\<close>

definition still_moving :: "('db, 'q) libs \<Rightarrow> Metadata \<Rightarrow> bool" where
  "still_moving x md \<longleftrightarrow>
     state md = CACHED \<and> 1 < w_world_size (x_world x) \<or>
     state md = BACKED_UP \<and> GetEnv (x_vars x) ''CKPT_ENGINE_ENABLE_PERSISTENT'' (Some ''on'') = ''on''"

text \<open>The pause is an \<open>int\<close> that is doubled without a bound.\<close>

partial_function (option) wait_previous ::
  "('db, 'q) libs \<Rightarrow> 'db meta_client \<Rightarrow> ('db, 'q) others \<Rightarrow> Metadata \<Rightarrow> int \<Rightarrow> nat \<Rightarrow> ('db, 'q) front \<Rightarrow>
     (bool \<times> Metadata \<times> nat \<times> ('db, 'q) front) result option" where
  "wait_previous x mc others md wait n s =
     (if \<not> still_moving x md then Some (Inr (True, md, n, s))
      else if \<not> int_range (wait * 2) then Some (Inl (UB ''signed overflow''))
      else (case mc_Load mc md (g_db (f_engine (others n s))) of
              Inl e \<Rightarrow> Some (Inl e)
            | Inr (rc, md', db) \<Rightarrow>
                if \<not> IsSuccess rc then Some (Inr (False, md', Suc n, put_db db (others n s)))
                else wait_previous x mc others md' (wait * 2) (Suc n) (put_db db (others n s))))"

partial_function (option) wait_deleted ::
  "('db, 'q) libs \<Rightarrow> ('db, 'q) others \<Rightarrow> Metadata \<Rightarrow> nat \<Rightarrow> ('db, 'q) front \<Rightarrow> (nat \<times> ('db, 'q) front) result option" where
  "wait_deleted x others md n s =
     (case Storage_Load (my_rank x) md (g_store (f_engine s)) of
        Inl e \<Rightarrow> Some (Inl e)
      | Inr None \<Rightarrow> Some (Inr (n, s))
      | Inr (Some e) \<Rightarrow> wait_deleted x others md (Suc n) (others n s))"

fun delete_files ::
  "('db, 'q) libs \<Rightarrow> 'db meta_client \<Rightarrow> ('db, 'q) others \<Rightarrow> Metadata list \<Rightarrow> nat \<Rightarrow> ('db, 'q) front \<Rightarrow>
     (bool \<times> nat \<times> ('db, 'q) front) outcome" where
  "delete_files x mc others [] n s = finished (True, n, s)"
| "delete_files x mc others (md # mds) n s =
     run_then (awaited (wait_previous x mc others md (int BOOTSTRAP_MIN_RETRY_INTERVAL_SECONDS) n s))
       (\<lambda>(ok, md, n, s).
     if \<not> ok then finished (False, n, s)
     else case mc_UpdateState mc (file_name md) OBSOLESCENT (g_db (f_engine s)) of (rc, db) \<Rightarrow>
       let s = put_db db s in
       if \<not> IsSuccess rc then finished (False, n, s)
       else run_then (AddRateLimited (x_now x) (file_name md) (g_op (f_engine s))) (\<lambda>op.
         let s = put_engine ((f_engine s)\<lparr>g_op := op\<rparr>) s in
         run_then (awaited (wait_deleted x others md n s)) (\<lambda>(n, s).
         delete_files x mc others mds n s)))"

text \<open>\<open>HttpServiceImpl::deleteOldestIteration\<close>.\<close>

definition deleteOldestIteration_http ::
  "('db, 'q) libs \<Rightarrow> 'db meta_client \<Rightarrow> ('db, 'q) others \<Rightarrow> string \<Rightarrow> nat \<Rightarrow> ('db, 'q) front \<Rightarrow>
     (bool \<times> nat \<times> ('db, 'q) front) outcome" where
  "deleteOldestIteration_http x mc others oldest n s =
     run_then (returned (mc_BatchLoad mc \<lparr>ft_node_rank = my_rank x, ft_iteration = oldest, ft_state = STATE_ANY\<rparr>
                 (g_db (f_engine s)))) (\<lambda>(rc, vec, db).
     let s = put_db db s in
     if \<not> IsSuccess rc then finished (False, n, s)
     else if vec = [] then finished (False, n, s)
     else run_then (delete_files x mc others vec n s) (\<lambda>(ok, n, s).
       if \<not> ok then finished (False, n, s)
       else finished (True, n, put_engine ((f_engine s)\<lparr>g_iters :=
              deleteOldestIteration (x_busy x) (g_iters (f_engine s))\<rparr>) s)))"

text \<open>The part of \<open>createMetadata\<close> under the mutex: the note for the response, or \<open>None\<close> if no room
  could be made.\<close>

definition exceed_message :: "size_t \<Rightarrow> size_t \<Rightarrow> string" where
  "exceed_message max_iter oldest = '' exceed max iteration: '' @ size_to_string max_iter @
     '', delete only the oldest iteration: '' @ size_to_string oldest @
     '' in-memory, we do not delete persistent checkpoints!''"

definition make_room ::
  "('db, 'q) libs \<Rightarrow> 'db meta_client \<Rightarrow> ('db, 'q) others \<Rightarrow> size_t \<Rightarrow> nat \<Rightarrow> ('db, 'q) front \<Rightarrow>
     (string option \<times> nat \<times> ('db, 'q) front) outcome" where
  "make_room x mc others iter n s =
     (if im_isExist iter (g_iters (f_engine s)) then finished (Some '''', n, s)
      else run_then
        (if im_max (g_iters (f_engine s)) \<le> totalIteration (x_busy x) (g_iters (f_engine s))
         then run_then (returned (oldestIteration (x_busy x) (g_iters (f_engine s)))) (\<lambda>oldest.
              run_then (deleteOldestIteration_http x mc others (size_to_string oldest) n s) (\<lambda>(ok, n, s').
              finished (if ok then Some (exceed_message (im_max (g_iters (f_engine s))) oldest) else None, n, s')))
         else finished (Some '''', n, s))
        (\<lambda>(note, n, s).
          case note of None \<Rightarrow> finished (None, n, s)
          | Some msg \<Rightarrow>
            run_then (returned (pushIteration (x_busy x) iter (g_iters (f_engine s)))) (\<lambda>im.
            finished (Some msg, n, put_engine ((f_engine s)\<lparr>g_iters := im\<rparr>) s))))"

section \<open>Creating and updating a file\<close>

text \<open>The memory for the file, or the message of the refusal.\<close>

definition create_entry ::
  "('db, 'q) libs \<Rightarrow> Metadata \<Rightarrow> ('db, 'q) engine \<Rightarrow> ((string + DataEntry) \<times> ('db, 'q) engine) result" where
  "create_entry x md g =
     and_then (Storage_Load (my_rank x) md (g_store g)) (\<lambda>found.
     case found of
       None \<Rightarrow>
         (case allocate x md new_DataEntry g of (rc, e, g) \<Rightarrow>
            if IsOOM rc then Inr (Inl ''memfdCalloc failed: out of memory'', g)
            else if \<not> IsSuccess rc then Inr (Inl ''memfdCalloc failed: unkonwn error'', g)
            else and_then (save_entry x md e g) (\<lambda>(ok, g).
              if \<not> ok then Inr (Inl ''memfdCalloc failed: Save storage failed'', g) else Inr (Inr e, g)))
     | Some e \<Rightarrow>
         (case memfdFtruncate (x_truncate x) (g_sizes g (memfd e)) md of (rc, k) \<Rightarrow>
            if \<not> IsSuccess rc then Inr (Inl '' memfdFtruncate failed'', g)
            else Inr (Inr e, g\<lparr>g_sizes := (g_sizes g)(memfd e := k)\<rparr>)))"

definition requested :: "('db, 'q) libs \<Rightarrow> HttpRequest \<Rightarrow> Metadata" where
  "requested x req = \<lparr>job_name = w_job_name (x_world x), file_name = hq_filename req, node_rank = my_rank x,
     iteration = hq_iteration req, state = state_of (hq_checkpointstate req), msize = hq_size req\<rparr>"

text \<open>After the bootstrap: make room, then take memory, then write the row.\<close>

definition create_file ::
  "('db, 'q) libs \<Rightarrow> HttpRequest \<Rightarrow> 'db meta_client \<Rightarrow> string \<Rightarrow> nat \<Rightarrow> ('db, 'q) front \<Rightarrow> ('db, 'q) answer" where
  "create_file x req mc msg n s =
       (let st = hq_checkpointstate req; md = requested x req in
        run_then (returned (create_entry x md (f_engine s))) (\<lambda>(made, g).
         let s = put_engine g s in
         case made of Inl message \<Rightarrow> refuse message st n s
         | Inr e \<Rightarrow>
           (case mc_Save mc md (g_db g) of (rc, db) \<Rightarrow>
            let s = put_db db s; res = new_HttpResponse\<lparr>hs_pid := Some (pid e), hs_memfd := Some (memfd e)\<rparr> in
            finished (if \<not> IsSuccess rc then make_resp res ''ERROR'' ''save Metadata failed'' st
                      else make_resp res ''OK'' (''Metadata was successfully created.'' @ msg) st, n, s))))"

definition admit_file ::
  "('db, 'q) libs \<Rightarrow> ('db, 'q) others \<Rightarrow> HttpRequest \<Rightarrow> nat \<Rightarrow> ('db, 'q) front \<Rightarrow> ('db, 'q) answer" where
  "admit_file x others req n s =
       run_then (returned (x_client x)) (\<lambda>mc.
       run_then
         (if hq_iteration req \<noteq> ''unknown''
          then run_then (returned (stoul (hq_iteration req))) (\<lambda>iter. make_room x mc others iter n s)
          else finished (Some '''', n, s))
         (\<lambda>(note, n, s).
       case note of None \<Rightarrow> refuse ''deleteMinIteration failed'' (-1) n s
       | Some msg \<Rightarrow> create_file x req mc msg n s))"

definition createMetadata ::
  "('db, 'q) libs \<Rightarrow> (nat \<Rightarrow> bool) \<Rightarrow> ('db, 'q) others \<Rightarrow> HttpRequest \<Rightarrow> ('db, 'q) front \<Rightarrow> ('db, 'q) answer" where
  "createMetadata x ready others req s = when_ready ready others (admit_file x others req) s"

definition updateMetadata ::
  "('db, 'q) libs \<Rightarrow> HttpRequest \<Rightarrow> ('db, 'q) front \<Rightarrow> (HttpResponse \<times> ('db, 'q) front) outcome" where
  "updateMetadata x req s =
     (let f = hq_filename req; st = hq_checkpointstate req in
      run_then (returned (x_client x)) (\<lambda>mc.
      case mc_UpdateState mc f (state_of st) (g_db (f_engine s)) of (rc, db) \<Rightarrow>
        let s = put_db db s in
        if \<not> IsSuccess rc
        then finished (make_resp new_HttpResponse ''ERROR'' ''update metadata state failed'' (st - 1), s)
        else run_then (AddRateLimited (x_now x) f (g_op (f_engine s))) (\<lambda>op.
          finished (make_resp new_HttpResponse ''OK'' ''Metadata was successfully updated'' st,
                    put_engine ((f_engine s)\<lparr>g_op := op\<rparr>) s))))"

section \<open>Listing\<close>

record CLIDataEntry =
  ce_filename :: string
  ce_address :: size_t
  ce_pid :: int
  ce_memfd :: int

record CLIResponse =
  cr_status :: string
  cr_metadata :: "HttpRequest list"
  cr_dict :: "CLIDataEntry list"
  cr_backup_dict :: "CLIDataEntry list"

definition new_CLIResponse :: CLIResponse where
  "new_CLIResponse = \<lparr>cr_status = '''', cr_metadata = [], cr_dict = [], cr_backup_dict = []\<rparr>"

definition cli_metadata :: "Metadata \<Rightarrow> HttpRequest" where
  "cli_metadata md = \<lparr>hq_filename = file_name md, hq_noderank = node_rank md, hq_iteration = iteration md,
     hq_checkpointstate = state_code (state md), hq_size = msize md\<rparr>"

definition getAllMetadata ::
  "('db, 'q) libs \<Rightarrow> ('db, 'q) front \<Rightarrow> (CLIResponse \<times> ('db, 'q) front) result" where
  "getAllMetadata x s =
     and_then (x_client x) (\<lambda>mc.
     and_then (mc_BatchLoad mc \<lparr>ft_node_rank = -1, ft_iteration = '''', ft_state = STATE_ANY\<rparr> (g_db (f_engine s)))
       (\<lambda>(rc, vec, db).
     if rc = STATUS_UNKNOWN_ERROR then Inr (new_CLIResponse\<lparr>cr_status := ''ERROR''\<rparr>, put_db db s)
     else Inr (new_CLIResponse\<lparr>cr_metadata := map cli_metadata vec, cr_status := ''OK''\<rparr>, put_db db s)))"

text \<open>\<open>std::map\<close> is iterated in the order of its keys.\<close>

definition cli_entries :: "(string \<rightharpoonup> DataEntry) \<Rightarrow> CLIDataEntry list" where
  "cli_entries dict = map (\<lambda>f. case dict f of Some e \<Rightarrow>
       \<lparr>ce_filename = f, ce_address = address e, ce_pid = pid e, ce_memfd = memfd e\<rparr>)
     (sorted_list_of_set (dom dict))"

definition getAllStorage :: "('db, 'q) front \<Rightarrow> CLIResponse" where
  "getAllStorage s = new_CLIResponse\<lparr>cr_dict := cli_entries (own_dict (g_store (f_engine s))),
     cr_backup_dict := cli_entries (backup_dict (g_store (f_engine s))), cr_status := ''OK''\<rparr>"

end
