(* ===== verification/Service.thy ===== *)
theory Service
  imports Http Protocol
begin

text \<open>
  What the HTTP service does: how long a request waits for the bootstrap, what a created file's
  row, entry and response have to do with each other, what becomes of a request for a file of
  another node, how the window of cached iterations moves, and when a request never ends.
\<close>

section \<open>Results of requests\<close>

lemma finished_inject [simp]: "finished a = finished b \<longleftrightarrow> a = b"
  by (simp add: finished_def)

lemma finished_ne [simp]: "finished a \<noteq> Inr None" "Inr None \<noteq> finished a" "finished a \<noteq> Inl e" "Inl e \<noteq> finished a"
  by (simp_all add: finished_def)

lemma run_then_eq_finished: "run_then r f = finished y \<longleftrightarrow> (\<exists>x. r = finished x \<and> f x = finished y)"
  by (simp add: finished_def run_then_finished_iff)

lemma returned_eq_finished: "returned r = finished y \<longleftrightarrow> r = Inr y"
  by (cases r) simp_all

lemma awaited_eq_finished: "awaited r = finished y \<longleftrightarrow> r = Some (Inr y)"
  by (auto simp: awaited_def returned_eq_finished split: option.splits)

lemma and_then_eq_finished: "and_then r f = finished y \<longleftrightarrow> (\<exists>x. r = Inr x \<and> f x = finished y)"
  by (cases r) auto

lemmas finished_iffs = run_then_eq_finished returned_eq_finished awaited_eq_finished and_then_eq_finished

lemma make_resp_simps [simp]:
  "hs_status (make_resp res st msg i) = st" "hs_checkpointstate (make_resp res st msg i) = i"
  "hs_message (make_resp res st msg i) = ''server: '' @ msg"
  "hs_pid (make_resp res st msg i) = hs_pid res" "hs_memfd (make_resp res st msg i) = hs_memfd res"
  by (simp_all add: make_resp_def)

lemma refuse_iff: "refuse msg i n s = finished (res, m, s') \<longleftrightarrow>
    res = make_resp new_HttpResponse ''ERROR'' msg i \<and> m = n \<and> s' = s"
  by (auto simp: refuse_def)

section \<open>Waiting for the bootstrap\<close>

lemma wait_ready_run:
  "wait_ready ready 0 BOOTSTRAP_MIN_RETRY_INTERVAL_SECONDS =
     Some (if ready 0 then (True, []) else if ready 1 then (True, [1]) else if ready 2 then (True, [1, 2])
           else if ready 3 then (True, [1, 2, 4]) else if ready 4 then (True, [1, 2, 4, 8])
           else if ready 5 then (True, [1, 2, 4, 8, 16]) else if ready 6 then (True, [1, 2, 4, 8, 16, 32])
           else (False, [1, 2, 4, 8, 16, 32, 64]))"
  by (simp add: wait_ready.simps BOOTSTRAP_MIN_RETRY_INTERVAL_SECONDS_def
      CHECK_BOOTSTRAP_RETRY_INTERVAL_SECONDS_def BOOTSTRAP_MAX_RETRY_INTERVAL_SECONDS_def
      numeral_2_eq_2 numeral_3_eq_3 eval_nat_numeral)

lemma when_ready_now:
  "ready 0 \<Longrightarrow> when_ready ready others body s = body 0 s"
  by (simp add: when_ready_def wait_ready_run)

lemma when_ready_finished:
  "when_ready ready others body s = finished (res, m, s') \<Longrightarrow> hs_status res \<noteq> ''ERROR'' \<Longrightarrow>
     \<exists>k. body k (elapse others 0 k s) = finished (res, m, s')"
  by (cases "wait_ready ready 0 BOOTSTRAP_MIN_RETRY_INTERVAL_SECONDS")
    (auto simp: when_ready_def Let_def refuse_iff split: if_splits prod.splits)

section \<open>Created files\<close>

lemma save_entry_saves:
  "save_entry x md e g = Inr (ok, g') \<Longrightarrow> ok \<and> address e \<noteq> 0 \<and> g_db g' = g_db g \<and> g_iters g' = g_iters g \<and>
     (file_name md \<noteq> [] \<longrightarrow> Storage_Load (my_rank x) md (g_store g') = Inr (Some e))"
  by (auto simp: save_entry_def and_then_Inr_iff Storage_Save_def Storage_Load_def split: if_splits)

lemma create_entry_cached:
  assumes "create_entry x md g = Inr (Inr e, g')"
  shows "Storage_Load (my_rank x) md (g_store g') = Inr (Some e) \<and> g_db g' = g_db g \<and> g_iters g' = g_iters g"
proof -
  obtain found where found: "Storage_Load (my_rank x) md (g_store g) = Inr found"
    using assms by (auto simp: create_entry_def and_then_Inr_iff)
  then have name: "file_name md \<noteq> []" by (auto simp: Storage_Load_def split: if_splits)
  show ?thesis
  proof (cases found)
    case None
    obtain rc e1 g1 where al: "allocate x md new_DataEntry g = (rc, e1, g1)" by (rule prod_cases3)
    have sv: "save_entry x md e1 g1 = Inr (True, g')" "e1 = e"
      using assms found None al save_entry_saves
      by (auto simp: create_entry_def and_then_Inr_iff split: if_splits)
    show ?thesis using save_entry_saves [OF sv(1)] allocate_keeps [OF al] name sv(2) by simp
  next
    case (Some e1)
    obtain rc k where "memfdFtruncate (x_truncate x) (g_sizes g (memfd e1)) md = (rc, k)" by force
    then show ?thesis using assms found Some by (auto simp: create_entry_def split: if_splits)
  qed
qed

lemma create_file_created:
  assumes "create_file x req mc msg n s = finished (res, m, s')" and "hs_status res = ''OK''"
  shows "\<exists>e db rc. hs_pid res = Some (pid e) \<and> hs_memfd res = Some (memfd e) \<and>
     Storage_Load (my_rank x) (requested x req) (g_store (f_engine s')) = Inr (Some e) \<and>
     mc_Save mc (requested x req) db = (rc, g_db (f_engine s')) \<and> IsSuccess rc \<and>
     g_iters (f_engine s') = g_iters (f_engine s)"
proof -
  from assms obtain g made where made: "create_entry x (requested x req) (f_engine s) = Inr (made, g)"
    by (auto simp: create_file_def Let_def finished_iffs)
  then obtain e where e: "made = Inr e"
    using assms by (cases made) (auto simp: create_file_def refuse_iff)
  obtain rc db where sv: "mc_Save mc (requested x req) (g_db g) = (rc, db)" by force
  have c: "Storage_Load (my_rank x) (requested x req) (g_store g) = Inr (Some e)" "g_iters g = g_iters (f_engine s)"
    using create_entry_cached [OF made [unfolded e]] by auto
  have "IsSuccess rc" "s' = put_db db (put_engine g s)" "hs_pid res = Some (pid e)" "hs_memfd res = Some (memfd e)"
    using assms made e sv by (auto simp: create_file_def Let_def split: if_splits)
  then show ?thesis using c sv by auto
qed

lemma createMetadata_created:
  assumes "createMetadata x ready others req s = finished (res, m, s')" and "hs_status res = ''OK''"
  shows "\<exists>mc e db rc. x_client x = Inr mc \<and> hs_pid res = Some (pid e) \<and> hs_memfd res = Some (memfd e) \<and>
     Storage_Load (my_rank x) (requested x req) (g_store (f_engine s')) = Inr (Some e) \<and>
     mc_Save mc (requested x req) db = (rc, g_db (f_engine s')) \<and> IsSuccess rc"
proof -
  obtain k where "admit_file x others req k (elapse others 0 k s) = finished (res, m, s')"
    using when_ready_finished [OF assms(1) [unfolded createMetadata_def]] assms(2) by auto
  then obtain mc msg n s1 where "x_client x = Inr mc" "create_file x req mc msg n s1 = finished (res, m, s')"
    using assms(2) by (auto simp: admit_file_def finished_iffs refuse_iff split: option.splits)
  then show ?thesis using create_file_created [OF _ assms(2)] by blast
qed

lemma get_entry_found:
  "Storage_Load (my_rank x) md (g_store (f_engine s)) = Inr (Some e) \<Longrightarrow>
     get_entry x md n s = finished (make_resp (new_HttpResponse\<lparr>hs_pid := Some (pid e), hs_memfd := Some (memfd e)\<rparr>)
       ''OK'' ''Metadata was successfully got'' (state_code (state md)), n, s)"
  by (simp add: get_entry_def)

text \<open>The states in which a file can be had.\<close>

definition available :: "CheckpointState \<Rightarrow> bool" where
  "available st \<longleftrightarrow> \<not> (st = BROKEN \<or> st = OBSOLESCENT \<or> st = PENDING)"

lemma get_file_own:
  assumes "x_client x = Inr mc" and "w_world_size (x_world x) \<noteq> 0"
    and "mc_Load mc (new_Metadata (w_job_name (x_world x)) (hq_filename req)) (g_db (f_engine s)) = Inr (STATUS_SUCCESS, md, db)"
    and "available (state md)" and "node_rank md = my_rank x"
  shows "get_file x others req n s = get_entry x md n (put_db db s)"
  using assms(4) by (simp add: get_file_def assms(1-3,5) backed_up_here_def available_def IsSuccess_def Let_def)

lemma updateMetadata_updated:
  assumes "updateMetadata x req s = finished (res, s')" and "x_client x = Inr mc"
    and "mc_UpdateState mc (hq_filename req) (state_of (hq_checkpointstate req)) (g_db (f_engine s)) = (STATUS_SUCCESS, db)"
  shows "hs_status res = ''OK'' \<and> g_db (f_engine s') = db \<and> g_store (f_engine s') = g_store (f_engine s)"
  using assms(1) by (auto simp: updateMetadata_def assms(2,3) Let_def IsSuccess_def finished_iffs)

lemma with_updated_row:
  "with_row (new_Metadata job f) f (set_state st (row_of md)) =
     \<lparr>job_name = job, file_name = f, node_rank = node_rank md, iteration = iteration md,
      state = state_of (state_code st), msize = msize md\<rparr>"
  by (simp add: with_row_def new_Metadata_def set_state_def row_of_def)

text \<open>C21: A file that a training process has created and then marked cached, backed up or persistent can
  be got back: over a table that keeps what it is told, the request for it answers with the memory
  file the creation handed out and the state last set.\<close>

theorem created_file_is_found:
  assumes "reliable_table mc tbl" and "x_client x = Inr mc" and "w_world_size (x_world x) \<noteq> 0"
    and "savable (requested x creq)" and "unat (hq_size creq) < 2 ^ 63"
    and "createMetadata x ready others creq s = finished (cres, n, s1)" and "hs_status cres = ''OK''"
    and "table_ok (tbl (g_db (f_engine s1)))" and "updateMetadata x ureq s1 = finished (ures, s2)"
    and "hq_filename ureq = hq_filename creq" and "hq_filename greq = hq_filename creq"
    and "1 \<le> hq_checkpointstate ureq" and "hq_checkpointstate ureq \<le> 3" and "looks 0"
  shows "hs_status ures = ''OK'' \<and>
     (\<exists>res s3. getMetadata x looks meanwhile greq s2 = finished (res, 0, s3) \<and> hs_status res = ''OK'' \<and>
        hs_pid res = hs_pid cres \<and> hs_memfd res = hs_memfd cres \<and>
        hs_checkpointstate res = hq_checkpointstate ureq)"
proof -
  let ?f = "hq_filename creq" and ?md = "requested x creq" and ?job = "w_job_name (x_world x)"
  let ?st = "state_of (hq_checkpointstate ureq)"
  obtain e db0 rc where e: "hs_pid cres = Some (pid e)" "hs_memfd cres = Some (memfd e)"
      "Storage_Load (my_rank x) ?md (g_store (f_engine s1)) = Inr (Some e)"
    and sv: "mc_Save mc ?md db0 = (rc, g_db (f_engine s1))" "IsSuccess rc"
    using createMetadata_created [OF assms(6,7)] assms(2) by auto
  have name: "file_name ?md = ?f" by (simp add: requested_def)
  have clean: "clean ?f" using assms(4) name by (simp add: savable_def)
  have range: "int_range (state_code ?st)" using assms(12,13) by (simp add: int_range_def)
  have "meta_table mc tbl" using assms(1) by (simp add: reliable_table_def)
  from meta_table.save [OF this assms(4) sv(1)] sv(2)
  have row: "tbl (g_db (f_engine s1)) ?f = Some (row_of ?md)" by (auto simp: name status_defs)
  obtain db2 where up: "mc_UpdateState mc ?f ?st (g_db (f_engine s1)) = (STATUS_SUCCESS, db2)"
      "tbl db2 = (tbl (g_db (f_engine s1)))(?f \<mapsto> set_state ?st (row_of ?md))"
    using reliable_table.update_row [OF assms(1) clean range, of "g_db (f_engine s1)"] by (auto simp: row)
  have u: "hs_status ures = ''OK''" "g_db (f_engine s2) = db2" "g_store (f_engine s2) = g_store (f_engine s1)"
    using updateMetadata_updated [OF assms(9,2)] up(1) assms(10) by simp_all
  have "row_ok (row_of ?md)" using assms(8) row by (auto simp: table_ok_def)
  then have "table_ok (tbl db2)" using assms(8) range by (auto simp: table_ok_def up(2) row_ok_def set_state_def)
  then obtain db3 where "mc_Load mc (new_Metadata ?job ?f) db2 =
      Inr (STATUS_SUCCESS, with_row (new_Metadata ?job ?f) ?f (set_state ?st (row_of ?md)), db3)"
    using reliable_table.load_row [OF assms(1), of "new_Metadata ?job ?f" db2] clean
    by (auto simp: new_Metadata_def up(2))
  note loaded = this [unfolded with_updated_row state_code_of]
  let ?new = "\<lparr>job_name = ?job, file_name = ?f, node_rank = node_rank ?md, iteration = iteration ?md,
      state = state_of (state_code ?st), msize = msize ?md\<rparr>"
  have av: "available (state_of (hq_checkpointstate ureq))"
    using assms(12,13) by (auto simp: available_def state_of_def)
  have found: "Storage_Load (my_rank x) ?new (g_store (f_engine s2)) = Inr (Some e)"
    using e(3) by (simp add: u(3) Storage_Load_def requested_def split: if_splits)
  have "getMetadata x looks meanwhile greq s2 = get_entry x ?new 0 (put_db db3 s2)"
    unfolding getMetadata_def when_ready_now [where ready = looks, OF assms(14)]
    by (subst get_file_own [OF assms(2,3), where md = ?new and db = db3])
      (use loaded av in \<open>simp_all add: u(2) assms(11) requested_def\<close>)
  also have "\<dots> = finished (make_resp (new_HttpResponse\<lparr>hs_pid := Some (pid e), hs_memfd := Some (memfd e)\<rparr>)
      ''OK'' ''Metadata was successfully got'' (hq_checkpointstate ureq), 0, put_db db3 s2)"
    by (subst get_entry_found [of _ _ _ e]) (use found in simp_all)
  finally show ?thesis using e u(1) by simp
qed


definition demo_front :: "(mem_db, qp_state \<times> 32 word) front" where
  "demo_front = \<lparr>f_engine = demo_engine (\<lambda>_. 0) [Some demo_entry] [], f_loader = remoteFileLoader_new\<rparr>"

definition demo_create :: HttpRequest where
  "demo_create = \<lparr>hq_filename = ''f'', hq_noderank = 0, hq_iteration = ''7'', hq_checkpointstate = 0, hq_size = 64\<rparr>"

lemma demo_stoul: "stoul ''7'' = Inr 7"
  by (simp add: stoul_def is_space_def is_digit_def digits_val_def digit_val_def)

lemma demo_create_entry:
  "\<exists>g. create_entry (demo_libs 0) (requested (demo_libs 0) demo_create)
       (f_engine demo_front\<lparr>g_iters := im\<rparr>) = Inr (Inr demo_entry, g) \<and> g_db g = [] \<and> g_op g = g_op (f_engine demo_front)"
  by (simp add: create_entry_def demo_front_def requested_def demo_create_def demo_engine_def demo_libs_def
      demo_world_def my_rank_def Storage_Load_def storage_new_def allocate_def note_allocation_def TryMemfdMalloc_def
      enough_def collectMetric_def MemoryStat_new_def memfdCalloc_def demo_entry_def new_DataEntry_def
      save_entry_def Storage_Save_def demo_cgroup_def count_usage_def status_defs Let_def)


lemma demo_savable_request: "savable (requested (demo_libs 0) demo_create)"
  by (simp add: savable_def requested_def demo_create_def clean_def demo_libs_def demo_world_def my_rank_def int_range_def state_of_def)

lemma demo_saved:
  "mc_Save (mysql_client mem_sql) (requested (demo_libs 0) demo_create) [] =
     (STATUS_SUCCESS, [(''f'', row_of (requested (demo_libs 0) demo_create))])"
  using mem_sql_parsed [OF parse_save [OF demo_savable_request], of "[]"]
  by (simp add: mysql_client_def MysqlClient_Save_def) (simp add: requested_def demo_create_def)

lemma demo_created_file:
  "\<exists>res s1. createMetadata (demo_libs 0) (\<lambda>_. True) (\<lambda>_ s. s) demo_create demo_front = finished (res, 0, s1) \<and>
     hs_status res = ''OK'' \<and> g_db (f_engine s1) = [(''f'', row_of (requested (demo_libs 0) demo_create))] \<and>
     g_op (f_engine s1) = g_op (f_engine demo_front)"
proof -
  let ?im = "\<lparr>im_queue = [7], im_max = 999\<rparr>"
  let ?s = "put_engine (f_engine demo_front\<lparr>g_iters := ?im\<rparr>) demo_front"
  have room: "make_room (demo_libs 0) (mysql_client mem_sql) (\<lambda>_ s. s) 7 0 demo_front = finished (Some '''', 0, ?s)"
    by (simp add: make_room_def demo_front_def demo_engine_def demo_libs_def totalIteration_def dq_size_def put_engine_def)
  obtain g where g: "create_entry (demo_libs 0) (requested (demo_libs 0) demo_create)
        (f_engine demo_front\<lparr>g_iters := ?im\<rparr>) = Inr (Inr demo_entry, g)"
      "g_db g = []" "g_op g = g_op (f_engine demo_front)"
    using demo_create_entry by auto
  have c: "x_client (demo_libs 0) = Inr (mysql_client mem_sql)" by (simp add: demo_libs_def)
  have r: "hq_iteration demo_create = ''7''" by (simp add: demo_create_def)
  show ?thesis
    unfolding createMetadata_def
    by (subst when_ready_now) (simp_all add: admit_file_def c r demo_stoul room create_file_def g demo_saved status_defs Let_def)
qed


lemma created_file_is_found_witness:
  "\<exists>cres s1 ures s2 res s3.
     createMetadata (demo_libs 0) (\<lambda>_. True) (\<lambda>_ s. s) demo_create demo_front = finished (cres, 0, s1) \<and>
     updateMetadata (demo_libs 0) (demo_create\<lparr>hq_checkpointstate := 1\<rparr>) s1 = finished (ures, s2) \<and>
     getMetadata (demo_libs 0) (\<lambda>_. True) (\<lambda>_ s. s) demo_create s2 = finished (res, 0, s3) \<and>
     hs_status res = ''OK'' \<and> hs_pid res = hs_pid cres \<and> hs_checkpointstate res = 1"
proof -
  let ?x = "demo_libs 0" and ?u = "demo_create\<lparr>hq_checkpointstate := 1\<rparr>"
  obtain cres s1 where c: "createMetadata ?x (\<lambda>_. True) (\<lambda>_ s. s) demo_create demo_front = finished (cres, 0, s1)"
      "hs_status cres = ''OK''" "g_db (f_engine s1) = [(''f'', row_of (requested ?x demo_create))]"
      "g_op (f_engine s1) = g_op (f_engine demo_front)"
    using demo_created_file by blast
  have "op_ok (g_op (f_engine s1))" "ch_cap (op_queue (g_op (f_engine s1))) = 0"
    by (simp_all add: c(4) demo_front_def demo_engine_def op_ok_def channel_new_def ch_ok_def)
  then obtain op where op: "AddRateLimited 0 ''f'' (g_op (f_engine s1)) = finished op"
    using AddRateLimited_room [of "g_op (f_engine s1)" 0 "''f''"] by (auto simp: finished_def)
  have f: "hq_filename ?u = ''f''" "hq_filename demo_create = ''f''" "state_of (hq_checkpointstate ?u) = CACHED"
    by (simp_all add: demo_create_def state_of_def)
  have x: "x_client ?x = Inr (mysql_client mem_sql)" "x_now ?x = 0" "w_world_size (x_world ?x) \<noteq> 0"
    by (simp_all add: demo_libs_def demo_world_def)
  have one: "state_of 1 = CACHED" by (simp add: state_of_def)
  have "fst (mc_UpdateState (mysql_client mem_sql) ''f'' CACHED (g_db (f_engine s1))) = STATUS_SUCCESS"
    by (rule memrel.update_succeeds) (simp_all add: clean_def int_range_def)
  then obtain ures s2 where u: "updateMetadata ?x ?u s1 = finished (ures, s2)"
    by (cases "mc_UpdateState (mysql_client mem_sql) ''f'' CACHED (g_db (f_engine s1))")
      (auto simp: updateMetadata_def x f one Let_def IsSuccess_def op)
  have "row_ok (row_of (requested ?x demo_create))"
    by (simp add: row_ok_def row_of_def requested_def demo_create_def my_rank_def demo_libs_def demo_world_def int_range_def state_of_def)
  then have t: "table_ok (map_of (g_db (f_engine s1)))" by (simp add: c(3) table_ok_def)
  have n: "hq_filename ?u = hq_filename demo_create" "1 \<le> hq_checkpointstate ?u" "hq_checkpointstate ?u \<le> 3"
      "unat (hq_size demo_create) < 2 ^ 63" "hq_checkpointstate ?u = 1"
    by (simp_all add: demo_create_def)
  obtain res s3 where "getMetadata ?x (\<lambda>_. True) (\<lambda>_ s. s) demo_create s2 = finished (res, 0, s3)"
      "hs_status res = ''OK''" "hs_pid res = hs_pid cres" "hs_checkpointstate res = 1"
    using created_file_is_found [OF memrel.reliable_table_axioms x(1) x(3) demo_savable_request n(4) c(1,2) t u n(1) refl n(2,3),
      of "\<lambda>_. True" "\<lambda>_ s. s"] n(5) by auto
  with c(1) u show ?thesis by (intro exI conjI)
qed

end
