(* ===== verification/Fetch.thy ===== *)
theory Fetch
  imports Service Loading
begin

text \<open>
  A request for a file of another node, the service and the loading thread together: the request
  puts the name into the loader's channel and polls; in each of its pauses the thread makes a turn.
\<close>

section \<open>The loading thread beside a waiting request\<close>

text \<open>A turn in which the thread ends or hangs leaves the state alone.\<close>

definition loading_thread :: "('db, 'q) libs \<Rightarrow> ('db, 'q) others" where
  "loading_thread x n s = (case reconcile_turn x s of Inr (Some s') \<Rightarrow> s' | _ \<Rightarrow> s)"

definition idle :: "remoteFileLoader \<Rightarrow> bool" where
  "idle l \<longleftrightarrow> ch_ok (fl_requests l) \<and> ch_queue (fl_requests l) = [] \<and> \<not> ch_closed (fl_requests l) \<and> \<not> fl_locked l"

lemma idle_turn:
  assumes "idle (f_loader s)"
  shows "loading_thread x n s = s"
proof -
  have "ch_size (fl_requests (f_loader s)) = 0" using assms by (simp add: idle_def ch_ok_def)
  then have "ch_read (fl_requests (f_loader s)) = Read_waits"
    using assms by (simp add: ch_read_def idle_def read_ready_def ch_empty_def)
  then show ?thesis by (simp add: loading_thread_def reconcile_turn_def finished_def)
qed

lemma idle_elapse: "idle (f_loader s) \<Longrightarrow> elapse (loading_thread x) n k s = s"
  by (induction k arbitrary: n) (simp_all add: idle_turn)

text \<open>A request put into an idle loader's channel, and taken out again.\<close>

definition queued :: "keyAndNode \<Rightarrow> ('db, 'q) front \<Rightarrow> ('db, 'q) front" where
  "queued item s = s\<lparr>f_loader := (f_loader s)\<lparr>fl_requests := push_locked item (fl_requests (f_loader s))\<rparr>\<rparr>"

lemma AddKey_idle:
  "idle (f_loader s) \<Longrightarrow> AddKey others item n s = Some (Inr (n, queued item s))"
  by (subst AddKey.simps) (auto simp: idle_def ch_write_def write_ready_def ch_ok_def queued_def)

lemma turn_queued:
  assumes "idle (f_loader s)"
  shows "reconcile_turn x (queued item s) = reconcile_item x item s"
proof -
  have "ch_size (fl_requests (f_loader s)) = 0" using assms by (simp add: idle_def ch_ok_def)
  then have "ch_read (push_locked item (fl_requests (f_loader s))) = Read_result (Some item) (fl_requests (f_loader s))"
    using assms by (simp add: ch_read_def idle_def read_ready_def ch_empty_def push_locked_def)
  then show ?thesis by (simp add: reconcile_turn_def queued_def)
qed

section \<open>One file\<close>

text \<open>The metadata the thread asks the other node for.\<close>

definition wanted :: "('db, 'q) libs \<Rightarrow> string \<Rightarrow> int \<Rightarrow> InterNodeLoadRequest" where
  "wanted x f rank = \<lparr>ld_metadata = \<lparr>job_name = w_job_name (x_world x), file_name = f, node_rank = rank,
     iteration = '''', state = STATE_ANY, msize = 0\<rparr>, ld_only_metadata = False\<rparr>"

definition after_load :: "string \<Rightarrow> bool \<Rightarrow> ('db, 'q) engine \<Rightarrow> ('db, 'q) front \<Rightarrow> ('db, 'q) front" where
  "after_load f ok g s = \<lparr>f_engine = g, f_loader = (f_loader s)\<lparr>fl_ongoing :=
     (fl_ongoing (f_loader s))(f := if ok then Some True else None)\<rparr>\<rparr>"

lemma reconcile_item_loads:
  assumes "idle (f_loader s)" and "fl_ongoing (f_loader s) f = None"
    and "LoadRemote x (wanted x f rank) new_LoadResponse (f_engine s) = finished ((ok, rsp), k, g)"
  shows "reconcile_item x \<lparr>kn_key = f, kn_rank = rank\<rparr> s =
     finished (after_load f (ok \<and> lr_code rsp = STATUS_SUCCESS) g s)"
  using assms by (simp add: reconcile_item_def idle_def wanted_def after_load_def Let_def fun_upd_idem)

lemma fetch_remote_idle:
  assumes "idle (f_loader s)" and "fl_ongoing (f_loader s) f = None"
    and "LoadRemote x (wanted x f rank) new_LoadResponse (f_engine s) = finished ((ok, rsp), k, g)"
  shows "fetch_remote (loading_thread x) f rank n s =
     (if ok \<and> lr_code rsp = STATUS_SUCCESS then finished (Suc n, after_load f True g s) else Inr None)"
proof -
  let ?q = "queued \<lparr>kn_key = f, kn_rank = rank\<rparr> s" and ?ok = "ok \<and> lr_code rsp = STATUS_SUCCESS"
  let ?s = "after_load f ?ok g s"
  have q: "\<not> fl_locked (f_loader ?q)" "\<not> file_ready f ?q"
    using assms(1,2) by (simp_all add: queued_def file_ready_def idle_def)
  have turn: "loading_thread x n ?q = ?s"
    using turn_queued [OF assms(1), of x] reconcile_item_loads [OF assms] by (simp add: loading_thread_def finished_def)
  have idle: "idle (f_loader (after_load f b g s))" for b using assms(1) by (simp add: after_load_def idle_def)
  have ready: "file_ready f ?s \<longleftrightarrow> ?ok" using assms(1) by (simp add: file_ready_def after_load_def idle_def)
  have "WaitUntilFileReady (loading_thread x) f n ?q =
      (if ?ok then Some (Inr (Suc n, after_load f True g s)) else None)"
  proof (cases ?ok)
    case True
    then show ?thesis
      using WaitUntilFileReady_returns [of 1 "loading_thread x" n ?q f] q turn ready by simp
  next
    case False
    have "\<not> file_ready f (elapse (loading_thread x) n j ?q)" for j
      using q turn ready False idle by (cases j) (simp_all add: idle_elapse)
    then have "WaitUntilFileReady (loading_thread x) f n ?q \<noteq> Some r" for r
      using WaitUntilFileReady_needs_ready [of "loading_thread x" f n ?q r] by blast
    then show ?thesis using False by (cases "WaitUntilFileReady (loading_thread x) f n ?q") auto
  qed
  then show ?thesis by (simp add: fetch_remote_def AddKey_idle [OF assms(1)])
qed

section \<open>What a load leaves in the index\<close>

text \<open>Everything but the verbs objects and the memory stays in a handshake and in a transfer.\<close>

lemma handshake_same:
  "conn_handshake x a n k g = finished (rc, k', g') \<Longrightarrow> g' = g\<lparr>g_verbs := g_verbs g'\<rparr>"
  by (auto simp: conn_handshake_def finished_def)

lemma rdma_read_same:
  "conn_rdma_read x a n k g = finished (ok, k', g') \<Longrightarrow> g' = g\<lparr>g_mem := g_mem g'\<rparr>"
  by (auto simp: conn_rdma_read_def after_transfer_def finished_iffs)

lemma LoadRemote_data_caches:
  assumes "LoadRemote_data x rsp b k g = finished (True, k', g')" and "file_name (lr_metadata rsp) \<noteq> []"
  shows "\<exists>e. Storage_Load (my_rank x) (lr_metadata rsp) (g_store g') = Inr (Some e)"
proof -
  obtain rc e g1 where al: "allocate x (lr_metadata rsp) new_DataEntry g = (rc, e, g1)" by (rule prod_cases3)
  obtain ok1 g2 rc2 k2 g3 ok3 k3 where sv: "save_entry x (lr_metadata rsp) e g1 = Inr (ok1, g2)"
    and h: "conn_handshake x (address e) (msize (lr_metadata rsp)) k g2 = finished (rc2, k2, g3)"
    and r: "conn_rdma_read x (address e) (msize (lr_metadata rsp)) k2 g3 = finished (ok3, k3, g')"
    using assms(1) by (auto simp: LoadRemote_data_def Let_def al finished_iffs split: if_splits)
  have "g_store g' = g_store g2"
    using arg_cong [OF rdma_read_same [OF r], of g_store] arg_cong [OF handshake_same [OF h], of g_store] by simp
  then show ?thesis using save_entry_saves [OF sv] assms(2) by auto
qed

lemma LoadRemote_caches:
  assumes "LoadRemote x req rsp0 g = finished ((True, rsp), k, g')" and "\<not> ld_only_metadata req"
    and "file_name (lr_metadata rsp) \<noteq> []"
  shows "\<exists>e. Storage_Load (my_rank x) (lr_metadata rsp) (g_store g') = Inr (Some e)"
proof -
  obtain a ep b k1 where "with_connection x (setAddr a ep) (False, rsp0) (LoadRemote_exchange x req rsp0 b) g =
      finished ((True, rsp), k1, g')"
    using assms(1) by (auto simp: LoadRemote_def finished_iffs split: option.splits)
  then obtain k2 g1 g2 k3 v h where body: "LoadRemote_exchange x req rsp0 b k2 g1 = finished ((True, rsp), k3, g2)"
    and g': "g' = g2\<lparr>g_verbs := v, g_nics := h\<rparr>"
    by (auto simp: with_connection_def finished_iffs Let_def split_beta split: list.splits if_splits)
  obtain b4 k4 where "LoadRemote_data x rsp b4 k4 g1 = finished (True, k3, g2)"
    using body assms(2) by (auto simp: LoadRemote_exchange_def finished_iffs split: if_splits)
  from LoadRemote_data_caches [OF this assms(3)] show ?thesis by (simp add: g')
qed

lemma getMetadata_remote:
  assumes "x_client x = Inr mc" and "looks 0" and "w_world_size (x_world x) \<noteq> 0"
    and "mc_Load mc (new_Metadata (w_job_name (x_world x)) (hq_filename req)) (g_db (f_engine s)) = Inr (STATUS_SUCCESS, md, db)"
    and "available (state md)" and "node_rank md \<noteq> my_rank x"
    and "c_mod (node_rank md + 1) (w_world_size (x_world x)) \<noteq> my_rank x"
    and "idle (f_loader s)" and "fl_ongoing (f_loader s) (hq_filename req) = None"
    and "LoadRemote x (wanted x (hq_filename req) (node_rank md)) new_LoadResponse ((f_engine s)\<lparr>g_db := db\<rparr>) =
           finished ((ok, rsp), k, g)"
  shows "getMetadata x looks (loading_thread x) req s =
    (if ok \<and> lr_code rsp = STATUS_SUCCESS
     then get_entry x md 1 (after_load (hq_filename req) True g s) else Inr None)"
proof -
  let ?f = "hq_filename req" and ?s = "put_db db s"
  have "getMetadata x looks (loading_thread x) req s =
      run_then (fetch_remote (loading_thread x) ?f (node_rank md) 0 ?s) (\<lambda>(n, s). get_entry x md n s)"
    using assms(5) unfolding getMetadata_def when_ready_now [where ready = looks, OF assms(2)]
    by (simp add: get_file_def assms(1,3,4,6,7) backed_up_here_def available_def IsSuccess_def Let_def)
  moreover have "after_load ?f True g ?s = after_load ?f True g s"
    by (simp add: after_load_def)
  ultimately show ?thesis
    using fetch_remote_idle [of ?s ?f x "node_rank md" ok rsp k g 0] assms(8-10) by simp
qed

text \<open>C22: A request for a file that another node holds, with the loading thread at work beside it: if the
  thread can load the file, the request answers, after one pause, with the memory file the node's
  index now has for it; if it cannot, the request never ends, for the thread drops the name and the
  request goes on waiting for it.\<close>

theorem remote_file_or_no_answer:
  assumes "x_client x = Inr mc" and "looks 0" and "w_world_size (x_world x) \<noteq> 0"
    and "mc_Load mc (new_Metadata (w_job_name (x_world x)) (hq_filename req)) (g_db (f_engine s)) = Inr (STATUS_SUCCESS, md, db)"
    and "available (state md)" and "node_rank md \<noteq> my_rank x"
    and "c_mod (node_rank md + 1) (w_world_size (x_world x)) \<noteq> my_rank x"
    and "idle (f_loader s)" and "fl_ongoing (f_loader s) (hq_filename req) = None"
    and "LoadRemote x (wanted x (hq_filename req) (node_rank md)) new_LoadResponse ((f_engine s)\<lparr>g_db := db\<rparr>) =
           finished ((ok, rsp), k, g)"
    and "ok \<longrightarrow> file_name (lr_metadata rsp) = file_name md \<and> node_rank (lr_metadata rsp) = node_rank md"
    and "file_name md \<noteq> []"
  shows "if ok \<and> lr_code rsp = STATUS_SUCCESS
     then \<exists>res e s'. getMetadata x looks (loading_thread x) req s = finished (res, 1, s') \<and> f_engine s' = g \<and>
       Storage_Load (my_rank x) md (g_store g) = Inr (Some e) \<and> hs_status res = ''OK'' \<and>
       hs_pid res = Some (pid e) \<and> hs_memfd res = Some (memfd e) \<and> hs_checkpointstate res = state_code (state md)
     else getMetadata x looks (loading_thread x) req s = Inr None"
proof (cases "ok \<and> lr_code rsp = STATUS_SUCCESS")
  case False
  then show ?thesis using getMetadata_remote [where looks = looks, OF assms(1-10)] by (simp only: if_False)
next
  case True
  then have names: "file_name (lr_metadata rsp) = file_name md" "node_rank (lr_metadata rsp) = node_rank md"
    using assms(11) by simp_all
  have "\<exists>e. Storage_Load (my_rank x) (lr_metadata rsp) (g_store g) = Inr (Some e)"
    by (rule LoadRemote_caches [OF assms(10) [unfolded conjunct1 [OF True, THEN eqTrueI]]])
      (simp_all add: wanted_def names assms(12))
  then have "\<exists>e. Storage_Load (my_rank x) md (g_store g) = Inr (Some e)"
    using assms(12) by (simp add: Storage_Load_def names cong: if_cong)
  then obtain e where e: "Storage_Load (my_rank x) md (g_store g) = Inr (Some e)" by blast
  let ?s' = "after_load (hq_filename req) True g s"
  have "f_engine ?s' = g" by (simp add: after_load_def)
  then show ?thesis
    using getMetadata_remote [where looks = looks, OF assms(1-10)] True e get_entry_found [of x md ?s' e 1] by simp
qed


text \<open>Node 0 of three asks for a file of node 1, which is backed up on node 2.\<close>

definition demo_md3 :: Metadata where "demo_md3 = demo_md1\<lparr>state := CACHED\<rparr>"

definition demo_three :: "(mem_db, qp_state \<times> 32 word) libs" where
  "demo_three = (demo_libs 0)\<lparr>x_world := (demo_world 0)\<lparr>w_hosts := [''a'', ''b'', ''c''], w_world_size := 3\<rparr>,
     x_client := Inr (demo_table\<lparr>mc_Load := (\<lambda>md db. Inr (STATUS_SUCCESS, demo_md3, db))\<rparr>)\<rparr>"

definition demo_asking :: "(mem_db, qp_state \<times> 32 word) front" where
  "demo_asking = \<lparr>f_engine = demo_loader, f_loader = remoteFileLoader_new\<rparr>"

lemma demo_three_allocates:
  "\<exists>g1 g2. allocate demo_three demo_md1 new_DataEntry
       (demo_loader\<lparr>g_nics := h, g_dials := []\<rparr>) = (STATUS_SUCCESS, demo_new_entry, g1) \<and>
     save_entry demo_three demo_md1 demo_new_entry g1 = Inr (True, g2) \<and>
     g_verbs g2 = \<lparr>fresh_id = 0, held = []\<rparr> \<and> g_mem g2 = (\<lambda>_. 0)"
  by (simp add: demo_loader_def demo_engine_def demo_three_def demo_libs_def demo_world_def my_rank_def demo_md1_def
      storage_new_def allocate_def note_allocation_def TryMemfdMalloc_def enough_def
      collectMetric_def MemoryStat_new_def demo_file_def new_Metadata_def memfdCalloc_def demo_new_entry_def
      new_DataEntry_def save_entry_def Storage_Save_def demo_cgroup_def count_usage_def status_defs Let_def)

lemma demo_three_loads:
  "\<exists>k g. LoadRemote demo_three (wanted demo_three ''f'' 1) new_LoadResponse demo_loader =
     finished ((True, demo_found), k, g)"
proof -
  obtain g1 g2 where g: "allocate demo_three demo_md1 new_DataEntry
       (demo_loader\<lparr>g_nics := snd (ChooseNic (g_nics demo_loader)), g_dials := []\<rparr>) = (STATUS_SUCCESS, demo_new_entry, g1)"
     "save_entry demo_three demo_md1 demo_new_entry g1 = Inr (True, g2)"
     "g_verbs g2 = \<lparr>fresh_id = 0, held = []\<rparr>" "g_mem g2 = (\<lambda>_. 0)"
    using demo_three_allocates by blast
  have ep: "getEndpoint (x_vars demo_three) ''rdma'' = Inr \<lparr>ep_addr = ''0.0.0.0'', ep_port = 18080\<rparr>"
    using demo_endpoint by (simp add: demo_three_def)
  have peer: "getNodeIP (x_resolve demo_three) (x_world demo_three) (node_rank (ld_metadata (wanted demo_three ''f'' 1))) = Inr (Some ''b'')"
    by (simp add: getNodeIP_def host_at_def demo_three_def demo_libs_def demo_world_def wanted_def)
  have small: "length (load_request_bytes (wanted demo_three ''f'' 1)) \<le> 2 ^ 63" "length (load_response_bytes demo_found) \<le> 2 ^ 63"
    using demo_load_ok(4)
    by (simp_all add: wanted_def demo_three_def demo_libs_def demo_world_def load_request_bytes_def metadata_bytes_def
        bool_bytes_def string_bytes_def c_str_def)
  have link: "link_ready id demo_three (address demo_new_entry) 64
      (dialled (setAddr ''b'' \<lparr>ep_addr = ''0.0.0.0'', ep_port = 18080\<rparr>) (demo_load_dial demo_holder_says) (g_nics demo_loader))
      (g_verbs g2) (demo_created 4096) demo_verbs"
    using demo_load_dialled [of 0 4096 _ demo_holder_says "\<lambda>_. 0" "[Some demo_new_entry]" "[demo_load_dial demo_holder_says]"]
    by (simp add: link_ready_def demo_three_def demo_libs_def g(3) demo_loader_def demo_new_entry_def)
  have "\<exists>k' g'. LoadRemote demo_three (wanted demo_three ''f'' 1) new_LoadResponse demo_loader =
       finished ((True, demo_found), Some k', g') \<and> g_mem g' = dev_local demo_read64 \<and> g_store g' = g_store g2 \<and>
     talk k' [] ([] @ load_call (wanted demo_three ''f'' 1) @ con_frame (demo_created 4096) (k_ids (d_conn (demo_load_dial demo_holder_says))) @
       [81] @ note_frame ''R'')"
    by (rule LoadRemote_ok [where d = "demo_load_dial demo_holder_says" and ds = "[]" and md = demo_md1 and n = 64 and
        obs = id and pc = "demo_created 8192" and pl = "demo_ids 8",
        OF _ ep peer _ _ _ _ _ _ g(1,2) link _ _ _ small])
      (use demo_load_ok demo_reads64 g(3,4) in \<open>simp_all add: demo_contract demo_ids_ok demo_loader_def demo_three_def
        demo_libs_def demo_found_def demo_md1_def demo_file_def demo_load_dial_def demo_calls_def connects_def demo_entry_def
        demo_new_entry_def demo_engine_def talk_def demo_conn_def demo_in_def demo_out_def demo_holder_says_def
        demo_ready_def demo_reader_def demo_device_def new_Metadata_def STATUS_SUCCESS_def wanted_def\<close>)
  then show ?thesis by blast
qed

definition demo_get :: HttpRequest where
  "demo_get = demo_create\<lparr>hq_iteration := ''''\<rparr>"

lemma remote_file_or_no_answer_witness:
  "\<exists>res e s'. getMetadata demo_three (\<lambda>_. True) (loading_thread demo_three) demo_get demo_asking = finished (res, 1, s') \<and>
     Storage_Load 0 demo_md3 (g_store (f_engine s')) = Inr (Some e) \<and> hs_status res = ''OK'' \<and> hs_pid res = Some (pid e) \<and>
     hs_checkpointstate res = 1"
proof -
  let ?mc = "demo_table\<lparr>mc_Load := (\<lambda>md db. Inr (STATUS_SUCCESS, demo_md3, db))\<rparr>"
  obtain k g where loads: "LoadRemote demo_three (wanted demo_three ''f'' 1) new_LoadResponse demo_loader =
      finished ((True, demo_found), k, g)" using demo_three_loads by blast
  have md: "node_rank demo_md3 = 1" "file_name demo_md3 = ''f''" "state demo_md3 = CACHED"
    by (simp_all add: demo_md3_def demo_md1_def demo_file_def new_Metadata_def)
  have x: "x_client demo_three = Inr ?mc" "w_world_size (x_world demo_three) = 3" "my_rank demo_three = 0"
    by (simp_all add: demo_three_def demo_libs_def demo_world_def my_rank_def)
  have name: "hq_filename demo_get = ''f''" by (simp add: demo_get_def demo_create_def)
  have "if True \<and> lr_code demo_found = STATUS_SUCCESS
     then \<exists>res e s'. getMetadata demo_three (\<lambda>_. True) (loading_thread demo_three) demo_get demo_asking = finished (res, 1, s') \<and>
       f_engine s' = g \<and> Storage_Load (my_rank demo_three) demo_md3 (g_store g) = Inr (Some e) \<and> hs_status res = ''OK'' \<and>
       hs_pid res = Some (pid e) \<and> hs_memfd res = Some (memfd e) \<and> hs_checkpointstate res = state_code (state demo_md3)
     else getMetadata demo_three (\<lambda>_. True) (loading_thread demo_three) demo_get demo_asking = Inr None"
    by (rule remote_file_or_no_answer [OF x(1), where db = "g_db demo_loader" and k = k and rsp = demo_found])
      (use loads in \<open>simp_all add: x md name demo_asking_def idle_def remoteFileLoader_new_def available_def c_mod_def
        demo_found_def demo_md3_def demo_md1_def demo_file_def new_Metadata_def ch_ok_def channel_new_def\<close>)
  then show ?thesis by (auto simp: demo_found_def x md)
qed

end
