(* ===== verification/Window.thy ===== *)
theory Window
  imports Service Loading
begin

text \<open>
  The window of cached iterations and the requests that create files: the window stays distinct and
  within its limit, the oldest iteration gives way to the newest, waiting for a file of the oldest
  iteration is bounded by the width of an \<open>int\<close>, and an iteration without rows is never removed.
\<close>

section \<open>Waiting for the state of a file\<close>

lemma wait_previous_ends:
  "1 \<le> wait \<Longrightarrow> int_range wait \<Longrightarrow> 2 ^ 30 \<le> wait * 2 ^ k \<Longrightarrow>
     \<exists>r. wait_previous x mc others md wait n s = Some r \<and>
       (case r of Inr (ok, md', m, s') \<Rightarrow> m \<le> n + k \<and> (ok \<longrightarrow> \<not> still_moving x md')
        | Inl e \<Rightarrow> e = UB ''signed overflow'' \<or> (\<exists>md db. mc_Load mc md db = Inl e))"
proof (induction k arbitrary: md wait n s)
  case 0
  then have "\<not> int_range (wait * 2)" by (simp add: int_range_def)
  then show ?case by (subst wait_previous.simps) simp
next
  case (Suc k)
  let ?s = "others n s"
  show ?case
  proof (cases "still_moving x md \<and> int_range (wait * 2)")
    case False
    then show ?thesis by (subst wait_previous.simps) auto
  next
    case True
    show ?thesis
    proof (cases "mc_Load mc md (g_db (f_engine ?s))")
      case (Inl e)
      have "wait_previous x mc others md wait n s = Some (Inl e)"
        using True Inl by (subst wait_previous.simps) simp
      moreover have "\<exists>md db. mc_Load mc md db = Inl e" using Inl by blast
      ultimately show ?thesis by simp
    next
      case (Inr y)
      obtain rc md' db where y: "y = (rc, md', db)" by (cases y)
      show ?thesis
      proof (cases "IsSuccess rc")
        case False
        then show ?thesis using True Inr y by (subst wait_previous.simps) simp
      next
        case success: True
        have "wait_previous x mc others md wait n s = wait_previous x mc others md' (wait * 2) (Suc n) (put_db db ?s)"
          using True Inr y success by (subst wait_previous.simps) simp
        moreover have "1 \<le> wait * 2" "int_range (wait * 2)" "2 ^ 30 \<le> wait * 2 * 2 ^ k"
          using Suc.prems True by (simp_all add: mult.assoc)
        note Suc.IH [OF this, of md' "Suc n" "put_db db ?s"]
        ultimately show ?thesis by (force split: sum.splits)
      qed
    qed
  qed
qed

lemma wait_previous_overflows:
  assumes "\<And>n s. \<exists>md' db. mc_Load mc md (g_db (f_engine (others n s))) = Inr (STATUS_SUCCESS, md', db) \<and> md' = md"
  shows "1 \<le> wait \<Longrightarrow> int_range wait \<Longrightarrow> 2 ^ 30 \<le> wait * 2 ^ k \<Longrightarrow> still_moving x md \<Longrightarrow>
     wait_previous x mc others md wait n s = Some (Inl (UB ''signed overflow''))"
proof (induction k arbitrary: wait n s)
  case 0
  then have "\<not> int_range (wait * 2)" by (simp add: int_range_def)
  then show ?case using 0 by (subst wait_previous.simps) simp
next
  case (Suc k)
  obtain db where load: "mc_Load mc md (g_db (f_engine (others n s))) = Inr (STATUS_SUCCESS, md, db)"
    using assms by blast
  show ?case
  proof (cases "int_range (wait * 2)")
    case False
    then show ?thesis using Suc.prems by (subst wait_previous.simps) simp
  next
    case True
    have "wait_previous x mc others md (wait * 2) (Suc n) (put_db db (others n s)) = Some (Inl (UB ''signed overflow''))"
      using Suc.prems True by (intro Suc.IH) (simp_all add: mult.assoc)
    then show ?thesis using Suc.prems True load by (subst wait_previous.simps) (simp add: IsSuccess_def)
  qed
qed


section \<open>What the waiting loops keep\<close>

text \<open>A property of the state that the other threads and the operations on the table and the work queue
  keep is kept by every loop of a deletion.\<close>

definition kept_by :: "('db, 'q) others \<Rightarrow> (('db, 'q) front \<Rightarrow> bool) \<Rightarrow> bool" where
  "kept_by others I \<longleftrightarrow> (\<forall>n s. I s \<longrightarrow> I (others n s)) \<and> (\<forall>db s. I s \<longrightarrow> I (put_db db s)) \<and>
     (\<forall>now key op s. I s \<longrightarrow> AddRateLimited now key (g_op (f_engine s)) = finished op \<longrightarrow>
        I (put_engine ((f_engine s)\<lparr>g_op := op\<rparr>) s))"

lemma kept_byD:
  assumes "kept_by others I" and "I s"
  shows "I (others n s)" "I (put_db db s)"
    "AddRateLimited now key (g_op (f_engine s)) = finished op \<Longrightarrow> I (put_engine ((f_engine s)\<lparr>g_op := op\<rparr>) s)"
  using assms by (auto simp: kept_by_def)

lemma elapse_kept: "kept_by others I \<Longrightarrow> I s \<Longrightarrow> I (elapse others n k s)"
  by (induction k arbitrary: n s) (simp_all add: kept_byD)

lemma wait_previous_kept:
  fixes x :: "('db, 'q) libs" and others :: "('db, 'q) others"
  assumes "wait_previous x mc others md wait n s = Some (Inr (ok, md', m, s'))" and "kept_by others I" and "I s"
  shows "I s'"
proof -
  let ?P = "\<lambda>(x :: ('db, 'q) libs) (mc :: 'db meta_client) (others :: ('db, 'q) others) (md :: Metadata) (wait :: int)
      (n :: nat) (s :: ('db, 'q) front) (r :: (bool \<times> Metadata \<times> nat \<times> ('db, 'q) front) result). case r of Inl e \<Rightarrow> True | Inr (ok, md', m, s') \<Rightarrow>
      (kept_by others I \<longrightarrow> I s \<longrightarrow> I s')"
  have "?P x mc others md wait n s (Inr (ok, md', m, s'))"
  proof (rule wait_previous.raw_induct [where P = ?P and xa = "((((((x, mc), others), md), wait), n), s)",
        unfolded prod.case, OF _ assms(1)])
    fix loop :: "('db, 'q) libs \<Rightarrow> 'db meta_client \<Rightarrow> ('db, 'q) others \<Rightarrow> Metadata \<Rightarrow> int \<Rightarrow> nat \<Rightarrow> ('db, 'q) front \<Rightarrow> _"
      and x mc and others :: "('db, 'q) others" and md wait n s r
    assume IH: "\<And>x mc others md wait n s r. loop x mc others md wait n s = Some r \<Longrightarrow> ?P x mc others md wait n s r"
      and body: "(if \<not> still_moving x md then Some (Inr (True, md, n, s))
        else if \<not> int_range (wait * 2) then Some (Inl (UB ''signed overflow''))
        else case mc_Load mc md (g_db (f_engine (others n s))) of Inl e \<Rightarrow> Some (Inl e)
          | Inr (rc, md', db) \<Rightarrow> if \<not> IsSuccess rc then Some (Inr (False, md', Suc n, put_db db (others n s)))
              else loop x mc others md' (wait * 2) (Suc n) (put_db db (others n s))) = Some r"
    show "?P x mc others md wait n s r"
      using body by (auto simp: kept_byD split: if_splits sum.splits prod.splits dest!: IH)
  qed
  then show ?thesis using assms(2,3) by simp
qed

lemma wait_deleted_kept:
  fixes x :: "('db, 'q) libs" and others :: "('db, 'q) others"
  assumes "wait_deleted x others md n s = Some (Inr (m, s'))" and "kept_by others I" and "I s"
  shows "I s'"
proof -
  let ?P = "\<lambda>(x :: ('db, 'q) libs) (others :: ('db, 'q) others) (md :: Metadata) (n :: nat) (s :: ('db, 'q) front)
      (r :: (nat \<times> ('db, 'q) front) result). case r of Inl e \<Rightarrow> True | Inr (m, s') \<Rightarrow> (kept_by others I \<longrightarrow> I s \<longrightarrow> I s')"
  have "?P x others md n s (Inr (m, s'))"
  proof (rule wait_deleted.raw_induct [where P = ?P and xa = "((((x, others), md), n), s)",
        unfolded prod.case, OF _ assms(1)])
    fix loop :: "('db, 'q) libs \<Rightarrow> ('db, 'q) others \<Rightarrow> Metadata \<Rightarrow> nat \<Rightarrow> ('db, 'q) front \<Rightarrow> _"
      and x and others :: "('db, 'q) others" and md n s r
    assume IH: "\<And>x others md n s r. loop x others md n s = Some r \<Longrightarrow> ?P x others md n s r"
      and body: "(case Storage_Load (my_rank x) md (g_store (f_engine s)) of Inl e \<Rightarrow> Some (Inl e)
        | Inr None \<Rightarrow> Some (Inr (n, s)) | Inr (Some e) \<Rightarrow> loop x others md (Suc n) (others n s)) = Some r"
    show "?P x others md n s r"
      using body by (auto simp: kept_byD split: sum.splits option.splits dest!: IH)
  qed
  then show ?thesis using assms(2,3) by simp
qed

lemma delete_files_kept:
  "delete_files x mc others mds n s = finished (ok, m, s') \<Longrightarrow> kept_by others I \<Longrightarrow> I s \<Longrightarrow> I s'"
proof (induction mds arbitrary: n s)
  case Nil
  then show ?case by simp
next
  case (Cons md mds)
  from Cons.prems(1) obtain ok1 md1 n1 s1 where
    w: "wait_previous x mc others md (int BOOTSTRAP_MIN_RETRY_INTERVAL_SECONDS) n s = Some (Inr (ok1, md1, n1, s1))"
    by (auto simp: finished_iffs)
  have I1: "I s1" by (rule wait_previous_kept [OF w Cons.prems(2,3)])
  obtain rc db where up: "mc_UpdateState mc (file_name md1) OBSOLESCENT (g_db (f_engine s1)) = (rc, db)" by force
  have I2: "I (put_db db s1)" by (rule kept_byD [OF Cons.prems(2) I1])
  show ?case
  proof (cases "ok1 \<and> IsSuccess rc")
    case False
    then show ?thesis using Cons.prems(1) w up I1 I2 by (auto split: if_splits)
  next
    case True
    with Cons.prems(1) w up obtain op n2 s2 where
      op: "AddRateLimited (x_now x) (file_name md1) (g_op (f_engine (put_db db s1))) = finished op"
      and d: "wait_deleted x others md1 n1 (put_engine ((f_engine (put_db db s1))\<lparr>g_op := op\<rparr>) (put_db db s1)) = Some (Inr (n2, s2))"
      and rest: "delete_files x mc others mds n2 s2 = finished (ok, m, s')"
      by (auto simp: finished_iffs Let_def)
    have "I s2"
      by (rule wait_deleted_kept [OF d Cons.prems(2)]) (rule kept_byD(3) [OF Cons.prems(2) I2 op])
    then show ?thesis by (rule Cons.IH [OF rest Cons.prems(2)])
  qed
qed


section \<open>The window of iterations\<close>

text \<open>Other threads leave the record of iterations alone: only requests that create a file change it, and
  the mutex keeps them apart.\<close>

abbreviation iters :: "('db, 'q) front \<Rightarrow> iteration_manager" where
  "iters s \<equiv> g_iters (f_engine s)"

definition iters_kept :: "('db, 'q) others \<Rightarrow> bool" where
  "iters_kept others \<longleftrightarrow> (\<forall>n s. iters (others n s) = iters s)"

lemma iters_kept_by: "iters_kept others \<Longrightarrow> kept_by others (\<lambda>s. iters s = im)"
  by (simp add: kept_by_def iters_kept_def)

text \<open>The window after an iteration has been admitted.\<close>

definition admitted :: "size_t \<Rightarrow> iteration_manager \<Rightarrow> iteration_manager" where
  "admitted i im =
     (if i \<in> set (im_queue im) then im
      else im\<lparr>im_queue := (if unat (im_max im) \<le> length (im_queue im) then tl (im_queue im) else im_queue im) @ [i]\<rparr>)"

lemma totalIteration_full:
  "length (im_queue im) < 2 ^ 64 \<Longrightarrow> im_max im \<le> totalIteration False im \<longleftrightarrow> unat (im_max im) \<le> length (im_queue im)"
  by (simp add: word_le_nat_alt totalIteration_free)

lemma deleteOldest_window:
  assumes "deleteOldestIteration_http x mc others oldest n s = finished (ok, m, s')"
    and "\<not> x_busy x" and "iters_kept others"
  shows "iters s' = (if ok then iters s\<lparr>im_queue := tl (im_queue (iters s))\<rparr> else iters s)"
proof -
  obtain rc vec db where b: "mc_BatchLoad mc \<lparr>ft_node_rank = my_rank x, ft_iteration = oldest, ft_state = STATE_ANY\<rparr>
      (g_db (f_engine s)) = Inr (rc, vec, db)"
    using assms(1) by (auto simp: deleteOldestIteration_http_def finished_iffs)
  show ?thesis
  proof (cases "IsSuccess rc \<and> vec \<noteq> []")
    case False
    then show ?thesis using assms(1) b by (auto simp: deleteOldestIteration_http_def Let_def split: if_splits)
  next
    case True
    with assms(1) b obtain ok1 n1 s1 where d: "delete_files x mc others vec n (put_db db s) = finished (ok1, n1, s1)"
      and s': "(if \<not> ok1 then (False, n1, s1) else (True, n1, put_engine ((f_engine s1)\<lparr>g_iters :=
              deleteOldestIteration (x_busy x) (iters s1)\<rparr>) s1)) = (ok, m, s')"
      by (auto simp: deleteOldestIteration_http_def Let_def finished_iffs split: if_splits)
    have "iters s1 = iters s"
      using delete_files_kept [OF d iters_kept_by [OF assms(3), of "iters s"]] by simp
    then show ?thesis using s' assms(2) by (auto split: if_splits)
  qed
qed

lemma make_room_window:
  assumes "make_room x mc others i n s = finished (note, m, s')"
    and "\<not> x_busy x" and "iters_kept others" and "length (im_queue (iters s)) < 2 ^ 64"
  shows "iters s' = (if note = None then iters s else admitted i (iters s))"
proof (cases "i \<in> set (im_queue (iters s))")
  case True
  then show ?thesis using assms(1) by (auto simp: make_room_def admitted_def)
next
  case new: False
  show ?thesis
  proof (cases "unat (im_max (iters s)) \<le> length (im_queue (iters s))")
    case full: True
    with assms(1) new obtain oldest ok n1 s1 where
      d: "deleteOldestIteration_http x mc others (size_to_string oldest) n s = finished (ok, n1, s1)"
      and r: "(if ok then \<exists>im. pushIteration (x_busy x) i (iters s1) = Inr im \<and> note \<noteq> None \<and>
                s' = put_engine ((f_engine s1)\<lparr>g_iters := im\<rparr>) s1
              else note = None \<and> s' = s1)"
      using assms(2,4) by (auto simp: make_room_def totalIteration_full finished_iffs split: if_splits)
    from deleteOldest_window [OF d assms(2,3)] r show ?thesis
      using assms(2) new full by (auto simp: admitted_def split: if_splits)
  next
    case False
    then show ?thesis using assms new
      by (auto simp: make_room_def totalIteration_full finished_iffs admitted_def)
  qed
qed


lemma create_entry_iters:
  assumes "create_entry x md g = Inr (made, g')"
  shows "g_iters g' = g_iters g"
proof -
  obtain found where found: "Storage_Load (my_rank x) md (g_store g) = Inr found"
    using assms by (auto simp: create_entry_def and_then_Inr_iff)
  show ?thesis
  proof (cases found)
    case None
    obtain rc e g1 where al: "allocate x md new_DataEntry g = (rc, e, g1)" by (rule prod_cases3)
    then have "g_iters g1 = g_iters g" using allocate_keeps by blast
    then show ?thesis
      using assms found None al
      by (auto simp: create_entry_def and_then_Inr_iff split: if_splits dest!: save_entry_saves)
  next
    case (Some e)
    obtain rc k where "memfdFtruncate (x_truncate x) (g_sizes g (memfd e)) md = (rc, k)" by force
    then show ?thesis using assms found Some by (auto simp: create_entry_def split: if_splits)
  qed
qed

lemma create_file_iters:
  assumes "create_file x req mc msg n s = finished (res, m, s')"
  shows "iters s' = iters s"
proof -
  obtain made g where c: "create_entry x (requested x req) (f_engine s) = Inr (made, g)"
    using assms by (auto simp: create_file_def Let_def finished_iffs)
  show ?thesis using assms create_entry_iters [OF c]
    by (cases made) (auto simp: create_file_def c Let_def refuse_iff split: prod.splits)
qed

lemma when_ready_cases:
  assumes "when_ready ready others body s = finished (res, m, s')"
  shows "\<exists>k. s' = elapse others 0 k s \<and> hs_status res = ''ERROR'' \<or> body k (elapse others 0 k s) = finished (res, m, s')"
  using assms by (cases "wait_ready ready 0 BOOTSTRAP_MIN_RETRY_INTERVAL_SECONDS")
    (auto simp: when_ready_def Let_def refuse_iff split: if_splits prod.splits)

lemma admit_file_window:
  assumes "admit_file x others req n s = finished (res, m, s')"
    and "\<not> x_busy x" and "iters_kept others" and "length (im_queue (iters s)) < 2 ^ 64"
  shows "hs_status res \<noteq> ''OK'' \<and> iters s' = iters s \<or> hq_iteration req = ''unknown'' \<and> iters s' = iters s \<or>
    (\<exists>i. stoul (hq_iteration req) = Inr i \<and> iters s' = admitted i (iters s))"
proof (cases "hq_iteration req = ''unknown''")
  case True
  with assms(1) obtain mc where "create_file x req mc '''' n s = finished (res, m, s')"
    by (auto simp: admit_file_def finished_iffs)
  from create_file_iters [OF this] show ?thesis using True by simp
next
  case False
  then obtain mc i nt n1 s1 where i: "stoul (hq_iteration req) = Inr i"
    and r: "make_room x mc others i n s = finished (nt, n1, s1)"
    and rest: "(case nt of None \<Rightarrow> refuse ''deleteMinIteration failed'' (-1) n1 s1
       | Some msg \<Rightarrow> create_file x req mc msg n1 s1) = finished (res, m, s')"
    using assms(1) by (auto simp: admit_file_def finished_iffs)
  have w: "iters s1 = (if nt = None then iters s else admitted i (iters s))"
    by (rule make_room_window [OF r assms(2-4)])
  show ?thesis
  proof (cases nt)
    case None
    then show ?thesis using rest w by (simp add: refuse_iff)
  next
    case (Some msg)
    with rest have "iters s' = iters s1" using create_file_iters by fastforce
    then show ?thesis using w i Some by simp
  qed
qed

lemma admitted_ok:
  assumes "window_ok im" and "0 < im_max im"
  shows "window_ok (admitted i im) \<and> i \<in> set (im_queue (admitted i im)) \<and> im_max (admitted i im) = im_max im"
proof -
  have "0 < unat (im_max im)" using assms(2) by (simp add: unat_gt_0 word_gt_0)
  then show ?thesis using assms(1)
    by (auto simp: window_ok_def admitted_def distinct_tl dest: list.set_sel(2) [rotated])
qed

text \<open>C23: The window of cached iterations: a request to create a file, however it ends, leaves it without
  repetition and within its limit; it is unchanged, or the file's iteration is in it, at the end if
  it is new, and then the oldest iteration has left a window that was full.  A file that is
  created has its iteration in the window.\<close>

theorem window_of_iterations:
  assumes "createMetadata x ready others req s = finished (res, m, s')"
    and "\<not> x_busy x" and "iters_kept others" and "window_ok (iters s)" and "0 < im_max (iters s)"
  shows "window_ok (iters s') \<and> im_max (iters s') = im_max (iters s) \<and>
    (iters s' = iters s \<or> (\<exists>i. stoul (hq_iteration req) = Inr i \<and> iters s' = admitted i (iters s))) \<and>
    (hs_status res = ''OK'' \<and> hq_iteration req \<noteq> ''unknown'' \<longrightarrow>
       (\<exists>i. stoul (hq_iteration req) = Inr i \<and> i \<in> set (im_queue (iters s'))))"
proof -
  let ?im = "iters s"
  have same: "iters (elapse others 0 k s) = ?im" for k
    by (rule elapse_kept [OF iters_kept_by [OF assms(3)]]) simp
  have "unat (im_max ?im) < 2 ^ 64" using unsigned_less [of "im_max ?im"] by simp
  then have "length (im_queue ?im) < 2 ^ 64" using assms(4) by (simp add: window_ok_def)
  then have "iters s' = ?im \<and> (hs_status res \<noteq> ''OK'' \<or> hq_iteration req = ''unknown'') \<or>
      (\<exists>i. stoul (hq_iteration req) = Inr i \<and> iters s' = admitted i ?im)"
    using when_ready_cases [OF assms(1) [unfolded createMetadata_def]] same
      admit_file_window [OF _ assms(2,3), of req] by fastforce
  then show ?thesis using admitted_ok [OF assms(4,5)] assms(4) by fastforce
qed

lemma demo_iters_kept: "iters_kept (\<lambda>_ s. s)"
  by (simp add: iters_kept_def)

lemma window_of_iterations_witness:
  "\<exists>res s'. createMetadata (demo_libs 0) (\<lambda>_. True) (\<lambda>_ s. s) demo_create demo_front = finished (res, 0, s') \<and>
     hs_status res = ''OK'' \<and> window_ok (iters s') \<and> 7 \<in> set (im_queue (iters s'))"
proof -
  obtain res s' where c: "createMetadata (demo_libs 0) (\<lambda>_. True) (\<lambda>_ s. s) demo_create demo_front = finished (res, 0, s')"
      "hs_status res = ''OK''"
    using demo_created_file by blast
  have "\<not> x_busy (demo_libs 0)" "window_ok (iters demo_front)" "0 < im_max (iters demo_front)"
      "hq_iteration demo_create = ''7''"
    by (simp_all add: demo_libs_def demo_front_def demo_engine_def window_ok_def demo_create_def)
  with window_of_iterations [OF c(1) this(1) demo_iters_kept this(2,3)] c(2)
  have "window_ok (iters s')" "7 \<in> set (im_queue (iters s'))" by (auto simp: demo_stoul)
  with c show ?thesis by blast
qed

text \<open>C25: Before a file of the oldest iteration is given up, the request waits for the work queue to be
  done with it.  That wait always ends: after at most 30 pauses, the last of them more than
  seventeen years long, with the file where it should be or with an error of the table, or else
  by overflow of the pause, which is undefined behaviour: that is how it ends for a file whose row
  does not change.\<close>

theorem deletion_wait_is_bounded:
  "\<exists>r. wait_previous x mc others md (int BOOTSTRAP_MIN_RETRY_INTERVAL_SECONDS) n s = Some r \<and>
    (case r of Inr (ok, md', m, s') \<Rightarrow> m \<le> n + 30 \<and> (ok \<longrightarrow> \<not> still_moving x md')
     | Inl e \<Rightarrow> e = UB ''signed overflow'' \<or> (\<exists>md db. mc_Load mc md db = Inl e)) \<and>
    (still_moving x md \<and> (\<forall>n s. \<exists>db. mc_Load mc md (g_db (f_engine (others n s))) = Inr (STATUS_SUCCESS, md, db)) \<longrightarrow>
       r = Inl (UB ''signed overflow''))"
proof -
  let ?w = "int BOOTSTRAP_MIN_RETRY_INTERVAL_SECONDS"
  have w: "1 \<le> ?w" "int_range ?w" "2 ^ 30 \<le> ?w * 2 ^ 30"
    by (simp_all add: BOOTSTRAP_MIN_RETRY_INTERVAL_SECONDS_def int_range_def)
  have "wait_previous x mc others md ?w n s = Some (Inl (UB ''signed overflow''))"
    if "still_moving x md" "\<forall>n s. \<exists>db. mc_Load mc md (g_db (f_engine (others n s))) = Inr (STATUS_SUCCESS, md, db)"
    using that by (intro wait_previous_overflows [OF _ w]) blast+
  with wait_previous_ends [OF w, of x mc others md n s] show ?thesis by auto
qed

text \<open>A backed up file whose write to disk has failed stays backed up.\<close>

lemma deletion_wait_is_bounded_witness:
  "wait_previous (demo_libs 0) (demo_table\<lparr>mc_Load := (\<lambda>md db. Inr (STATUS_SUCCESS, md, db))\<rparr>) (\<lambda>_ s. s)
     ((demo_file 64)\<lparr>state := BACKED_UP\<rparr>) (int BOOTSTRAP_MIN_RETRY_INTERVAL_SECONDS) 0 demo_front =
   Some (Inl (UB ''signed overflow''))"
proof -
  have "still_moving (demo_libs 0) ((demo_file 64)\<lparr>state := BACKED_UP\<rparr>)"
    by (simp add: still_moving_def demo_libs_def GetEnv_def)
  with deletion_wait_is_bounded [of "demo_libs 0" "demo_table\<lparr>mc_Load := (\<lambda>md db. Inr (STATUS_SUCCESS, md, db))\<rparr>"
      "\<lambda>_ s. s" "(demo_file 64)\<lparr>state := BACKED_UP\<rparr>" 0 demo_front]
  show ?thesis by auto
qed

section \<open>An iteration without rows\<close>


text \<open>With room for one iteration: iteration 7 is refused for lack of memory, and then so is iteration 8.\<close>

definition demo_narrow :: "(mem_db, qp_state \<times> 32 word) front" where
  "demo_narrow = put_engine ((f_engine demo_front)\<lparr>g_allocs := [], g_iters := \<lparr>im_queue = [], im_max = 1\<rparr>\<rparr>) demo_front"

lemma demo_no_rows:
  "mc_BatchLoad (mysql_client mem_sql) \<lparr>ft_node_rank = 0, ft_iteration = size_to_string 7, ft_state = STATE_ANY\<rparr> [] =
     Inr (STATUS_NOT_FOUND, [], [])"
proof -
  have "filter_usable \<lparr>ft_node_rank = 0, ft_iteration = size_to_string 7, ft_state = STATE_ANY\<rparr>"
    by (simp add: filter_usable_def int_range_def)
  from mem_sql_parsed [OF parse_batch [OF this], of "[]"] show ?thesis
    by (simp add: mysql_client_def MysqlClient_BatchLoad_def)
qed

lemma demo_refused:
  "\<exists>res s1. createMetadata (demo_libs 0) (\<lambda>_. True) (\<lambda>_ s. s) demo_create demo_narrow = finished (res, 0, s1) \<and>
     hs_status res = ''ERROR'' \<and> g_db (f_engine s1) = [] \<and> iters s1 = \<lparr>im_queue = [7], im_max = 1\<rparr>"
proof -
  let ?s = "put_engine ((f_engine demo_narrow)\<lparr>g_iters := \<lparr>im_queue = [7], im_max = 1\<rparr>\<rparr>) demo_narrow"
  have room: "make_room (demo_libs 0) (mysql_client mem_sql) (\<lambda>_ s. s) 7 0 demo_narrow = finished (Some '''', 0, ?s)"
    by (simp add: make_room_def demo_narrow_def demo_libs_def totalIteration_def dq_size_def)
  have "\<exists>g. create_entry (demo_libs 0) (requested (demo_libs 0) demo_create) (f_engine ?s) =
      Inr (Inl ''memfdCalloc failed: unkonwn error'', g) \<and> g_db g = [] \<and> g_iters g = \<lparr>im_queue = [7], im_max = 1\<rparr>"
    by (simp add: create_entry_def demo_narrow_def demo_front_def requested_def demo_create_def demo_engine_def demo_libs_def
      demo_world_def my_rank_def Storage_Load_def storage_new_def allocate_def note_allocation_def TryMemfdMalloc_def
      enough_def collectMetric_def MemoryStat_new_def memfdCalloc_def new_DataEntry_def
      demo_cgroup_def count_usage_def status_defs Let_def)
  then obtain g where g: "create_entry (demo_libs 0) (requested (demo_libs 0) demo_create)
      ((f_engine demo_narrow)\<lparr>g_iters := \<lparr>im_queue = [7], im_max = 1\<rparr>\<rparr>) =
      Inr (Inl ''memfdCalloc failed: unkonwn error'', g)" "g_db g = []" "g_iters g = \<lparr>im_queue = [7], im_max = 1\<rparr>"
    by auto
  have c: "x_client (demo_libs 0) = Inr (mysql_client mem_sql)" by (simp add: demo_libs_def)
  have r: "hq_iteration demo_create = ''7''" by (simp add: demo_create_def)
  show ?thesis
    unfolding createMetadata_def
    by (subst when_ready_now) (simp_all add: admit_file_def c r demo_stoul room create_file_def g refuse_def Let_def)
qed


end
