(* ===== verification/Wellformed.thy ===== *)
theory Wellformed
  imports Handlers Window Fetch
begin

text \<open>
  The well-formedness of a node's state, kept by every request, every handler and every operation of
  the HTTP service: the map of busy cards is sorted by name, the work queue counts its elements and
  is open, no cached entry has the address 0, no iteration is recorded twice.  One rule per call,
  collected in \<open>well_rules\<close>, as preservation is proved for a type system.
\<close>

section \<open>The invariant\<close>

definition store_ok :: "storage \<Rightarrow> bool" where
  "store_ok s \<longleftrightarrow> (\<forall>f e. own_dict s f = Some e \<or> backup_dict s f = Some e \<longrightarrow> address e \<noteq> 0)"

definition engine_ok :: "('db, 'q) engine \<Rightarrow> bool" where
  "engine_ok g \<longleftrightarrow> nic_ok (g_nics g) \<and> op_ok (g_op g) \<and> store_ok (g_store g) \<and> distinct (im_queue (g_iters g))"

lemma engine_ok_updates [simp]:
  "engine_ok (g\<lparr>g_db := db\<rparr>) = engine_ok g" "engine_ok (g\<lparr>g_verbs := v\<rparr>) = engine_ok g"
  "engine_ok (g\<lparr>g_mem := m\<rparr>) = engine_ok g" "engine_ok (g\<lparr>g_mon := n\<rparr>) = engine_ok g"
  "engine_ok (g\<lparr>g_allocs := a\<rparr>) = engine_ok g" "engine_ok (g\<lparr>g_sizes := z\<rparr>) = engine_ok g"
  "engine_ok (g\<lparr>g_dials := d\<rparr>) = engine_ok g"
  by (simp_all add: engine_ok_def)

lemma engine_ok_nics: "engine_ok g \<Longrightarrow> nic_ok h \<Longrightarrow> engine_ok (g\<lparr>g_nics := h\<rparr>)"
  by (simp add: engine_ok_def)

lemma engine_ok_op: "engine_ok g \<Longrightarrow> op_ok p \<Longrightarrow> engine_ok (g\<lparr>g_op := p\<rparr>)"
  by (simp add: engine_ok_def)

lemma engine_ok_iters: "engine_ok g \<Longrightarrow> distinct (im_queue im) \<Longrightarrow> engine_ok (g\<lparr>g_iters := im\<rparr>)"
  by (simp add: engine_ok_def)

lemma Storage_Save_ok: "store_ok s \<Longrightarrow> Storage_Save rank md e s = Inr (ok, s') \<Longrightarrow> store_ok s'"
  by (auto simp: Storage_Save_def store_ok_def split: if_splits)

named_theorems well_rules \<open>the calls keep the engine well formed\<close>

lemma well_save [well_rules]:
  "engine_ok g \<Longrightarrow> ensures (returned (save_entry x md e g)) (\<lambda>(ok, g'). engine_ok g')"
  by (rule ensures_returned) (auto simp: save_entry_def and_then_Inr_iff engine_ok_def dest: Storage_Save_ok)

lemma well_allocate: "allocate x md e g = (rc, e', g') \<Longrightarrow> engine_ok g' = engine_ok g"
  by (auto simp: allocate_def note_allocation_def split: prod.splits if_splits)

lemma well_handshake [well_rules]:
  "engine_ok g \<Longrightarrow> ensures (conn_handshake x a n k g) (\<lambda>(rc, k', g'). engine_ok g')"
  by (rule ensuresI) (auto simp: conn_handshake_def)

lemma well_transfer [well_rules]:
  "engine_ok g \<Longrightarrow> ensures (conn_rdma_write x a n k g) (\<lambda>(ok, k', g'). engine_ok g')"
  "engine_ok g \<Longrightarrow> ensures (conn_rdma_read x a n k g) (\<lambda>(ok, k', g'). engine_ok g')"
  by (rule ensuresI, auto simp: conn_rdma_write_def conn_rdma_read_def after_transfer_def run_then_finished_iff finished_def)+

lemma well_queue [well_rules]:
  "op_ok p \<Longrightarrow> ensures (AddRateLimited now key p) op_ok"
  by (rule ensuresI)
    (auto simp: AddRateLimited_def op_ok_def and_then_Inr_iff ch_write_def push_locked_def ch_ok_def write_ready_def
      split: written.splits if_splits)

lemma well_value: "ensures r (\<lambda>_. True)"
  by (rule ensures_value)

lemma well_if: "(c \<Longrightarrow> ensures r P) \<Longrightarrow> (\<not> c \<Longrightarrow> ensures r' P) \<Longrightarrow> ensures (if c then r else r') P"
  by simp

lemma engine_okD: "engine_ok g \<Longrightarrow> op_ok (g_op g)"
  by (simp add: engine_ok_def)

section \<open>The client\<close>

lemma well_connection:
  assumes "engine_ok g" and body: "\<And>k g. engine_ok g \<Longrightarrow> ensures (body k g) (\<lambda>(r, k', g'). engine_ok g')"
  shows "ensures (with_connection x ep failed body g) (\<lambda>(r, k, g'). engine_ok g')"
proof (rule ensuresI, clarify)
  fix r k g'
  assume call: "with_connection x ep failed body g = Inr (Some (r, k, g'))"
  obtain c h where c: "RdmaCommunicator_new ep (-1) (g_nics g) = (c, h)" by force
  then have h: "nic_ok h"
    using nic_ok_ChooseNic [of "g_nics g"] assms(1) by (auto simp: RdmaCommunicator_new_def engine_ok_def split: prod.splits)
  obtain d ds where d: "g_dials g = d # ds"
    using call c by (auto simp: with_connection_def split: list.splits)
  obtain ok c1 where c1: "Connect (d_calls d) c = Inr (ok, c1)"
    using call c by (auto simp: with_connection_def d and_then_Inr_iff)
  let ?k = "(d_conn d)\<lparr>k_comm := c1\<rparr>" and ?g = "g\<lparr>g_nics := h, g_dials := ds\<rparr>"
  have "engine_ok ?g" using assms(1) h by (simp add: engine_ok_nics)
  then have "ensures (if ok then body ?k ?g else finished (failed, ?k, ?g)) (\<lambda>(r, k', g'). engine_ok g')"
    using body by auto
  moreover obtain r2 k2 g2 where g2: "(if ok then body ?k ?g else finished (failed, ?k, ?g)) = Inr (Some (r2, k2, g2))"
      "(case RdmaCommunicator_delete (x_dok x) (k_comm k2) (g_verbs g2) (g_nics g2) of (fds, v, h) \<Rightarrow>
         finished (r2, k2, g2\<lparr>g_verbs := v, g_nics := h\<rparr>)) = Inr (Some (r, k, g'))"
    using call by (auto simp: with_connection_def c d c1 Let_def run_then_finished_iff)
  ultimately have "engine_ok g2" using ensuresD by fastforce
  then show "engine_ok g'"
    using g2(2) nic_ok_ReleaseNic by (auto simp: RdmaCommunicator_delete_def finished_def engine_ok_def split: prod.splits)
qed

lemma well_Backup_data [well_rules]:
  "engine_ok g \<Longrightarrow> ensures (Backup_data x req b k g) (\<lambda>(ok, k', g'). engine_ok g')"
  unfolding Backup_data_def Let_def
  by (rule ensures_rules well_rules well_value well_if | assumption | clarsimp)+

lemma well_Backup_exchange [well_rules]:
  "engine_ok g \<Longrightarrow> ensures (Backup_exchange x req rsp b k g) (\<lambda>(r, k', g'). engine_ok g')"
  unfolding Backup_exchange_def
  by (rule ensures_rules well_rules well_value well_if | assumption | clarsimp)+


lemma well_LoadRemote_data [well_rules]:
  "engine_ok g \<Longrightarrow> ensures (LoadRemote_data x rsp b k g) (\<lambda>(ok, k', g'). engine_ok g')"
  unfolding LoadRemote_data_def Let_def
  by (cases "allocate x (lr_metadata rsp) new_DataEntry g")
    (frule well_allocate, simp only: prod.case,
     (rule ensures_rules well_rules well_value well_if | assumption | clarsimp)+)

lemma well_LoadRemote_exchange [well_rules]:
  "engine_ok g \<Longrightarrow> ensures (LoadRemote_exchange x req rsp b k g) (\<lambda>(r, k', g'). engine_ok g')"
  unfolding LoadRemote_exchange_def
  by (rule ensures_rules well_rules well_value well_if | assumption | clarsimp)+

lemma well_NotifyBackup_exchange [well_rules]:
  "engine_ok g \<Longrightarrow> ensures (NotifyBackup_exchange x rsp b k g) (\<lambda>(r, k', g'). engine_ok g')"
  unfolding NotifyBackup_exchange_def
  by (rule ensures_rules well_rules well_value well_if | assumption | clarsimp)+

text \<open>A request: the connection around an exchange.\<close>

lemma well_peer:
  assumes "engine_ok g" and "\<And>a. ensures (f a) (\<lambda>(r, k, g'). engine_ok g')"
  shows "ensures (case peer of None \<Rightarrow> finished (failed, None, g)
     | Some a \<Rightarrow> run_then (f a) (\<lambda>(r, k, g). finished (r, Some k, g))) (\<lambda>(r, k, g'). engine_ok g')"
  using assms(1) by (cases peer) (auto intro!: ensures_then [OF assms(2)])

lemma well_Backup [well_rules]:
  "engine_ok g \<Longrightarrow> ensures (ClientUtil_Backup x req rsp g) (\<lambda>(r, k, g'). engine_ok g')"
  unfolding ClientUtil_Backup_def
  by (rule ensures_rules well_value well_peer well_connection well_rules | assumption | clarsimp)+

lemma well_LoadRemote [well_rules]:
  "engine_ok g \<Longrightarrow> ensures (LoadRemote x req rsp g) (\<lambda>(r, k, g'). engine_ok g')"
  unfolding LoadRemote_def
  by (rule ensures_rules well_value well_peer well_connection well_rules | assumption | clarsimp)+

lemma well_NotifyBackup [well_rules]:
  "engine_ok g \<Longrightarrow> ensures (NotifyBackup x rsp g) (\<lambda>(r, k, g'). engine_ok g')"
  unfolding NotifyBackup_def
  by (rule ensures_rules well_value well_peer well_connection well_rules | assumption | clarsimp)+

lemma well_load_tasks [well_rules]:
  "engine_ok g \<Longrightarrow> ensures (load_tasks x items g) (\<lambda>(res, g'). engine_ok g')"
proof (induction items arbitrary: g)
  case (Cons item items)
  show ?case
    unfolding load_tasks.simps
    by (rule ensures_then [OF well_LoadRemote [OF Cons.prems]], clarsimp)
      (rule ensures_then [OF Cons.IH], assumption, clarsimp)
qed simp

lemma well_BatchLoadRemote_exchange [well_rules]:
  "engine_ok g \<Longrightarrow> ensures (BatchLoadRemote_exchange x req rsp b k g) (\<lambda>(r, k', g'). engine_ok g')"
  unfolding BatchLoadRemote_exchange_def
  by (rule ensures_rules well_rules well_value well_if | assumption | clarsimp)+

lemma well_BatchLoadRemote [well_rules]:
  "engine_ok g \<Longrightarrow> ensures (BatchLoadRemote x req rsp g) (\<lambda>(r, k, g'). engine_ok g')"
  unfolding BatchLoadRemote_def
  by (rule ensures_rules well_value well_peer well_connection well_rules | assumption | clarsimp)+


section \<open>Reading the disk\<close>

lemma well_note_iteration: "note_iteration x md g = Inr g' \<Longrightarrow> engine_ok g \<Longrightarrow> engine_ok g'"
  by (auto simp: note_iteration_def and_then_Inr_iff pushIteration_def dq_push_def engine_ok_def split: if_splits)

lemma well_load_file: "load_file x md e g = Inr (rc, e', g') \<Longrightarrow> engine_ok g \<Longrightarrow> engine_ok g'"
  by (auto simp: load_file_def note_allocation_def and_then_Inr_iff Let_def split: prod.splits if_splits)

lemma well_load_files: "load_files x mds g = Inr (ok, g') \<Longrightarrow> engine_ok g \<Longrightarrow> engine_ok g'"
proof (induction mds arbitrary: g)
  case (Cons md mds)
  show ?case
  proof (cases "state md = OBSOLESCENT")
    case True
    then show ?thesis using Cons by simp
  next
    case False
    with Cons.prems(1) obtain g1 rc e g2 where n: "note_iteration x md g = Inr g1"
      and f: "load_file x md new_DataEntry g1 = Inr (rc, e, g2)"
      and rest: "(if \<not> IsSuccess rc then Inr (False, g2)
        else and_then (save_entry x md e g2) (\<lambda>(ok, g). if \<not> ok then Inr (False, g) else load_files x mds g)) = Inr (ok, g')"
      by (auto simp: and_then_Inr_iff)
    have g2: "engine_ok g2" using well_load_file [OF f] well_note_iteration [OF n] Cons.prems(2) by simp
    show ?thesis
    proof (cases "IsSuccess rc")
      case True
      with rest obtain ok3 g3 where s: "save_entry x md e g2 = Inr (ok3, g3)"
        and r: "(if \<not> ok3 then Inr (False, g3) else load_files x mds g3) = Inr (ok, g')"
        by (auto simp: and_then_Inr_iff)
      have "engine_ok g3" using ensuresD [OF well_save [OF g2, of x md e]] s by (fastforce simp: finished_def)
      then show ?thesis using r Cons.IH by (auto split: if_splits)
    next
      case False
      then show ?thesis using rest g2 by simp
    qed
  qed
qed simp

lemma well_BatchLoadFromFileSystem [well_rules]:
  "engine_ok g \<Longrightarrow> ensures (returned (BatchLoadFromFileSystem x g)) (\<lambda>(ok, g'). engine_ok g')"
  by (rule ensures_returned)
    (auto simp: BatchLoadFromFileSystem_def and_then_Inr_iff split: if_splits dest: well_load_files)

section \<open>The server\<close>

lemma well_backup_entry [well_rules]:
  assumes "engine_ok g"
  shows "ensures (returned (backup_entry x md g)) (\<lambda>(found, g'). engine_ok g')"
proof (rule ensures_returned, clarify)
  fix found g'
  assume call: "backup_entry x md g = Inr (found, g')"
  then obtain r where r: "Storage_Load (my_rank x) md (g_store g) = Inr r"
    by (auto simp: backup_entry_def and_then_Inr_iff)
  show "engine_ok g'"
  proof (cases r)
    case (Some e)
    then show ?thesis using call r assms by (auto simp: backup_entry_def split: prod.splits if_splits)
  next
    case None
    obtain rc e g1 where al: "allocate x md new_DataEntry g = (rc, e, g1)" by (rule prod_cases3)
    have g1: "engine_ok g1" using well_allocate [OF al] assms by simp
    show ?thesis
    proof (cases "IsSuccess rc")
      case True
      then obtain ok2 where "save_entry x md e g1 = Inr (ok2, g')"
        using call r None al by (auto simp: backup_entry_def and_then_Inr_iff)
      then show ?thesis using ensuresD [OF well_save [OF g1, of x md e]] by (fastforce simp: finished_def)
    next
      case False
      then show ?thesis using call r None al g1 by (simp add: backup_entry_def)
    qed
  qed
qed

lemma well_handleBackup_data [well_rules]:
  "engine_ok g \<Longrightarrow> ensures (handleBackup_data x req b k g) (\<lambda>(ok, k', g'). engine_ok g')"
  unfolding handleBackup_data_def
  by (rule ensures_rules well_rules well_value well_if | assumption | clarsimp split: option.splits)+

lemma well_handleBackup [well_rules]:
  "engine_ok g \<Longrightarrow> ensures (handleBackup x k g) (\<lambda>(k', g'). engine_ok g')"
  unfolding handleBackup_def Let_def
  by (rule ensures_rules well_rules well_value well_if conjI impI | assumption | clarsimp simp: engine_ok_op engine_okD)+

lemma well_handleLoad_data [well_rules]:
  "engine_ok g \<Longrightarrow> ensures (handleLoad_data x rsp b k g) (\<lambda>(k', g'). engine_ok g')"
  unfolding handleLoad_data_def
  by (rule ensures_rules well_rules well_value well_if | assumption | clarsimp)+

lemma well_load_answer [well_rules]:
  "engine_ok g \<Longrightarrow> ensures (returned (load_answer x mc req g)) (\<lambda>(rsp, g'). engine_ok g')"
  by (rule ensures_returned) (auto simp: load_answer_def and_then_Inr_iff Let_def split: if_splits option.splits)

lemma well_handleLoad [well_rules]:
  "engine_ok g \<Longrightarrow> ensures (handleLoad x k g) (\<lambda>(k', g'). engine_ok g')"
  unfolding handleLoad_def
  by (rule ensures_rules well_rules well_value well_if | assumption | clarsimp)+

lemma well_batch_answer [well_rules]:
  "engine_ok g \<Longrightarrow> ensures (returned (batch_answer x mc req g)) (\<lambda>(rsp, g'). engine_ok g')"
  by (rule ensures_returned) (auto simp: batch_answer_def and_then_Inr_iff Let_def split: if_splits)

lemma well_handleBatchLoad [well_rules]:
  "engine_ok g \<Longrightarrow> ensures (handleBatchLoad x k g) (\<lambda>(k', g'). engine_ok g')"
  unfolding handleBatchLoad_def
  by (rule ensures_rules well_rules well_value well_if | assumption | clarsimp)+

lemma well_backupEach [well_rules]:
  "engine_ok g \<Longrightarrow> ensures (backupEach x md g) (\<lambda>(ok, g'). engine_ok g')"
  unfolding backupEach_def
  by (rule ensures_rules well_rules well_value well_if | assumption | clarsimp split: option.splits)+

lemma well_backup_tasks [well_rules]:
  "engine_ok g \<Longrightarrow> ensures (backup_tasks x mds g) (\<lambda>(res, g'). engine_ok g')"
proof (induction mds arbitrary: g)
  case (Cons md mds)
  show ?case
    unfolding backup_tasks.simps
    by (rule ensures_then [OF well_backupEach [OF Cons.prems]], clarsimp)
      (rule ensures_then [OF Cons.IH], assumption, clarsimp)
qed simp

lemma well_handleNotifyBackup [well_rules]:
  "engine_ok g \<Longrightarrow> ensures (handleNotifyBackup x k g) (\<lambda>(k', g'). engine_ok g')"
  unfolding handleNotifyBackup_def Let_def
  by (rule ensures_rules well_rules well_value well_if conjI impI | assumption | clarsimp)+

lemma well_handled:
  "ensures r (\<lambda>(k', g'). engine_ok g') \<Longrightarrow>
     ensures (run_then r (\<lambda>(k, g). finished (True, k, g))) (\<lambda>(go, k', g'). engine_ok g')"
  by (rule ensures_then) auto

lemma well_dispatch [well_rules]:
  "engine_ok g \<Longrightarrow> ensures (dispatch x routine k g) (\<lambda>(go, k', g'). engine_ok g')"
  by (auto simp: dispatch_def Let_def intro!: well_handled well_handleBackup well_handleLoad
      well_handleBatchLoad well_handleNotifyBackup)

lemma well_execute [well_rules]:
  "engine_ok g \<Longrightarrow> ensures (execute x n b k g) (\<lambda>(k', g'). engine_ok g')"
proof (induction n arbitrary: b k g)
  case (Suc n)
  show ?case
    unfolding execute.simps
    by (rule ensures_rules well_dispatch [OF Suc.prems] well_value well_if Suc.IH | assumption
        | clarsimp simp: Suc.prems)+
qed simp

lemma well_serve_connection [well_rules]:
  assumes "engine_ok g"
  shows "ensures (serve_connection x k g) (\<lambda>(k', g'). engine_ok g')"
  unfolding serve_connection_def
  by (rule ensures_then [OF well_value], rule ensures_then [OF well_execute [OF assms]])
    (auto simp: RdmaCommunicator_delete_def engine_ok_nics nic_ok_ReleaseNic engine_ok_def split: prod.splits)

lemma well_serve_accepted [well_rules]:
  "engine_ok g \<Longrightarrow> ensures (serve_accepted x ep cs g) (\<lambda>(ks, g'). engine_ok g')"
proof (induction cs arbitrary: g)
  case Nil
  then show ?case by simp
next
  case (Cons c cs)
  obtain ret errno k where c: "c = (ret, errno, k)" by (cases c)
  show ?case
  proof (cases "Accept ret errno")
    case None
    then show ?thesis by (simp add: c)
  next
    case (Some fd)
    obtain cm h where new: "RdmaCommunicator_new ep (sint fd) (g_nics g) = (cm, h)" by force
    then have "nic_ok h"
      using nic_ok_ChooseNic [of "g_nics g"] Cons.prems by (auto simp: RdmaCommunicator_new_def engine_ok_def split: prod.splits)
    then have g: "engine_ok (g\<lparr>g_nics := h\<rparr>)" using Cons.prems by (simp add: engine_ok_nics)
    show ?thesis
      by (simp add: c Some new) (rule ensures_then [OF well_serve_connection [OF g]], clarsimp,
        rule ensures_then [OF Cons.IH], assumption, clarsimp)
  qed
qed


section \<open>The HTTP service\<close>

text \<open>Other threads that keep the engine well formed; the loading thread is one.\<close>

definition well_behaved :: "('db, 'q) others \<Rightarrow> bool" where
  "well_behaved others \<longleftrightarrow> (\<forall>n s. engine_ok (f_engine s) \<longrightarrow> engine_ok (f_engine (others n s)))"

lemma well_behaved_kept: "well_behaved others \<Longrightarrow> kept_by others (\<lambda>s. engine_ok (f_engine s))"
  using well_queue ensuresD
  by (fastforce simp: kept_by_def well_behaved_def finished_def intro!: engine_ok_op engine_okD)

lemma well_reconcile_item:
  assumes "reconcile_item x item s = finished s'" and "engine_ok (f_engine s)"
  shows "engine_ok (f_engine s')"
proof (cases "fl_ongoing (f_loader s) (kn_key item) = None \<and> \<not> fl_locked (f_loader s)")
  case False
  then show ?thesis using assms by (auto simp: reconcile_item_def Let_def safeInsert_def split: if_splits)
next
  case True
  with assms(1) obtain ok rsp k g where
    l: "LoadRemote x \<lparr>ld_metadata = \<lparr>job_name = w_job_name (x_world x), file_name = kn_key item, node_rank = kn_rank item,
         iteration = '''', state = STATE_ANY, msize = 0\<rparr>, ld_only_metadata = False\<rparr> new_LoadResponse (f_engine s) =
         finished ((ok, rsp), k, g)" and s': "f_engine s' = g"
    by (auto simp: reconcile_item_def Let_def finished_iffs split: if_splits)
  show ?thesis
    using ensuresD [OF well_LoadRemote [OF assms(2)] l [unfolded finished_def]] s' by simp
qed

lemma well_loading_turn: "reconcile_turn x s = finished s' \<Longrightarrow> engine_ok (f_engine s) \<Longrightarrow> engine_ok (f_engine s')"
  using well_reconcile_item by (fastforce simp: reconcile_turn_def split: was_read.splits option.splits)

lemma loading_thread_well_behaved: "well_behaved (loading_thread x)"
  using well_loading_turn
  by (fastforce simp: well_behaved_def loading_thread_def finished_def split: sum.splits option.splits)

lemma AddKey_kept:
  fixes others :: "('db, 'q) others"
  assumes "AddKey others item n s = Some (Inr (m, s'))" and "well_behaved others" and "engine_ok (f_engine s)"
  shows "engine_ok (f_engine s')"
proof -
  let ?P = "\<lambda>(others :: ('db, 'q) others) (item :: keyAndNode) (n :: nat) (s :: ('db, 'q) front)
      (r :: (nat \<times> ('db, 'q) front) result). case r of Inl e \<Rightarrow> True
      | Inr (m, s') \<Rightarrow> (well_behaved others \<longrightarrow> engine_ok (f_engine s) \<longrightarrow> engine_ok (f_engine s'))"
  have "?P others item n s (Inr (m, s'))"
  proof (rule AddKey.raw_induct [where P = ?P, OF _ assms(1)])
    fix loop :: "('db, 'q) others \<Rightarrow> keyAndNode \<Rightarrow> nat \<Rightarrow> ('db, 'q) front \<Rightarrow> _"
      and others :: "('db, 'q) others" and item n s r
    assume IH: "\<And>others item n s r. loop others item n s = Some r \<Longrightarrow> ?P others item n s r"
      and body: "(case ch_write item (fl_requests (f_loader s)) of
          Throws_closed \<Rightarrow> Some (Inl (Fatal ''cannot write on closed channel''))
        | Write_waits \<Rightarrow> loop others item (Suc n) (others n s)
        | Written ch \<Rightarrow> Some (Inr (n, s\<lparr>f_loader := (f_loader s)\<lparr>fl_requests := ch\<rparr>\<rparr>))) = Some r"
    show "?P others item n s r"
      using body by (auto simp: well_behaved_def split: sum.splits written.splits dest!: IH)
  qed
  then show ?thesis using assms(2,3) by simp
qed

lemma WaitUntilFileReady_kept:
  fixes others :: "('db, 'q) others"
  assumes "WaitUntilFileReady others f n s = Some (Inr (m, s'))" and "well_behaved others" and "engine_ok (f_engine s)"
  shows "engine_ok (f_engine s')"
proof -
  let ?P = "\<lambda>(others :: ('db, 'q) others) (f :: string) (n :: nat) (s :: ('db, 'q) front)
      (r :: (nat \<times> ('db, 'q) front) result). case r of Inl e \<Rightarrow> True
      | Inr (m, s') \<Rightarrow> (well_behaved others \<longrightarrow> engine_ok (f_engine s) \<longrightarrow> engine_ok (f_engine s'))"
  have "?P others f n s (Inr (m, s'))"
  proof (rule WaitUntilFileReady.raw_induct [where P = ?P, OF _ assms(1)])
    fix loop :: "('db, 'q) others \<Rightarrow> string \<Rightarrow> nat \<Rightarrow> ('db, 'q) front \<Rightarrow> _"
      and others :: "('db, 'q) others" and f n s r
    assume IH: "\<And>others f n s r. loop others f n s = Some r \<Longrightarrow> ?P others f n s r"
      and body: "(case safeRead f (f_loader s) of None \<Rightarrow> None
        | Some v \<Rightarrow> if v = Some True then Some (Inr (n, s)) else loop others f (Suc n) (others n s)) = Some r"
    show "?P others f n s r"
      using body by (auto simp: well_behaved_def split: sum.splits option.splits if_splits dest!: IH)
  qed
  then show ?thesis using assms(2,3) by simp
qed

lemma get_entry_same: "get_entry x md n s = finished (res, m, s') \<Longrightarrow> s' = s"
  by (auto simp: get_entry_def finished_iffs refuse_iff split: option.splits)

lemma well_get_file:
  assumes "get_file x others req n s = finished (res, m, s')" and "well_behaved others" and "engine_ok (f_engine s)"
  shows "engine_ok (f_engine s')"
proof -
  obtain mc rc md db where l: "x_client x = Inr mc"
      "mc_Load mc (new_Metadata (w_job_name (x_world x)) (hq_filename req)) (g_db (f_engine s)) = Inr (rc, md, db)"
    using assms(1) by (auto simp: get_file_def finished_iffs)
  let ?s = "put_db db s"
  have s: "engine_ok (f_engine ?s)" using assms(3) by simp
  have "s' = ?s \<or> (\<exists>n1 s1. fetch_remote others (hq_filename req) (node_rank md) n ?s = finished (n1, s1) \<and> s' = s1)"
    using assms(1) l by (auto simp: get_file_def Let_def finished_iffs refuse_iff split: if_splits dest: get_entry_same)
  then show ?thesis
    using s AddKey_kept [OF _ assms(2)] WaitUntilFileReady_kept [OF _ assms(2)]
    by (fastforce simp: fetch_remote_def finished_iffs)
qed


lemma well_create_entry:
  assumes "create_entry x md g = Inr (made, g')" and "engine_ok g"
  shows "engine_ok g'"
proof -
  obtain found where found: "Storage_Load (my_rank x) md (g_store g) = Inr found"
    using assms(1) by (auto simp: create_entry_def and_then_Inr_iff)
  show ?thesis
  proof (cases found)
    case (Some e)
    then show ?thesis using assms found by (auto simp: create_entry_def split: prod.splits if_splits)
  next
    case None
    obtain rc e g1 where al: "allocate x md new_DataEntry g = (rc, e, g1)" by (rule prod_cases3)
    have g1: "engine_ok g1" using well_allocate [OF al] assms(2) by simp
    show ?thesis
    proof (cases "IsOOM rc \<or> \<not> IsSuccess rc")
      case True
      then show ?thesis using assms(1) found None al g1 by (auto simp: create_entry_def split: if_splits)
    next
      case False
      then obtain ok where "save_entry x md e g1 = Inr (ok, g')"
        using assms(1) found None al by (auto simp: create_entry_def and_then_Inr_iff split: if_splits)
      then show ?thesis using ensuresD [OF well_save [OF g1, of x md e]] by (fastforce simp: finished_def)
    qed
  qed
qed

lemma well_create_file:
  assumes "create_file x req mc msg n s = finished (res, m, s')" and "engine_ok (f_engine s)"
  shows "engine_ok (f_engine s')"
proof -
  obtain made g where c: "create_entry x (requested x req) (f_engine s) = Inr (made, g)"
    using assms(1) by (auto simp: create_file_def Let_def finished_iffs)
  show ?thesis using assms(1) well_create_entry [OF c assms(2)]
    by (cases made) (auto simp: create_file_def c Let_def refuse_iff split: prod.splits)
qed

lemma well_deletion:
  assumes "deleteOldestIteration_http x mc others oldest n s = finished (ok, m, s')"
    and "well_behaved others" and "engine_ok (f_engine s)"
  shows "engine_ok (f_engine s')"
proof -
  obtain rc vec db where b: "mc_BatchLoad mc \<lparr>ft_node_rank = my_rank x, ft_iteration = oldest, ft_state = STATE_ANY\<rparr>
      (g_db (f_engine s)) = Inr (rc, vec, db)"
    using assms(1) by (auto simp: deleteOldestIteration_http_def finished_iffs)
  show ?thesis
  proof (cases "IsSuccess rc \<and> vec \<noteq> []")
    case False
    then show ?thesis using assms(1,3) b by (auto simp: deleteOldestIteration_http_def Let_def split: if_splits)
  next
    case True
    with assms(1) b obtain ok1 n1 s1 where d: "delete_files x mc others vec n (put_db db s) = finished (ok1, n1, s1)"
      and s': "(if \<not> ok1 then (False, n1, s1) else (True, n1, put_engine ((f_engine s1)\<lparr>g_iters :=
              deleteOldestIteration (x_busy x) (iters s1)\<rparr>) s1)) = (ok, m, s')"
      by (auto simp: deleteOldestIteration_http_def Let_def finished_iffs split: if_splits)
    have s1: "engine_ok (f_engine s1)"
      using delete_files_kept [OF d well_behaved_kept [OF assms(2)]] assms(3) by simp
    then have "distinct (im_queue (deleteOldestIteration (x_busy x) (iters s1)))"
      by (auto simp: engine_ok_def deleteOldestIteration_def dq_try_pop_def distinct_tl)
    then show ?thesis using s1 s' by (auto simp: engine_ok_iters split: if_splits)
  qed
qed

lemma well_make_room:
  assumes "make_room x mc others i n s = finished (res, m, s')" and "well_behaved others" and "iters_kept others"
    and "\<not> x_busy x" and "engine_ok (f_engine s)" and "length (im_queue (iters s)) < 2 ^ 64"
  shows "engine_ok (f_engine s')"
proof -
  have d: "distinct (im_queue (iters s))" using assms(5) by (simp add: engine_ok_def)
  have "set (tl (im_queue (iters s))) \<subseteq> set (im_queue (iters s))" by (cases "im_queue (iters s)") auto
  then have "distinct (im_queue (iters s'))"
    using make_room_window [OF assms(1,4,3,6)] d by (auto simp: admitted_def distinct_tl)
  moreover have "\<exists>s1 im. engine_ok (f_engine s1) \<and> (s' = s1 \<or> s' = put_engine ((f_engine s1)\<lparr>g_iters := im\<rparr>) s1)"
    using assms(1,5) well_deletion [OF _ assms(2)]
    by (fastforce simp: make_room_def finished_iffs split: if_splits option.splits)
  ultimately show ?thesis by (auto simp: engine_ok_def)
qed

lemma well_admit_file:
  assumes "admit_file x others req n s = finished (res, m, s')" and "well_behaved others" and "iters_kept others"
    and "\<not> x_busy x" and "engine_ok (f_engine s)" and "length (im_queue (iters s)) < 2 ^ 64"
  shows "engine_ok (f_engine s')"
proof -
  obtain mc nt n1 s1 where r: "(if hq_iteration req \<noteq> ''unknown''
      then run_then (returned (stoul (hq_iteration req))) (\<lambda>iter. make_room x mc others iter n s)
      else finished (Some '''', n, s)) = finished (nt, n1, s1)"
    and rest: "(case nt of None \<Rightarrow> refuse ''deleteMinIteration failed'' (-1) n1 s1
       | Some msg \<Rightarrow> create_file x req mc msg n1 s1) = finished (res, m, s')"
    using assms(1) by (auto simp: admit_file_def run_then_eq_finished)
  have s1: "engine_ok (f_engine s1)"
    using r well_make_room [OF _ assms(2-6)] assms(5) by (auto simp: finished_iffs split: if_splits)
  show ?thesis
    using rest s1 well_create_file [OF _ s1] by (auto simp: refuse_iff split: option.splits)
qed

lemma well_updateMetadata:
  assumes "engine_ok (f_engine s)"
  shows "ensures (updateMetadata x req s) (\<lambda>(res, s'). engine_ok (f_engine s'))"
proof -
  have "op_ok (g_op (f_engine s))" using assms by (simp add: engine_okD)
  note q = well_queue [OF this]
  show ?thesis
    unfolding updateMetadata_def Let_def
    by (rule ensures_then [OF well_value])
      (auto simp: assms engine_ok_op split: prod.splits intro!: ensures_then [OF q])
qed

section \<open>The property\<close>



end
