(* ===== verification/Recovery.thy ===== *)
theory Recovery
  imports Answers Service
begin

text \<open>
  What a node that has lost its memory does at its start (\<open>Coordinator::retriveCheckpoint\<close>,
  \<open>retriveCheckpointFromFileSystem\<close> and \<open>triggerCheckpoint\<close> of \<open>src/coordinator/coordinator.cpp\<close>):
  what it gets from the next node, and what it gets back from its disk.
\<close>

section \<open>The steps of the bootstrap\<close>

definition retriveCheckpoint :: "('db, 'q) libs \<Rightarrow> ('db, 'q) engine \<Rightarrow> (bool \<times> ('db, 'q) engine) outcome" where
  "retriveCheckpoint x g =
     (let req = \<lparr>bl_filter = \<lparr>ft_node_rank = my_rank x, ft_iteration = '''', ft_state = STATE_ANY\<rparr>,
                 bl_only_metadata = False\<rparr> in
      run_then (BatchLoadRemote x req new_BatchLoadResponse g) (\<lambda>((ok, rsp), k, g).
      if \<not> ok then finished (False, g) else finished (True, g)))"

definition retriveCheckpointFromFileSystem ::
  "('db, 'q) libs \<Rightarrow> ('db, 'q) engine \<Rightarrow> (bool \<times> ('db, 'q) engine) outcome" where
  "retriveCheckpointFromFileSystem x g =
     run_then (returned (BatchLoadFromFileSystem x g)) (\<lambda>(ok, g).
     if \<not> ok then finished (False, g) else finished (True, g))"

definition triggerCheckpoint :: "('db, 'q) libs \<Rightarrow> ('db, 'q) engine \<Rightarrow> (bool \<times> ('db, 'q) engine) outcome" where
  "triggerCheckpoint x g =
     run_then (NotifyBackup x STATUS_SUCCESS g) (\<lambda>((ok, rsp), k, g).
     if \<not> ok then finished (False, g) else finished (True, g))"

section \<open>A load that is refused\<close>

lemma LoadRemote_refused:
  assumes al: "\<forall>n. x_al x n" and "getEndpoint (x_vars x) ''rdma'' = Inr ep"
    and "getNodeIP (x_resolve x) (x_world x) (node_rank (ld_metadata req)) = Inr (Some peer)"
    and "g_dials g = d # ds" and "connects d" and "talk (d_conn d) (load_reply rsp) []"
    and "length (load_request_bytes req) \<le> 2 ^ 63" and "length (load_response_bytes rsp) \<le> 2 ^ 63"
    and "load_response_ok rsp" and "lr_code rsp = STATUS_UNKNOWN_ERROR"
  shows "\<exists>k' v h. LoadRemote x req rsp0 g =
      finished ((False, rsp), Some k', g\<lparr>g_nics := h, g_dials := ds, g_verbs := v\<rparr>) \<and> talk k' [] (load_call req)"
proof -
  obtain b where b: "returned (Buffer_new (x_al x)) = finished b" "buf_ok b" "content b = []"
    using Buffer_new_finished [OF al] by blast
  let ?k = "dialled (setAddr peer ep) d (g_nics g)"
  let ?g = "g\<lparr>g_nics := snd (ChooseNic (g_nics g)), g_dials := ds\<rparr>"
  have "talk ?k (load_reply rsp @ []) []" using assms(6) by (simp add: talk_def dialled_def)
  then obtain k' where k': "LoadRemote_exchange x req rsp0 b ?k ?g = finished ((False, rsp), k', ?g)"
      "talk k' [] (load_call req)"
    using LoadRemote_exchange_asks [OF al _ b(2,3) assms(7-9), of ?k "[]" "[]" rsp0 ?g]
    by (auto simp: assms(10) status_defs)
  obtain v h where "with_connection x (setAddr peer ep) (False, rsp0) (LoadRemote_exchange x req rsp0 b) g =
      finished ((False, rsp), k', ?g\<lparr>g_verbs := v, g_nics := h\<rparr>)"
    using with_connection_ok [OF assms(4,5), of "LoadRemote_exchange x req rsp0 b", OF k'(1), of x "(False, rsp0)"]
    by blast
  then show ?thesis
    using b(1) assms(2,3) k'(2)
    by (intro exI [of _ k'] exI [of _ v] exI [of _ h]) (simp add: LoadRemote_def)
qed

lemma serve_load_refused:
  assumes al: "\<forall>n. x_al x n" and "metadata_ok (ld_metadata req)" and "length (load_request_bytes req) \<le> 2 ^ 63"
    and "length (load_response_bytes rsp) \<le> 2 ^ 63" and "x_client x = Inr mc"
    and "load_answer x mc req g = Inr (rsp, g1)" and "lr_code rsp = STATUS_UNKNOWN_ERROR"
    and "talk k (load_call req) []"
  shows "\<exists>k' v h. serve_connection x k g = finished (k', g1\<lparr>g_verbs := v, g_nics := h\<rparr>) \<and> talk k' [] (load_reply rsp)"
proof -
  let ?r = "message_frame (load_request_bytes req)"
  have "talk k (message_frame (size_bytes (routine_code INTER_NODE_LOAD)) @ ?r) []"
    using assms(8) by (simp add: load_call_def)
  moreover have "\<exists>k''. dispatch x (routine_code INTER_NODE_LOAD) k' g = finished (True, k'', g1) \<and>
      talk k'' [] (load_reply rsp)" if "talk k' ?r []" for k'
  proof -
    have "talk k' (?r @ []) []" using that by simp
    then obtain k'' where "handleLoad x k' g = finished (k'', g1)" "talk k'' [] (load_reply rsp)"
      using handleLoad_answers [OF al assms(2-6), of k' "[]" "[]"] assms(7) by (auto simp: status_defs)
    then show ?thesis unfolding dispatch_load by (intro exI [of _ k'']) simp
  qed
  ultimately show ?thesis using serve_one_request [OF al] by blast
qed

text \<open>What the server answers for a file that is not in its index.\<close>

lemma load_answer_uncached:
  assumes "mc_Load mc (ld_metadata req) (g_db g) = Inr (STATUS_SUCCESS, md, db)" and "\<not> ld_only_metadata req"
    and "Storage_Load (my_rank x) md (g_store g) = Inr None"
  shows "load_answer x mc req g =
     Inr (new_LoadResponse\<lparr>lr_metadata := md, lr_code := STATUS_UNKNOWN_ERROR\<rparr>, g\<lparr>g_db := db\<rparr>)"
  using assms by (simp add: load_answer_def status_defs Let_def)

section \<open>The next node's answer\<close>

lemma dialled_talk: "talk (dialled ep d h) = talk (d_conn d)"
  by (intro ext) (simp add: talk_def dialled_def)

definition load_of :: "InterNodeLoadResponse \<Rightarrow> InterNodeLoadRequest" where
  "load_of item = \<lparr>ld_metadata = lr_metadata item, ld_only_metadata = False\<rparr>"

definition not_cached :: "InterNodeLoadResponse \<Rightarrow> InterNodeLoadResponse" where
  "not_cached item = new_LoadResponse\<lparr>lr_metadata := lr_metadata item, lr_code := STATUS_UNKNOWN_ERROR\<rparr>"

text \<open>A file of the list, and what the connection made for it says.\<close>

definition refused :: "InterNodeLoadResponse \<Rightarrow> 'q dial \<Rightarrow> bool" where
  "refused item d \<longleftrightarrow> connects d \<and> talk (d_conn d) (load_reply (not_cached item)) [] \<and>
     length (load_request_bytes (load_of item)) \<le> 2 ^ 63 \<and> length (load_response_bytes (not_cached item)) \<le> 2 ^ 63 \<and>
     metadata_ok (lr_metadata item)"

lemma not_cached_ok: "metadata_ok (lr_metadata item) \<Longrightarrow> load_response_ok (not_cached item)"
  by (simp add: load_response_ok_def not_cached_def new_LoadResponse_def entry_ok_def new_DataEntry_def
      int_range_def status_defs)

lemma load_tasks_refused:
  fixes x :: "('db, 'q) libs"
  assumes al: "\<forall>n. x_al x n" and "getEndpoint (x_vars x) ''rdma'' = Inr ep"
    and "getNodeIP (x_resolve x) (x_world x) (my_rank x) = Inr (Some me)"
  shows "list_all2 refused items ds \<Longrightarrow> list_all (\<lambda>item. node_rank (lr_metadata item) = my_rank x) items \<Longrightarrow>
    g_dials g = ds @ rest \<Longrightarrow>
    \<exists>g'. load_tasks x items g = finished (items = [], g') \<and> g_store g' = g_store g \<and> g_dials g' = rest"
proof (induction items ds arbitrary: g rule: list_all2_induct)
  case Nil
  then show ?case by simp
next
  case (Cons item items d ds)
  then have ip: "getNodeIP (x_resolve x) (x_world x) (node_rank (ld_metadata (load_of item))) = Inr (Some me)"
    using assms(3) by (simp add: load_of_def)
  have dials: "g_dials g = d # (ds @ rest)" using Cons.prems(2) by simp
  obtain k' v h where k': "LoadRemote x (load_of item) new_LoadResponse g =
      finished ((False, not_cached item), Some k', g\<lparr>g_nics := h, g_dials := ds @ rest, g_verbs := v\<rparr>)"
    using LoadRemote_refused [OF al assms(2) ip dials, of "not_cached item" new_LoadResponse] Cons.hyps(1)
    by (auto simp: refused_def not_cached_ok) (auto simp: not_cached_def)
  obtain g' where "load_tasks x items (g\<lparr>g_nics := h, g_dials := ds @ rest, g_verbs := v\<rparr>) = finished (items = [], g')"
      "g_store g' = g_store g" "g_dials g' = rest"
    using Cons.IH [of "g\<lparr>g_nics := h, g_dials := ds @ rest, g_verbs := v\<rparr>"] Cons.prems(1) by auto
  then show ?case using k' by (simp add: load_of_def)
qed

text \<open>The client of a batch load, whatever the response.\<close>

definition batch_reply :: "InterNodeBatchLoadResponse \<Rightarrow> byte list" where
  "batch_reply rsp = message_frame (batch_response_bytes rsp)"

lemma BatchLoadRemote_asks:
  assumes al: "\<forall>n. x_al x n" and "getEndpoint (x_vars x) ''rdma'' = Inr ep"
    and "getNextNode (x_resolve x) (x_world x) = Inr (Some peer)" and "g_dials g = d # ds" and "connects d"
    and "talk (d_conn d) (batch_reply rsp) []" and "length (batch_request_bytes req) \<le> 2 ^ 63"
    and "length (batch_response_bytes rsp) \<le> 2 ^ 63" and "batch_response_ok rsp"
    and "g0 = g\<lparr>g_nics := snd (ChooseNic (g_nics g)), g_dials := ds\<rparr>"
    and "(if br_code rsp = STATUS_UNKNOWN_ERROR then finished (False, g0)
          else if bl_only_metadata req then finished (True, g0)
          else load_tasks x (br_responses rsp) g0) = finished (res, g1)"
  shows "\<exists>k' v h. BatchLoadRemote x req new_BatchLoadResponse g =
      finished ((res, rsp), Some k', g1\<lparr>g_verbs := v, g_nics := h\<rparr>) \<and> talk k' [] (batch_call req)"
proof -
  obtain b where b: "returned (Buffer_new (x_al x)) = finished b" "buf_ok b" "content b = []"
    using Buffer_new_finished [OF al] by blast
  let ?k = "dialled (setAddr peer ep) d (g_nics g)" and ?rt = "size_bytes (routine_code INTER_NODE_BATCH_LOAD)"
  let ?g = "g\<lparr>g_nics := snd (ChooseNic (g_nics g)), g_dials := ds\<rparr>"
  have k: "talk ?k (batch_reply rsp) []" using assms(6) by (simp add: dialled_talk)
  obtain b1 k1 where k1: "send_message (Add (x_al x) ?rt) b ?k = finished (True, b1, k1)" "buf_ok b1"
      "talk k1 (batch_reply rsp) (message_frame ?rt)"
    using send_message_ok [OF emits_Add [OF al, of ?rt] _ _ b(2,3) k] by (auto simp: size_bytes_def simp flip: length_0_conv)
  have "buf_ok (Reset b1)" "content (Reset b1) = []" using Reset_ok [OF k1(2)] by simp_all
  from send_message_ok [OF emits_BatchLoadRequest [OF al, of req] batch_bytes_ne(1) assms(7) this k1(3)]
  obtain b2 k2 where k2: "send_message (BatchLoadRequest_Marshal (x_al x) req) (Reset b1) k1 = finished (True, b2, k2)"
      "buf_ok b2" "talk k2 (batch_reply rsp) (batch_call req)"
    by (auto simp: batch_call_def)
  have "talk k2 (message_frame (batch_response_bytes rsp) @ []) (batch_call req)"
    using k2(3) by (simp add: batch_reply_def)
  then obtain b3 k3 where k3: "receive_message (x_al x) b2 k2 = finished (True, b3, k3)" "buf_ok b3"
      "unread b3 = batch_response_bytes rsp" "talk k3 [] (batch_call req)"
    using receive_message_ok [OF al k2(2) batch_bytes_ne(2) assms(8)] by blast
  obtain b4 where "returned (BatchLoadResponse_Unmarshal new_BatchLoadResponse b3) = finished (rsp, b4)"
    using parse_ok [OF parses_BatchLoadResponse [OF assms(9)] k3(2,3)] by blast
  then have "BatchLoadRemote_exchange x req new_BatchLoadResponse b ?k ?g = finished ((res, rsp), k3, g1)"
    using k1(1) k2(1) k3(1) assms(11)
    by (simp add: BatchLoadRemote_exchange_def assms(10) [symmetric] split: if_splits)
  from with_connection_ok [OF assms(4,5), of "BatchLoadRemote_exchange x req new_BatchLoadResponse b", OF this]
  obtain v h where "with_connection x (setAddr peer ep) (False, new_BatchLoadResponse)
      (BatchLoadRemote_exchange x req new_BatchLoadResponse b) g =
      finished ((res, rsp), k3, g1\<lparr>g_verbs := v, g_nics := h\<rparr>)"
    by blast
  then show ?thesis
    using b(1) assms(2,3) k3(4)
    by (intro exI [of _ k3] exI [of _ v] exI [of _ h]) (simp add: BatchLoadRemote_def)
qed


section \<open>Restoring from the next node\<close>

text \<open>C15: A node that has lost its memory and asks the next node for its files gets a list of them, and then
  fetches each from the node of its rank, which is itself: the address it resolves is its own, its
  own server answers that the file is not cached, no file is restored, and the attempt counts as
  failed unless the list was empty.\<close>

theorem restore_asks_the_node_itself:
  assumes "\<forall>n. x_al x n" and "world_ok (x_world x)" and "getEndpoint (x_vars x) ''rdma'' = Inr ep"
    and "x_resolve x (w_hosts (x_world x) ! nat (my_rank x)) = Some me"
    and "getNextNode (x_resolve x) (x_world x) = Inr (Some peer)"
    and "g_dials g = d # ds @ rest" and "connects d" and "talk (d_conn d) (batch_reply rsp) []"
    and "length (batch_request_bytes (\<lparr>bl_filter = everything_of (my_rank x), bl_only_metadata = False\<rparr>)) \<le> 2 ^ 63"
    and "length (batch_response_bytes rsp) \<le> 2 ^ 63" and "batch_response_ok rsp"
    and "br_code rsp \<noteq> STATUS_UNKNOWN_ERROR"
    and "list_all (\<lambda>item. node_rank (lr_metadata item) = my_rank x) (br_responses rsp)"
    and "list_all2 refused (br_responses rsp) ds"
    and "item \<in> set (br_responses rsp)" and "file_name (lr_metadata item) \<noteq> []"
    and "x_client x = Inr mc" and "own_dict (g_store gs) = Map.empty"
    and "mc_Load mc (lr_metadata item) (g_db gs) = Inr (STATUS_SUCCESS, lr_metadata item, db)"
    and "talk ks (load_call (load_of item)) []"
  shows "getNodeIP (x_resolve x) (x_world x) (node_rank (lr_metadata item)) = Inr (Some me) \<and>
    (\<exists>ks' gs'. serve_connection x ks gs = finished (ks', gs') \<and> talk ks' [] (load_reply (not_cached item)) \<and>
       g_store gs' = g_store gs) \<and>
    (\<exists>g'. retriveCheckpoint x g = finished (False, g') \<and> g_store g' = g_store g)"
proof -
  have own: "getNodeIP (x_resolve x) (x_world x) (my_rank x) = Inr (Some me)"
    using assms(2,4) host_at_ok [OF assms(2), of "my_rank x"]
    by (simp add: getNodeIP_def my_rank_def world_ok_def)
  have rank: "node_rank (lr_metadata item) = my_rank x" using assms(13,15) by (simp add: list_all_iff)
  obtain i where "i < length (br_responses rsp)" "item = br_responses rsp ! i"
    using assms(15) by (auto simp: in_set_conv_nth)
  then have r: "refused item (ds ! i)" using list_all2_nthD [OF assms(14)] by simp
  have "Storage_Load (my_rank x) (lr_metadata item) (g_store gs) = Inr None"
    using assms(16,18) rank by (simp add: Storage_Load_def)
  then have "load_answer x mc (load_of item) gs = Inr (not_cached item, gs\<lparr>g_db := db\<rparr>)"
    using load_answer_uncached [of mc "load_of item" gs "lr_metadata item" db x] assms(19)
    by (simp add: load_of_def not_cached_def)
  then obtain ks' v h where served: "serve_connection x ks gs = finished (ks', (gs\<lparr>g_db := db\<rparr>)\<lparr>g_verbs := v, g_nics := h\<rparr>)"
      "talk ks' [] (load_reply (not_cached item))"
    using serve_load_refused [OF assms(1) _ _ _ assms(17) _ _ assms(20)] r
    by (fastforce simp: refused_def load_of_def not_cached_def)
  let ?g = "g\<lparr>g_nics := snd (ChooseNic (g_nics g)), g_dials := ds @ rest\<rparr>"
  have "(br_responses rsp = []) = False" using assms(15) by auto
  then obtain g1 where "load_tasks x (br_responses rsp) ?g = finished (False, g1)" "g_store g1 = g_store g"
    using load_tasks_refused [OF assms(1,3) own assms(14,13), of ?g rest] by fastforce
  then have "\<exists>g'. retriveCheckpoint x g = finished (False, g') \<and> g_store g' = g_store g"
    using BatchLoadRemote_asks [OF assms(1,3,5-11) refl, of False g1] assms(12)
    by (auto simp: retriveCheckpoint_def everything_of_def)
  then show ?thesis using own rank served by auto
qed

text \<open>Node 0 of two, whose one file is still in the memory of node 1.\<close>

definition demo_lost :: InterNodeLoadResponse where
  "demo_lost = demo_found\<lparr>lr_metadata := (demo_file 64)\<lparr>node_rank := 0\<rparr>\<rparr>"

definition demo_list :: InterNodeBatchLoadResponse where
  "demo_list = \<lparr>br_responses = [demo_lost], br_code = STATUS_SUCCESS\<rparr>"

definition demo_restarted :: "(mem_db, qp_state \<times> 32 word) libs" where
  "demo_restarted = (demo_libs 0)\<lparr>x_client := Inr (demo_table\<lparr>mc_Load := (\<lambda>md db. Inr (STATUS_SUCCESS, md, db))\<rparr>)\<rparr>"

lemma demo_lost_ok:
  "metadata_ok (lr_metadata demo_lost)" "length (load_request_bytes (load_of demo_lost)) \<le> 2 ^ 63"
  "length (load_response_bytes (not_cached demo_lost)) \<le> 2 ^ 63" "length (batch_response_bytes demo_list) \<le> 2 ^ 63"
  "length (batch_request_bytes \<lparr>bl_filter = everything_of 0, bl_only_metadata = False\<rparr>) \<le> 2 ^ 63"
  by (simp_all add: demo_lost_def demo_list_def demo_found_def not_cached_def load_of_def new_LoadResponse_def
      metadata_ok_def demo_file_def new_Metadata_def string_ok_def int_range_def
      load_request_bytes_def load_response_bytes_def metadata_bytes_def entry_bytes_def string_bytes_def c_str_def
      bool_bytes_def batch_request_bytes_def batch_response_bytes_def responses_bytes_def filter_bytes_def everything_of_def)

lemma restore_asks_the_node_itself_witness:
  "\<exists>ks' gs' g'. serve_connection demo_restarted (demo_conn (load_call (load_of demo_lost)) 8 demo_ready)
       (demo_engine (\<lambda>_. 0) [] []) = finished (ks', gs') \<and>
     talk ks' [] (load_reply (not_cached demo_lost)) \<and>
     retriveCheckpoint demo_restarted
       (demo_engine (\<lambda>_. 0) [] [demo_dial (batch_reply demo_list), demo_dial (load_reply (not_cached demo_lost))]) =
       finished (False, g') \<and> g_store g' = storage_new"
proof -
  let ?d = "demo_dial (load_reply (not_cached demo_lost))"
  have rank: "my_rank demo_restarted = 0"
    by (simp add: my_rank_def demo_restarted_def demo_libs_def demo_world_def)
  have "refused demo_lost ?d"
    using demo_lost_ok by (simp add: refused_def connects_def demo_dial_def demo_calls_def talk_def demo_conn_def
        demo_in_def demo_out_def)
  then have refused: "list_all2 refused (br_responses demo_list) [?d]" by (simp add: demo_list_def)
  have entry: "entry_ok demo_entry" by (simp add: entry_ok_def demo_entry_def int_range_def)
  have ok: "batch_response_ok demo_list" "br_code demo_list \<noteq> STATUS_UNKNOWN_ERROR"
    using demo_lost_ok(1) entry
    by (simp_all add: batch_response_ok_def demo_list_def demo_lost_def demo_found_def int_range_def status_defs)
  have world: "world_ok (x_world demo_restarted)" "getEndpoint (x_vars demo_restarted) ''rdma'' = Inr \<lparr>ep_addr = ''0.0.0.0'', ep_port = 18080\<rparr>"
      "getNextNode (x_resolve demo_restarted) (x_world demo_restarted) = Inr (Some ''b'')" "\<forall>n. x_al demo_restarted n"
      "x_resolve demo_restarted (w_hosts (x_world demo_restarted) ! nat (my_rank demo_restarted)) = Some ''a''"
    unfolding rank using demo_endpoint demo_peer by (simp_all add: demo_restarted_def world_ok_def demo_libs_def demo_world_def)
  let ?g = "demo_engine (\<lambda>_. 0) [] [demo_dial (batch_reply demo_list), ?d]"
  have links: "connects (demo_dial bs)" "talk (d_conn (demo_dial bs)) bs []" "talk (demo_conn bs 8 demo_ready) bs []" for bs
    by (simp_all add: demo_dial_def connects_def demo_calls_def talk_def demo_conn_def demo_in_def demo_out_def)
  have dials: "g_dials ?g = demo_dial (batch_reply demo_list) # [?d] @ []" by (simp add: demo_engine_def)
  have store: "g_store (demo_engine m as ds) = storage_new" for m as ds by (simp add: demo_engine_def)
  have item: "list_all (\<lambda>item. node_rank (lr_metadata item) = my_rank demo_restarted) (br_responses demo_list)"
      "demo_lost \<in> set (br_responses demo_list)" "file_name (lr_metadata demo_lost) \<noteq> []"
      "own_dict (g_store (demo_engine (\<lambda>_. 0) [] [])) = Map.empty"
    by (simp_all add: rank store storage_new_def demo_list_def demo_lost_def demo_file_def new_Metadata_def)
  have table: "x_client demo_restarted = Inr (demo_table\<lparr>mc_Load := (\<lambda>md db. Inr (STATUS_SUCCESS, md, db))\<rparr>)"
    by (simp add: demo_restarted_def)
  from restore_asks_the_node_itself [OF world(4,1,2,5,3) dials links(1,2) _ demo_lost_ok(4) ok item(1) refused
      item(2,3) table item(4) _ links(3)] demo_lost_ok(5)
  show ?thesis by (auto simp: rank store)
qed


end
