(* ===== verification/Restart.thy ===== *)
theory Restart
  imports Recovery
begin

text \<open>
  What a node gets back from its disk at its start: \<open>ClientUtil::BatchLoadFromFileSystem\<close> of
  \<open>src/coordinator/client.cpp\<close> with \<open>MemoryMonitor::TryLoadFromFile\<close>, over all rows of the node.
\<close>

section \<open>Bytes in memory\<close>

definition holds :: "memory \<Rightarrow> size_t \<Rightarrow> byte list \<Rightarrow> bool" where
  "holds m a bs \<longleftrightarrow> (\<forall>i < length bs. m (a + of_nat i) = bs ! i)"

definition apart :: "size_t \<times> nat \<Rightarrow> size_t \<times> nat \<Rightarrow> bool" where
  "apart = (\<lambda>(a, n) (b, k). \<forall>i < n. \<forall>j < k. a + of_nat i \<noteq> b + of_nat j)"

lemma apart_less: "apart (a, n) r \<Longrightarrow> k \<le> n \<Longrightarrow> apart (a, k) r"
  by (auto simp: apart_def)

lemma apart_sym: "apart p q \<Longrightarrow> apart q p"
  by (cases p; cases q) (fastforce simp: apart_def)

lemma store_bytes_holds:
  assumes "store_bytes m a bs = Inr m'" and "length bs < 2 ^ 64"
  shows "holds m' a bs"
proof -
  have "unat (of_nat i :: size_t) = i" if "i < length bs" for i
    using that assms(2) by (simp add: unat_of_nat_small)
  then show ?thesis using assms(1) by (auto simp: store_bytes_def holds_def split: if_splits)
qed

lemma store_bytes_apart:
  assumes "store_bytes m a bs = Inr m'" and "apart (a, length bs) (b, length cs)" and "holds m b cs"
  shows "holds m' b cs"
proof -
  have "\<not> unat (b + of_nat j - a) < length bs" if "j < length cs" for j
  proof
    assume "unat (b + of_nat j - a) < length bs"
    moreover have "a + of_nat (unat (b + of_nat j - a)) = b + of_nat j" by simp
    ultimately show False using assms(2) that by (fastforce simp: apart_def)
  qed
  then show ?thesis using assms(1,3) by (auto simp: store_bytes_def holds_def split: if_splits)
qed

section \<open>One file\<close>

text \<open>The bytes a row's file gives: it opens, has at least the size of the row, and closes.\<close>

definition file_bytes :: "('db, 'q) libs \<Rightarrow> Metadata \<Rightarrow> byte list" where
  "file_bytes x md = take (unat (msize md)) (fst (snd (x_file x (file_name md))))"

definition on_disk :: "('db, 'q) libs \<Rightarrow> Metadata \<Rightarrow> bool" where
  "on_disk x md \<longleftrightarrow> (case x_file x (file_name md) of (opened, data, shut) \<Rightarrow>
     opened \<and> shut \<and> msize md \<noteq> 0 \<and> unat (msize md) \<le> length data)"

definition used :: "('db, 'q) engine \<Rightarrow> nat" where
  "used g = unat (self_total_usage (mstat (g_mon g)))"

definition capacity :: "('db, 'q) engine \<Rightarrow> nat" where
  "capacity g = unat (total_capacity (mstat (g_mon g)))"

lemma length_file_bytes: "length (file_bytes x md) \<le> unat (msize md)"
  by (simp add: file_bytes_def)

lemma enough_room:
  assumes "within_limit m" and "unat (self_total_usage (mstat m)) + unat n < unat (total_capacity (mstat m))"
  shows "\<exists>m'. enough cg n m = (True, m') \<and> within_limit (count_usage n m') \<and>
     unat (self_total_usage (mstat (count_usage n m'))) = unat (self_total_usage (mstat m)) + unat n \<and>
     total_capacity (mstat (count_usage n m')) = total_capacity (mstat m)"
proof -
  obtain ok m' where e: "enough cg n m = (ok, m')" by fastforce
  have lim: "user_limit m > 0" "self_total_usage (mstat m) \<le> total_capacity (mstat m)"
    using assms(1) by (simp_all add: within_limit_def)
  then have "ok"
    using enough_limited [OF e lim(1)] assms(2) by (simp add: word_less_nat_alt unat_sub_le)
  with e have e': "enough cg n m = (True, m')" by simp
  show ?thesis
    using e' within_limit_count [OF assms(1) e'] enough_limited [OF e' lim(1)] by (simp add: count_usage_def)
qed

text \<open>What one load comes to when there is memory for it.\<close>

lemma load_file_runs:
  assumes "within_limit (g_mon g)" and "used g + unat (msize md) < capacity g"
    and "g_allocs g = Some e # as" and "address e \<noteq> 0"
  shows "\<exists>rc e' g'. load_file x md new_DataEntry g = Inr (rc, e', g') \<and>
     (rc = STATUS_SUCCESS \<longleftrightarrow> on_disk x md) \<and> (on_disk x md \<longrightarrow> e' = e) \<and>
     within_limit (g_mon g') \<and> used g' = used g + unat (msize md) \<and> capacity g' = capacity g \<and>
     g_store g' = g_store g \<and> (on_disk x md \<longrightarrow> g_allocs g' = as) \<and>
     (on_disk x md \<longrightarrow> holds (g_mem g') (address e) (file_bytes x md)) \<and>
     (\<forall>b cs. apart (address e, unat (msize md)) (b, length cs) \<and> holds (g_mem g) b cs \<longrightarrow> holds (g_mem g') b cs)"
proof -
  obtain opened data shut where f: "x_file x (file_name md) = (opened, data, shut)" by (metis prod_cases3)
  let ?bs = "take (unat (msize md)) data" and ?n = "msize md"
  obtain m' where m': "enough (x_cgroup x) ?n (g_mon g) = (True, m')" "within_limit (count_usage ?n m')"
      "unat (self_total_usage (mstat (count_usage ?n m'))) = used g + unat ?n"
      "total_capacity (mstat (count_usage ?n m')) = total_capacity (mstat (g_mon g))"
    using enough_room [OF assms(1), of ?n "x_cgroup x"] assms(2) by (auto simp: used_def capacity_def)
  have small: "length ?bs < 2 ^ 64" 
  proof (rule le_less_trans)
    show "length ?bs \<le> unat ?n" by simp
    show "unat ?n < 2 ^ 64" using unsigned_less [where 'a = nat, of ?n] by simp
  qed
  then have read: "of_nat (length ?bs) = ?n \<longleftrightarrow> unat ?n \<le> length data"
    by (auto simp: min_def word_unat_eq_iff unat_of_nat_small)
  define e' where "e' = (if ?n = 0 then new_DataEntry else e)"
  have alloc: "memfdCalloc (Some e) md new_DataEntry = (if ?n = 0 then STATUS_UNKNOWN_ERROR else STATUS_SUCCESS, e')"
    by (simp add: memfdCalloc_def e'_def word_le_0_iff)
  have "opened \<Longrightarrow> \<exists>mem. store_bytes (g_mem g) (address e') ?bs = Inr mem"
    using assms(4) by (auto simp: store_bytes_def e'_def)
  then obtain mem where mem: "(if \<not> opened then Inr (g_mem g) else store_bytes (g_mem g) (address e') ?bs) = Inr mem"
    by (cases opened) auto
  define rc where "rc = (if \<not> opened then STATUS_UNKNOWN_ERROR else if \<not> unat ?n \<le> length data then STATUS_UNKNOWN_ERROR
      else if \<not> shut then STATUS_UNKNOWN_ERROR else if ?n = 0 then STATUS_UNKNOWN_ERROR else STATUS_SUCCESS)"
  have "TryLoadFromFile (x_cgroup x) (Some e) opened (of_nat (length ?bs)) shut md new_DataEntry (g_mon g) =
      (rc, e', count_usage ?n m')"
    unfolding TryLoadFromFile_def m'(1) rc_def alloc Let_def prod.case
    using read by (cases opened; cases shut; cases "unat ?n \<le> length data") (simp_all del: length_take)
  note tried = this
  have oom: "IsOOM rc = False" by (simp add: rc_def IsOOM_def status_defs)
  have same: "g_mem (note_allocation md rc e' m g) = g_mem g" for m by (simp add: note_allocation_def)
  have load: "load_file x md new_DataEntry g =
      Inr (rc, e', (note_allocation md rc e' (count_usage ?n m') g)\<lparr>g_mem := mem\<rparr>)"
    unfolding load_file_def f assms(3) Let_def prod.case list.case tried oom same simp_thms mem and_then_simps ..
  have disk: "(rc = STATUS_SUCCESS \<longleftrightarrow> on_disk x md) \<and> (on_disk x md \<longrightarrow> e' = e \<and> opened \<and> ?n \<noteq> 0)"
    by (auto simp: rc_def on_disk_def f e'_def status_defs)
  have "holds mem (address e) ?bs" if "on_disk x md"
    using store_bytes_holds [OF _ small] mem disk that by simp
  moreover have "holds mem b cs" if a: "apart (address e, unat ?n) (b, length cs)" and h: "holds (g_mem g) b cs" for b cs
  proof (cases "opened \<and> ?n \<noteq> 0")
    case True
    have "apart (address e, length ?bs) (b, length cs)" using apart_less [OF a, of "length ?bs"] by simp
    then show ?thesis using store_bytes_apart [OF _ _ h] mem True by (simp add: e'_def)
  next
    case False
    then show ?thesis using mem h by (auto simp: store_bytes_def split: if_splits)
  qed
  moreover obtain g' where g': "g' = (note_allocation md rc e' (count_usage ?n m') g)\<lparr>g_mem := mem\<rparr>" by blast
  then have "g_mon g' = count_usage ?n m'" "g_store g' = g_store g" "g_mem g' = mem"
      "?n \<noteq> 0 \<Longrightarrow> g_allocs g' = as"
    by (simp_all add: note_allocation_def oom assms(3))
  moreover have "file_bytes x md = ?bs" by (simp add: file_bytes_def f)
  moreover have "load_file x md new_DataEntry g = Inr (rc, e', g')" using load g' by simp
  ultimately show ?thesis
    using disk m'(2-4)
    by (intro exI [of _ rc] exI [of _ e'] exI [of _ g'] conjI) (simp_all add: used_def capacity_def del: length_take)
qed

section \<open>All files of a node\<close>

text \<open>A row of this node whose iteration is a number, if it is known at all.\<close>

definition restorable :: "('db, 'q) libs \<Rightarrow> Metadata \<Rightarrow> bool" where
  "restorable x md \<longleftrightarrow> file_name md \<noteq> [] \<and> node_rank md = my_rank x \<and>
     (iteration md = ''unknown'' \<or> (\<exists>i. stoul (iteration md) = Inr i))"

text \<open>Where the kernel puts the files.\<close>

definition regions :: "DataEntry list \<Rightarrow> Metadata list \<Rightarrow> (size_t \<times> nat) list" where
  "regions es mds = map2 (\<lambda>e md. (address e, unat (msize md))) es mds"

lemma note_iteration_runs:
  assumes "restorable x md" and "\<not> x_busy x"
  shows "\<exists>im. note_iteration x md g = Inr (g\<lparr>g_iters := im\<rparr>)"
proof (cases "iteration md = ''unknown''")
  case True
  then show ?thesis by (intro exI [of _ "g_iters g"]) (simp add: note_iteration_def)
next
  case False
  then obtain i where i: "stoul (iteration md) = Inr i" using assms(1) by (auto simp: restorable_def)
  show ?thesis
  proof (cases "im_isExist i (g_iters g)")
    case True
    then show ?thesis using False i by (intro exI [of _ "g_iters g"]) (simp add: note_iteration_def)
  next
    case out: False
    then show ?thesis using False i assms(2)
      by (intro exI [of _ "(g_iters g)\<lparr>im_queue := im_queue (g_iters g) @ [i]\<rparr>"]) (simp add: note_iteration_def)
  qed
qed

lemma save_own:
  "address e \<noteq> 0 \<Longrightarrow> node_rank md = my_rank x \<Longrightarrow>
     save_entry x md e g = Inr (True, g\<lparr>g_store := (g_store g)\<lparr>own_dict := (own_dict (g_store g))(file_name md \<mapsto> e)\<rparr>\<rparr>)"
  by (simp add: save_entry_def Storage_Save_def)

definition need :: "Metadata list \<Rightarrow> nat" where
  "need mds = sum_list (map (\<lambda>md. unat (msize md)) mds)"

definition restored :: "('db, 'q) libs \<Rightarrow> DataEntry list \<Rightarrow> Metadata list \<Rightarrow> ('db, 'q) engine \<Rightarrow> ('db, 'q) engine \<Rightarrow> bool" where
  "restored x es mds g g' \<longleftrightarrow>
     g_store g' = (g_store g)\<lparr>own_dict := (own_dict (g_store g))(map file_name (takeWhile (on_disk x) mds) [\<mapsto>] es)\<rparr> \<and>
     (\<forall>i < length (takeWhile (on_disk x) mds). holds (g_mem g') (address (es ! i)) (file_bytes x (mds ! i))) \<and>
     (\<forall>b cs. (\<forall>r \<in> set (regions es mds). apart r (b, length cs)) \<and> holds (g_mem g) b cs \<longrightarrow> holds (g_mem g') b cs)"

text \<open>One file read, then the others.\<close>

lemma restored_Cons:
  assumes "on_disk x md" and "holds (g_mem g1) (address e) (file_bytes x md)"
    and "\<forall>b cs. apart (address e, unat (msize md)) (b, length cs) \<and> holds (g_mem g) b cs \<longrightarrow> holds (g_mem g1) b cs"
    and "g_store g1 = (g_store g)\<lparr>own_dict := (own_dict (g_store g))(file_name md \<mapsto> e)\<rparr>"
    and "restored x es mds g1 g'" and "sorted_wrt apart (regions (e # es) (md # mds))"
  shows "restored x (e # es) (md # mds) g g'"
proof -
  have "apart r (address e, length (file_bytes x md))" if "r \<in> set (regions es mds)" for r
  proof -
    have "apart (address e, unat (msize md)) r" using assms(6) that by (auto simp: regions_def)
    then show ?thesis using apart_less [OF _ length_file_bytes] apart_sym by blast
  qed
  then have first: "holds (g_mem g') (address e) (file_bytes x md)"
    using assms(2,5) by (simp add: restored_def)
  have rest: "holds (g_mem g') (address ((e # es) ! i)) (file_bytes x ((md # mds) ! i))"
    if "i < length (takeWhile (on_disk x) (md # mds))" for i
    using that first assms(1,5) by (cases i) (auto simp: restored_def)
  show ?thesis
    unfolding restored_def
  proof (intro conjI allI impI rest)
    show "g_store g' = (g_store g)\<lparr>own_dict :=
        (own_dict (g_store g))(map file_name (takeWhile (on_disk x) (md # mds)) [\<mapsto>] e # es)\<rparr>"
      using assms(1,4,5) by (simp add: restored_def)
  next
    fix b cs
    assume "(\<forall>r \<in> set (regions (e # es) (md # mds)). apart r (b, length cs)) \<and> holds (g_mem g) b cs"
    then show "holds (g_mem g') b cs" using assms(3,5) by (simp add: restored_def regions_def)
  qed
qed

lemma load_files_runs:
  fixes x :: "('db, 'q) libs"
  assumes "\<not> x_busy x"
  shows "within_limit (g_mon g) \<Longrightarrow> used g + need (live vec) < capacity g \<Longrightarrow> g_allocs g = map Some es @ rest \<Longrightarrow>
    length es = length (live vec) \<Longrightarrow> list_all (\<lambda>e. address e \<noteq> 0) es \<Longrightarrow>
    sorted_wrt apart (regions es (live vec)) \<Longrightarrow> list_all (restorable x) (live vec) \<Longrightarrow>
    \<exists>g'. load_files x vec g = Inr (list_all (on_disk x) (live vec), g') \<and> restored x es (live vec) g g'"
proof (induction vec arbitrary: g es)
  case Nil
  then show ?case by (simp add: live_def restored_def regions_def)
next
  case (Cons md vec)
  show ?case
  proof (cases "state md = OBSOLESCENT")
    case True
    then have "live (md # vec) = live vec" by (simp add: live_def)
    then show ?thesis using Cons.IH [of g es] Cons.prems True by simp
  next
    case False
    then have live: "live (md # vec) = md # live vec" by (simp add: live_def)
    with Cons.prems(4) obtain e es' where es: "es = e # es'" "length es' = length (live vec)" by (cases es) auto
    have e: "address e \<noteq> 0" "list_all (\<lambda>e. address e \<noteq> 0) es'" using Cons.prems(5) es by simp_all
    have md: "restorable x md" "list_all (restorable x) (live vec)" using Cons.prems(7) live by simp_all
    obtain im where im: "note_iteration x md g = Inr (g\<lparr>g_iters := im\<rparr>)"
      using note_iteration_runs [OF md(1) assms] by blast
    let ?g = "g\<lparr>g_iters := im\<rparr>"
    have "used ?g + unat (msize md) < capacity ?g"
      using Cons.prems(2) by (simp add: live need_def used_def capacity_def)
    then obtain rc e' g1 where g1: "load_file x md new_DataEntry ?g = Inr (rc, e', g1)"
        "rc = STATUS_SUCCESS \<longleftrightarrow> on_disk x md" "on_disk x md \<longrightarrow> e' = e" "within_limit (g_mon g1)"
        "used g1 = used g + unat (msize md)" "capacity g1 = capacity g" "g_store g1 = g_store g"
        "on_disk x md \<longrightarrow> g_allocs g1 = map Some es' @ rest"
        "on_disk x md \<longrightarrow> holds (g_mem g1) (address e) (file_bytes x md)"
        "\<forall>b cs. apart (address e, unat (msize md)) (b, length cs) \<and> holds (g_mem g) b cs \<longrightarrow> holds (g_mem g1) b cs"
      using load_file_runs [of ?g md e "map Some es' @ rest" x] Cons.prems(1,3) e(1)
      by (auto simp: es used_def capacity_def)
    show ?thesis
    proof (cases "on_disk x md")
      case False
      then have "load_files x (md # vec) g = Inr (False, g1)"
        using \<open>state md \<noteq> OBSOLESCENT\<close> im g1(1,2) by (simp add: IsSuccess_def)
      moreover have "restored x es (live (md # vec)) g g1"
        using False g1(7,10) by (simp add: live restored_def es regions_def)
      ultimately show ?thesis using False by (simp add: live)
    next
      case True
      let ?g2 = "g1\<lparr>g_store := (g_store g1)\<lparr>own_dict := (own_dict (g_store g1))(file_name md \<mapsto> e)\<rparr>\<rparr>"
      have save: "save_entry x md e g1 = Inr (True, ?g2)"
        using save_own [OF e(1), of md x g1] md(1) by (simp add: restorable_def)
      have "used ?g2 + need (live vec) < capacity ?g2"
        using Cons.prems(2) g1(5,6) by (simp add: live need_def used_def capacity_def)
      moreover have "sorted_wrt apart (regions es' (live vec))"
        using Cons.prems(6) by (simp add: live es regions_def)
      ultimately obtain g' where "load_files x vec ?g2 = Inr (list_all (on_disk x) (live vec), g')"
          "restored x es' (live vec) ?g2 g'"
        using Cons.IH [of ?g2 es'] True g1(4,8) es(2) e(2) md(2) by auto
      moreover have "restored x (e # es') (md # live vec) g g'"
        using restored_Cons [OF True _ _ _ calculation(2), of e g] g1 True Cons.prems(6) by (simp add: live es)
      ultimately show ?thesis
        using \<open>state md \<noteq> OBSOLESCENT\<close> im g1(1-3) True save by (simp add: live es IsSuccess_def)
    qed
  qed
qed


section \<open>Property\<close>

lemma map_upds_nth:
  "distinct xs \<Longrightarrow> length xs \<le> length ys \<Longrightarrow> i < length xs \<Longrightarrow> (m(xs [\<mapsto>] ys)) (xs ! i) = Some (ys ! i)"
proof (induction xs arbitrary: m ys i)
  case Nil
  then show ?case by simp
next
  case (Cons a xs)
  then obtain b ys' where ys: "ys = b # ys'" by (cases ys) auto
  show ?case
  proof (cases i)
    case 0
    have "(m(a \<mapsto> b, xs [\<mapsto>] ys')) a = (m(a \<mapsto> b)) a"
      by (rule map_upds_apply_nontin) (use Cons.prems(1) in simp)
    then show ?thesis by (simp add: 0 ys)
  next
    case (Suc j)
    then show ?thesis using Cons.IH [of ys' j "m(a \<mapsto> b)"] Cons.prems by (simp add: ys del: fun_upd_apply)
  qed
qed

text \<open>C14: What a restarted node gets back from its disk.  Going through the rows of its own files that are
  not obsolescent, in the table's order, with enough memory for all of them, it restores exactly
  those before the first file that is not on disk with its full size: each is in the index with
  the memory it was given, which holds the bytes of the file, and no other entry changes.  The
  call returns true if all files are on disk; otherwise the files after the first missing one stay
  lost although they are on disk.\<close>

theorem restart_restores_from_disk:
  assumes "x_client x = Inr mc" and "mc_BatchLoad mc (everything_of (my_rank x)) (g_db g) = Inr (STATUS_SUCCESS, vec, db)"
    and "\<not> x_busy x" and "within_limit (g_mon g)" and "used g + need (live vec) < capacity g"
    and "g_allocs g = map Some es @ rest" and "length es = length (live vec)"
    and "list_all (\<lambda>e. address e \<noteq> 0) es" and "sorted_wrt apart (regions es (live vec))"
    and "list_all (restorable x) (live vec)" and "distinct (map file_name (live vec))"
    and "found = takeWhile (on_disk x) (live vec)"
  shows "\<exists>g'. retriveCheckpointFromFileSystem x g = finished (found = live vec, g') \<and>
    (\<forall>i < length found. Storage_Load (my_rank x) (found ! i) (g_store g') = Inr (Some (es ! i)) \<and>
       holds (g_mem g') (address (es ! i)) (file_bytes x (found ! i)) \<and>
       length (file_bytes x (found ! i)) = unat (msize (found ! i))) \<and>
    (\<forall>f. f \<notin> file_name ` set found \<longrightarrow> own_dict (g_store g') f = own_dict (g_store g) f) \<and>
    backup_dict (g_store g') = backup_dict (g_store g)"
proof -
  let ?g = "g\<lparr>g_db := db\<rparr>"
  have "used ?g + need (live vec) < capacity ?g" using assms(5) by (simp add: used_def capacity_def)
  then obtain g' where g': "load_files x vec ?g = Inr (list_all (on_disk x) (live vec), g')"
      "restored x es (live vec) ?g g'"
    using load_files_runs [OF assms(3), of ?g vec es rest] assms(4,6-10) by auto
  have all: "list_all (on_disk x) (live vec) \<longleftrightarrow> found = live vec"
    by (auto simp: assms(12) list_all_iff takeWhile_eq_all_conv)
  have run: "retriveCheckpointFromFileSystem x g = finished (found = live vec, g')"
    using g'(1) assms(1,2)
    by (simp add: retriveCheckpointFromFileSystem_def BatchLoadFromFileSystem_def everything_of_def all status_defs)
  have nth: "found ! i = live vec ! i" if "i < length found" for i
    using that by (simp add: assms(12) takeWhile_nth)
  have prefix: "found = take (length found) (live vec)"
    unfolding assms(12) by (rule takeWhile_eq_take)
  have "map file_name found = take (length found) (map file_name (live vec))"
    by (subst prefix) (simp add: take_map)
  then have names: "distinct (map file_name found)" using assms(11) by simp
  have short: "length found \<le> length es" by (simp add: assms(7,12) length_takeWhile_le)
  have each: "Storage_Load (my_rank x) (found ! i) (g_store g') = Inr (Some (es ! i)) \<and>
      holds (g_mem g') (address (es ! i)) (file_bytes x (found ! i)) \<and>
      length (file_bytes x (found ! i)) = unat (msize (found ! i))" if i: "i < length found" for i
  proof -
    have "found ! i \<in> set found" using i by simp
    then have md: "restorable x (found ! i)" "on_disk x (found ! i)"
      using assms(10) set_takeWhileD [of "found ! i" "on_disk x" "live vec"] by (auto simp: assms(12) list_all_iff)
    have "own_dict (g_store g') (file_name (found ! i)) = Some (es ! i)"
      using map_upds_nth [OF names, of es i "own_dict (g_store g)"] short i g'(2)
      by (simp add: restored_def assms(12))
    then show ?thesis
      using md i g'(2) nth [OF i] by (auto simp: restored_def assms(12) Storage_Load_def restorable_def on_disk_def
          file_bytes_def split: prod.splits)
  qed
  have "own_dict (g_store g') f = own_dict (g_store g) f" if "f \<notin> file_name ` set found" for f
    using g'(2) that by (simp add: restored_def assms(12) map_upds_apply_nontin)
  then show ?thesis using run each g'(2) by (auto simp: restored_def)
qed


text \<open>Three rows: the file of the first is on disk, that of the second is not, that of the third is.\<close>

definition demo_row :: "string \<Rightarrow> Metadata" where
  "demo_row f = \<lparr>job_name = ''job'', file_name = f, node_rank = 0, iteration = ''unknown'', state = PERSISTENT, msize = 2\<rparr>"

definition demo_rows :: "Metadata list" where
  "demo_rows = [demo_row ''f'', demo_row ''g'', demo_row ''h'']"

definition demo_disk :: "(mem_db, qp_state \<times> 32 word) libs" where
  "demo_disk = (demo_libs 0)\<lparr>x_client := Inr (demo_table\<lparr>mc_BatchLoad := (\<lambda>ft db. Inr (STATUS_SUCCESS, demo_rows, db))\<rparr>),
     x_file := (\<lambda>f. if f = ''g'' then (False, [], False) else (True, [5, 6], True))\<rparr>"

definition demo_slots :: "DataEntry list" where
  "demo_slots = [\<lparr>address = 4096, pid = 1, memfd = 3\<rparr>, \<lparr>address = 8192, pid = 1, memfd = 4\<rparr>,
     \<lparr>address = 12288, pid = 1, memfd = 5\<rparr>]"

lemma demo_slots_apart: "sorted_wrt apart (regions demo_slots demo_rows)"
proof -
  have "apart (4096, 2) (8192, 2)" "apart (4096, 2) (12288, 2)" "apart (8192, 2) (12288 :: size_t, 2)"
    by (auto simp: apart_def less_2_cases_iff)
  then show ?thesis by (simp add: regions_def demo_slots_def demo_rows_def demo_row_def)
qed

lemma restart_restores_from_disk_witness:
  "\<exists>g'. retriveCheckpointFromFileSystem demo_disk (demo_engine (\<lambda>_. 0) (map Some demo_slots) []) = finished (False, g') \<and>
     Storage_Load 0 (demo_row ''f'') (g_store g') = Inr (Some (hd demo_slots)) \<and>
     holds (g_mem g') 4096 [5, 6] \<and> own_dict (g_store g') ''h'' = None"
proof -
  let ?g = "demo_engine (\<lambda>_. 0) (map Some demo_slots) []"
  have rank: "my_rank demo_disk = 0" by (simp add: my_rank_def demo_disk_def demo_libs_def demo_world_def)
  have live: "live demo_rows = demo_rows" by (simp add: live_def demo_rows_def demo_row_def)
  have found: "takeWhile (on_disk demo_disk) demo_rows = [demo_row ''f'']"
    by (simp add: demo_rows_def on_disk_def demo_disk_def demo_row_def)
  have "x_client demo_disk = Inr (demo_table\<lparr>mc_BatchLoad := (\<lambda>ft db. Inr (STATUS_SUCCESS, demo_rows, db))\<rparr>)"
      "\<not> x_busy demo_disk" "within_limit (g_mon ?g)" "used ?g + need (live demo_rows) < capacity ?g"
      "g_allocs ?g = map Some demo_slots @ []" "length demo_slots = length (live demo_rows)"
      "list_all (\<lambda>e. address e \<noteq> 0) demo_slots" "list_all (restorable demo_disk) (live demo_rows)"
      "distinct (map file_name (live demo_rows))"
    unfolding live by (simp_all add: rank demo_disk_def demo_libs_def within_limit_def demo_engine_def MemoryStat_new_def
        used_def capacity_def need_def demo_rows_def demo_row_def demo_slots_def restorable_def my_rank_def demo_world_def)
  note h = this
  have table: "mc_BatchLoad (demo_table\<lparr>mc_BatchLoad := (\<lambda>ft db. Inr (STATUS_SUCCESS, demo_rows, db))\<rparr>)
      (everything_of (my_rank demo_disk)) (g_db ?g) = Inr (STATUS_SUCCESS, demo_rows, g_db ?g)" by simp
  have slots: "sorted_wrt apart (regions demo_slots (live demo_rows))" using demo_slots_apart by (simp add: live)
  obtain g' where g': "retriveCheckpointFromFileSystem demo_disk ?g = finished ([demo_row ''f''] = demo_rows, g')"
      "Storage_Load 0 (demo_row ''f'') (g_store g') = Inr (Some (hd demo_slots))"
      "holds (g_mem g') (address (hd demo_slots)) (file_bytes demo_disk (demo_row ''f''))"
      "own_dict (g_store g') ''h'' = own_dict (g_store ?g) ''h''"
    using restart_restores_from_disk [OF h(1) table h(2-7) slots h(8,9), of "[demo_row ''f'']"]
    by (auto simp: live found rank hd_conv_nth demo_slots_def) (simp add: demo_row_def)?
  moreover have "file_bytes demo_disk (demo_row ''f'') = [5, 6]" by (simp add: file_bytes_def demo_disk_def demo_row_def)
  moreover have "own_dict (g_store ?g) ''h'' = None" "address (hd demo_slots) = 4096" "[demo_row ''f''] \<noteq> demo_rows"
    by (simp_all add: demo_engine_def storage_new_def demo_slots_def demo_rows_def)
  ultimately show ?thesis by auto
qed


end
