(* ===== verification/Replication.thy ===== *)
theory Replication
  imports Progress Restart
begin

text \<open>
  The work queue's \<open>Reconcile\<close> (theory \<open>Coordinator\<close>, where the peer is a parameter) put together
  with the real peer: the request of theory \<open>Requests\<close> and the server of the next node.
\<close>

section \<open>The peer of Reconcile\<close>

text \<open>Where the client's request returns, the environment answers what the request returns; the
  state it works on is an engine of theory \<open>Requests\<close>.\<close>

definition over_network :: "('db, 'q) libs \<Rightarrow> ('d, ('db, 'q) engine) env \<Rightarrow> bool" where
  "over_network x e \<longleftrightarrow> e_world e = x_world x \<and>
     (\<forall>req p ok rc k p'. ClientUtil_Backup x req STATUS_SUCCESS p = finished ((ok, rc), k, p') \<longrightarrow>
        e_backup e req p = (ok, p'))"

text \<open>Such an environment.\<close>

definition answer_of :: "'p \<Rightarrow> ((bool \<times> int) \<times> 'k \<times> 'p) outcome \<Rightarrow> bool \<times> 'p" where
  "answer_of p r = (case r of Inr (Some ((ok, _), _, p')) \<Rightarrow> (ok, p') | _ \<Rightarrow> (False, p))"

definition network_env ::
  "('db, 'q) libs \<Rightarrow> 'd meta_client result \<Rightarrow> (string \<Rightarrow> byte list \<Rightarrow> ('db, 'q) engine \<Rightarrow> disk_outcome \<times> ('db, 'q) engine) \<Rightarrow>
     ('d, ('db, 'q) engine) env" where
  "network_env x client disk =
     \<lparr>e_vars = x_vars x, e_world = x_world x, e_client = client,
      e_backup = (\<lambda>req p. answer_of p (ClientUtil_Backup x req STATUS_SUCCESS p)),
      e_write = disk, e_touch = (\<lambda>f p. (True, p))\<rparr>"

lemma network_env_over: "over_network x (network_env x client disk)"
  by (simp add: over_network_def network_env_def answer_of_def finished_def)

section \<open>A cached file\<close>

lemma holds_transfer:
  assumes "holds src a bs" and "length bs < 2 ^ 64"
  shows "holds (transfer m dst src a (length bs)) dst bs"
  using assms by (auto simp: holds_def transfer_def unat_of_nat_small)

text \<open>\<open>Reconcile\<close> on a cached file of the node, when the backup succeeds.\<close>

lemma Reconcile_backs_up:
  assumes "reliable_table mc tbl" and "e_client e = Inr mc" and "1 < w_world_size (e_world e)"
    and "clean key" and "key \<noteq> []" and "table_ok (tbl (n_db n))" and "tbl (n_db n) key = Some r"
    and "mr_rank r = rank_of e" and "state_of (mr_state r) = CACHED" and "mr_size r \<noteq> 0"
    and "own_dict (n_store n) key = Some entry" and "md = with_row (new_Metadata (w_job_name (e_world e)) key) key r"
    and "e_backup e \<lparr>bk_metadata = md, bk_data_entry = entry, bk_only_metadata = False\<rparr> (n_out n) = (True, p)"
  shows "\<exists>db. Reconcile e key n = Inr (False, n\<lparr>n_db := db, n_out := p\<rparr>) \<and>
     tbl db = (tbl (n_db n))(key \<mapsto> set_state BACKED_UP r)"
proof -
  let ?new = "new_Metadata (w_job_name (e_world e)) key"
  have name: "file_name ?new = key" by (simp add: new_Metadata_def)
  obtain db0 where db0: "tbl db0 = tbl (n_db n)" "mc_Load mc ?new (n_db n) = Inr (STATUS_SUCCESS, md, db0)"
    using reliable_table.load_row [OF assms(1), of ?new "n_db n"] assms(4,6,7,12) by (auto simp: name)
  let ?n = "n\<lparr>n_db := db0, n_out := p\<rparr>"
  have "\<not> in_state BACKED_UP r" using assms(9) by (auto simp: in_state_def state_of_def)
  then obtain db where db: "updateState mc (with_row ?new key r) BACKED_UP ?n = (True, ?n\<lparr>n_db := db\<rparr>)"
      "tbl db = (tbl (n_db n))(key \<mapsto> set_state BACKED_UP r)"
    using reliable_table.finish_reliable [OF assms(1,4), of ?n r BACKED_UP ?new] assms(7) db0(1)
    by (auto simp: int_range_def)
  have "Reconcile e key n = Inr (False, ?n\<lparr>n_db := db\<rparr>)"
    using assms(2,3,5,8-11,13) db0(2) db(1)
    by (simp add: Reconcile_def status_defs reconcile_loaded_def checkDataCompletion_def Storage_Load_def
        reconcile_complete_def reconcile_cached_def backUp_def assms(12) Let_def)
  then show ?thesis using db(2) by (intro exI [of _ db]) simp
qed

section \<open>Property\<close>

text \<open>C5: A cached file of the node, worked on by \<open>Reconcile\<close> with the next node really at the other end:
  both sides run to their end, the table then says the file is backed up, nothing else of table
  and disk has changed, the next node has the file in its index and its name in its work queue,
  and the memory it announced holds the bytes of the node's block.\<close>

theorem cached_file_reaches_next_node:
  assumes "reliable_table mc tbl" and "e_client e = Inr mc" and "over_network xc e" and "1 < w_world_size (x_world xc)"
    and "clean key" and "key \<noteq> []" and "table_ok (tbl (n_db n))" and "tbl (n_db n) key = Some r"
    and "mr_rank r = rank_of e" and "state_of (mr_state r) = CACHED" and "0 < mr_size r"
    and "own_dict (n_store n) key = Some entry" and "md = with_row (new_Metadata (w_job_name (e_world e)) key) key r"
    and "read_block (n_mem n) (address entry) (mr_size r) = Inr bs" and "n_out n = gc"
    and "holds (g_mem gc) (address entry) bs"
    and "req = \<lparr>bk_metadata = md, bk_data_entry = entry, bk_only_metadata = False\<rparr>"
    and "\<forall>n. x_al xc n" and "\<forall>n. x_al xs n" and "modify_contract obs (x_modify xc)"
    and "modify_contract obs (x_modify xs)" and "nic_contract (x_nic xc)"
    and "backup_request_ok req" and "length (backup_request_bytes req) \<le> 2 ^ 63"
    and "getEndpoint (x_vars xc) ''rdma'' = Inr ep" and "getNextNode (x_resolve xc) (x_world xc) = Inr (Some peer)"
    and "g_dials gc = d # ds" and "connects d"
    and "link_ready obs xc (address entry) (mr_size r) (dialled (setAddr peer ep) d (g_nics gc)) (g_verbs gc) lc vc"
    and "mr_size r \<le> total_idle (mstat (g_mon gs))" and "backup_entry xs md gs = Inr (Some e', g1)"
    and "link_ready obs xs (address e') (mr_size r) ks (g_verbs g1) ls vs"
    and "op_ok (g_op gs)" and "ch_cap (op_queue (g_op gs)) = 0"
    and "talk (d_conn d) (code_answer STATUS_SUCCESS @ con_frame ls (k_ids ks) @ [81]) []"
    and "talk ks (backup_call req @ con_frame lc (k_ids (d_conn d)) @ [81] @ note_frame ''W'') []"
    and "dev_outstanding (k_dev (d_conn d)) = []" and "dev_remote (k_dev (d_conn d)) = g_mem gs"
    and "rdma_write (x_nic xc) (lc\<lparr>remote_props := local_con_data ls (k_ids ks)\<rparr>) (k_lkey (d_conn d)) (address entry) 0 0
           (mr_size r) ((k_dev (d_conn d))\<lparr>dev_local := g_mem gc\<rparr>) = Inr (Some (True, dv))"
    and "address entry \<noteq> 0" and "address e' \<noteq> 0" and "unat (address entry) + unat (mr_size r) < 2 ^ 64"
    and "unat (address e') + unat (mr_size r) \<le> 2 ^ 64"
  shows "\<exists>n' kc' ks' gs'. Reconcile e key n = Inr (False, n') \<and> n_disk n' = n_disk n \<and>
     tbl (n_db n') = (tbl (n_db n))(key \<mapsto> set_state BACKED_UP r) \<and>
     ClientUtil_Backup xc req STATUS_SUCCESS gc = finished ((True, STATUS_SUCCESS), Some kc', n_out n') \<and>
     serve_connection xs ks gs = finished (ks', gs') \<and>
     talk kc' [] (in_bytes (k_in ks)) \<and> talk ks' [] (in_bytes (k_in (d_conn d))) \<and>
     Storage_Load (my_rank xs) md (g_store gs') = Inr (Some e') \<and>
     ch_queue (op_queue (g_op gs')) = ch_queue (op_queue (g_op gs)) @ [key] \<and>
     holds (dev_remote (k_dev kc')) (address e') bs"
proof -
  have req: "\<not> bk_only_metadata req" "address (bk_data_entry req) = address entry" "bk_metadata req = md"
    using assms(17) by simp_all
  have md: "msize md = mr_size r" "file_name md = key" using assms(13) by simp_all
  obtain kc' gc' ks' gs' where both: "ClientUtil_Backup xc req STATUS_SUCCESS gc = finished ((True, STATUS_SUCCESS), Some kc', gc')"
      "serve_connection xs ks gs = finished (ks', gs')" "talk kc' [] (in_bytes (k_in ks))"
      "talk ks' [] (in_bytes (k_in (d_conn d)))" "Storage_Load (my_rank xs) md (g_store gs') = Inr (Some e')"
      "ch_queue (op_queue (g_op gs')) = ch_queue (op_queue (g_op gs)) @ [file_name md]"
      "dev_remote (k_dev kc') = transfer (g_mem gs) (address e') (g_mem gc) (address entry) (unat (mr_size r))"
    using backup_both_sides [OF assms(18-24) req md(1) assms(11,25-43)] by blast
  have world: "e_world e = x_world xc" and up: "e_backup e req (n_out n) = (True, gc')"
    using assms(3,15) both(1) by (auto simp: over_network_def)
  obtain db where rec: "Reconcile e key n = Inr (False, n\<lparr>n_db := db, n_out := gc'\<rparr>)"
      "tbl db = (tbl (n_db n))(key \<mapsto> set_state BACKED_UP r)"
    using Reconcile_backs_up [OF assms(1,2) _ assms(5-10) _ assms(12,13) up [unfolded assms(17)]] assms(4,11) world
    by (auto simp: word_neq_0_conv)
  have "length bs = unat (mr_size r)" using assms(14) by (auto simp: read_block_def split: option.splits if_splits)
  then have "holds (dev_remote (k_dev kc')) (address e') bs"
    using holds_transfer [OF assms(16), of "g_mem gs" "address e'"] both(7) unsigned_less [where 'a = nat, of "mr_size r"]
    by simp
  then show ?thesis using rec both(1-6) md(2) by (intro exI [of _ "n\<lparr>n_db := db, n_out := gc'\<rparr>"]) simp
qed


text \<open>A file of 64 bytes of node 0, backed up on node 1.\<close>

definition demo_cached :: meta_row where
  "demo_cached = \<lparr>mr_rank = 0, mr_iteration = ''7'', mr_state = state_code CACHED, mr_size = 64\<rparr>"

definition demo_block :: "byte list" where
  "demo_block = map (\<lambda>i. ucast (4096 + of_nat i :: size_t)) [0..<64]"

definition demo_here :: DataEntry where
  "demo_here = \<lparr>address = 4096, pid = 1, memfd = 5\<rparr>"

definition demo_owner :: "(mem_db, (mem_db, qp_state \<times> 32 word) engine) node" where
  "demo_owner = \<lparr>n_db = [(''f'', demo_cached)], n_store = \<lparr>own_dict = [''f'' \<mapsto> demo_here], backup_dict = Map.empty\<rparr>,
     n_mon = demo_monitor, n_mem = [4096 \<mapsto> demo_block], n_disk = Map.empty, n_out = demo_source\<rparr>"

definition demo_joined :: "(mem_db, (mem_db, qp_state \<times> 32 word) engine) env" where
  "demo_joined = network_env (demo_libs 0) (Inr (mysql_client mem_sql)) (\<lambda>_ _ p. (Open_fails, p))"

definition demo_request :: InterNodeBackupRequest where
  "demo_request = \<lparr>bk_metadata = with_row (new_Metadata ''job'' ''f'') ''f'' demo_cached, bk_data_entry = demo_here,
     bk_only_metadata = False\<rparr>"

definition demo_owner_says :: "byte list" where
  "demo_owner_says = backup_call demo_request @ con_frame (demo_created 4096) (demo_ids 7) @ [81] @ note_frame ''W''"

lemma demo_request_ok: "backup_request_ok demo_request \<and> length (backup_request_bytes demo_request) \<le> 2 ^ 63"
  by (simp add: backup_request_ok_def demo_request_def demo_cached_def with_row_def new_Metadata_def metadata_ok_def
      string_ok_def entry_ok_def int_range_def demo_here_def backup_request_bytes_def
      metadata_bytes_def entry_bytes_def bool_bytes_def string_bytes_def c_str_def state_of_def)

lemma demo_request_entry:
  "\<exists>g1. backup_entry (demo_libs 1) (bk_metadata demo_request) demo_target = Inr (Some demo_entry, g1) \<and>
     g_verbs g1 = \<lparr>fresh_id = 0, held = []\<rparr>"
  by (simp add: backup_entry_def demo_target_def demo_engine_def demo_libs_def demo_world_def my_rank_def
      Storage_Load_def storage_new_def allocate_def note_allocation_def TryMemfdMalloc_def enough_def
      collectMetric_def MemoryStat_new_def demo_request_def demo_cached_def new_Metadata_def memfdCalloc_def demo_entry_def
      new_DataEntry_def save_entry_def Storage_Save_def demo_cgroup_def count_usage_def status_defs Let_def)

lemma demo_block_held: "holds (\<lambda>a. ucast a) 4096 demo_block" "length demo_block = 64"
  by (simp_all add: holds_def demo_block_def)


lemma cached_file_reaches_next_node_witness:
  "\<exists>n' ks' gs' m. Reconcile demo_joined ''f'' demo_owner = Inr (False, n') \<and>
     map_of (n_db n') ''f'' = Some (set_state BACKED_UP demo_cached) \<and>
     serve_connection (demo_libs 1) (demo_conn demo_owner_says 8 demo_ready) demo_target = finished (ks', gs') \<and>
     Storage_Load 1 (bk_metadata demo_request) (g_store gs') = Inr (Some demo_entry) \<and>
     ch_queue (op_queue (g_op gs')) = [''f''] \<and> holds m 8192 demo_block"
proof -
  obtain g1 where g1: "backup_entry (demo_libs 1) (bk_metadata demo_request) demo_target = Inr (Some demo_entry, g1)"
      "g_verbs g1 = \<lparr>fresh_id = 0, held = []\<rparr>"
    using demo_request_entry by blast
  have net: "over_network (demo_libs 0) demo_joined" "e_client demo_joined = Inr (mysql_client mem_sql)"
      "1 < w_world_size (x_world (demo_libs 0))" "w_job_name (e_world demo_joined) = ''job''" "rank_of demo_joined = 0"
    by (simp_all add: demo_joined_def network_env_over) (simp_all add: network_env_def demo_libs_def demo_world_def rank_of_def)
  have row: "table_ok (map_of (n_db demo_owner))" "map_of (n_db demo_owner) ''f'' = Some demo_cached"
      "mr_rank demo_cached = rank_of demo_joined" "state_of (mr_state demo_cached) = CACHED" "0 < mr_size demo_cached"
      "own_dict (n_store demo_owner) ''f'' = Some demo_here" "clean ''f''"
      "bk_metadata demo_request = with_row (new_Metadata (w_job_name (e_world demo_joined)) ''f'') ''f'' demo_cached"
      "read_block (n_mem demo_owner) (address demo_here) (mr_size demo_cached) = Inr demo_block" "n_out demo_owner = demo_source"
      "holds (g_mem demo_source) (address demo_here) demo_block"
      "demo_request = \<lparr>bk_metadata = bk_metadata demo_request, bk_data_entry = demo_here, bk_only_metadata = False\<rparr>"
    using demo_block_held
    by (simp_all add: net demo_owner_def demo_cached_def table_ok_def row_ok_def int_range_def state_of_def clean_def demo_request_def
        demo_here_def read_block_def demo_source_def demo_engine_def)
  have "\<exists>n' kc' ks' gs'. Reconcile demo_joined ''f'' demo_owner = Inr (False, n') \<and> n_disk n' = n_disk demo_owner \<and>
     map_of (n_db n') = (map_of (n_db demo_owner))(''f'' \<mapsto> set_state BACKED_UP demo_cached) \<and>
     ClientUtil_Backup (demo_libs 0) demo_request STATUS_SUCCESS demo_source = finished ((True, STATUS_SUCCESS), Some kc', n_out n') \<and>
     serve_connection (demo_libs 1) (demo_conn demo_owner_says 8 demo_ready) demo_target = finished (ks', gs') \<and>
     talk kc' [] (in_bytes (k_in (demo_conn demo_owner_says 8 demo_ready))) \<and>
     talk ks' [] (in_bytes (k_in (d_conn (demo_dial demo_server_says)))) \<and>
     Storage_Load (my_rank (demo_libs 1)) (bk_metadata demo_request) (g_store gs') = Inr (Some demo_entry) \<and>
     ch_queue (op_queue (g_op gs')) = ch_queue (op_queue (g_op demo_target)) @ [''f''] \<and>
     holds (dev_remote (k_dev kc')) (address demo_entry) demo_block"
    by (rule cached_file_reaches_next_node [where obs = id and d = "demo_dial demo_server_says" and ds = "[]" and
        lc = "demo_created 4096" and ls = "demo_created 8192" and dv = demo_sent64 and req = demo_request,
        OF memrel.reliable_table_axioms net(2,1,3) row(7) _ row(1-6,8-12) _ _ _ _ _ _ _ demo_endpoint demo_peer _ _ _ _ g1(1)])
      (use demo_request_ok demo_link [of 1 8192 demo_owner_says 8 demo_ready] demo_write64 g1(2)
         demo_dialled [of 0 4096 _ demo_server_says "\<lambda>a. ucast a" "[]" "[demo_dial demo_server_says]"]
       in \<open>simp_all add: demo_contract demo_nic_contract demo_source_def demo_target_def demo_libs_def
        demo_dial_def demo_calls_def connects_def demo_entry_def demo_engine_def op_ok_def ch_ok_def demo_here_def demo_cached_def
        channel_new_def talk_def demo_conn_def demo_in_def demo_out_def demo_server_says_def demo_owner_says_def
        demo_ready_def demo_device_def\<close>)
  then show ?thesis
    by (auto simp: demo_libs_def my_rank_def demo_world_def demo_target_def demo_engine_def channel_new_def demo_entry_def)
qed


end
