(* ===== verification/Strings.thy ===== *)
theory Strings
  imports MetaClient
begin

text \<open>
  The texts of messages, the \<open>String()\<close> functions of \<open>src/api/api.cpp\<close>, which the log statements
  evaluate.  A state or routine without a name is a null pointer, which no stream may be given.
  How a stream shows a pointer is a parameter.
\<close>

section \<open>Names\<close>

definition RoutineString :: "size_t \<Rightarrow> string option" where
  "RoutineString r =
     (if r = routine_code INTER_NODE_BACKUP then Some ''INTER_NODE_BACKUP''
      else if r = routine_code INTER_NODE_LOAD then Some ''INTER_NODE_LOAD''
      else if r = routine_code INTER_NODE_BATCH_LOAD then Some ''INTER_NODE_BATCH_LOAD''
      else if r = routine_code INTER_NODE_NOTIFY_BACKUP then Some ''INTER_NODE_NOTIFY_BACKUP'' else None)"

text \<open>A C string put into a stream.\<close>

definition streamed :: "string option \<Rightarrow> string result" where
  "streamed s = (case s of None \<Rightarrow> Inl (UB ''null pointer put into a stream'') | Some t \<Rightarrow> Inr t)"

definition bool_text :: "bool \<Rightarrow> string" where
  "bool_text b = (if b then ''1'' else ''0'')"

section \<open>Texts of messages\<close>

definition Metadata_String :: "Metadata \<Rightarrow> string result" where
  "Metadata_String md =
     and_then (streamed (CheckpointStateString (state md))) (\<lambda>st.
       Inr (''JobName '' @ job_name md @ '' FileName '' @ file_name md @ '' NodeRank '' @ to_string (node_rank md) @
         '' Iteration '' @ iteration md @ '' state '' @ st @ '' size '' @ size_to_string (msize md)))"

definition DataEntry_String :: "(size_t \<Rightarrow> string) \<Rightarrow> DataEntry \<Rightarrow> string" where
  "DataEntry_String ptr e =
     ''Address '' @ ptr (address e) @ '' pid '' @ to_string (pid e) @ '' memfd '' @ to_string (memfd e)"

definition BackupRequest_String :: "(size_t \<Rightarrow> string) \<Rightarrow> InterNodeBackupRequest \<Rightarrow> string result" where
  "BackupRequest_String ptr r =
     and_then (Metadata_String (bk_metadata r)) (\<lambda>md.
       Inr (''metadata: '' @ md @ '' DataEntry: '' @ DataEntry_String ptr (bk_data_entry r) @
         '' OnlyMetadata: '' @ bool_text (bk_only_metadata r)))"

definition BackupResponse_String :: "int \<Rightarrow> string" where
  "BackupResponse_String code = ''Code '' @ to_string code"

definition LoadRequest_String :: "InterNodeLoadRequest \<Rightarrow> string result" where
  "LoadRequest_String r =
     and_then (Metadata_String (ld_metadata r)) (\<lambda>md.
       Inr (''Metadata'' @ md @ '' OnlyMetadata '' @ bool_text (ld_only_metadata r)))"

definition LoadResponse_String :: "(size_t \<Rightarrow> string) \<Rightarrow> InterNodeLoadResponse \<Rightarrow> string result" where
  "LoadResponse_String ptr r =
     and_then (Metadata_String (lr_metadata r)) (\<lambda>md.
       Inr (''Metadata: '' @ md @ '' DataEntry: '' @ DataEntry_String ptr (lr_data_entry r) @
         '' Code '' @ to_string (lr_code r)))"

definition Filter_String :: "BatchLoadFilter \<Rightarrow> string" where
  "Filter_String f =
     (if 0 \<le> ft_node_rank f then '' NodeRank: '' @ to_string (ft_node_rank f) else '''') @
     (if 0 < length (ft_iteration f) then '' Iteration '' @ ft_iteration f else '''') @
     (if state_code PENDING \<le> state_code (ft_state f) \<and> state_code (ft_state f) < state_code STATE_NUM
      then '' State '' @ to_string (state_code (ft_state f)) else '''')"

definition BatchLoadRequest_String :: "InterNodeBatchLoadRequest \<Rightarrow> string" where
  "BatchLoadRequest_String r =
     ''Filter '' @ Filter_String (bl_filter r) @ '' onlyMetadata '' @ bool_text (bl_only_metadata r)"

text \<open>The loop over the responses, from number \<open>i\<close>.\<close>

fun responses_String :: "(size_t \<Rightarrow> string) \<Rightarrow> nat \<Rightarrow> InterNodeLoadResponse list \<Rightarrow> string result" where
  "responses_String ptr i [] = Inr ''''"
| "responses_String ptr i (r # rs) =
     and_then (LoadResponse_String ptr r) (\<lambda>t. and_then (responses_String ptr (Suc i) rs) (\<lambda>ts.
       Inr (''No.'' @ to_string (int i) @ '': '' @ t @ [CHR 0x0A] @ '' '' @ ts)))"

definition BatchLoadResponse_String :: "(size_t \<Rightarrow> string) \<Rightarrow> InterNodeBatchLoadResponse \<Rightarrow> string result" where
  "BatchLoadResponse_String ptr r =
     and_then (responses_String ptr 0 (br_responses r)) (\<lambda>ts.
       Inr (''Size '' @ to_string (int (length (br_responses r))) @ '';'' @ ts @ ''Code '' @ to_string (br_code r)))"

definition NotifyBackupResponse_String :: "int \<Rightarrow> string" where
  "NotifyBackupResponse_String code = ''Code '' @ to_string code"

section \<open>When there is a text\<close>

definition named :: "CheckpointState \<Rightarrow> bool" where
  "named st \<longleftrightarrow> 0 \<le> state_code st \<and> state_code st \<le> 5"

lemma streamed_named: "state_ok st \<Longrightarrow> (\<exists>t. streamed (CheckpointStateString st) = Inr t) \<longleftrightarrow> named st"
  by (cases st) (auto simp: streamed_def named_def state_ok_def state_of_def split: if_splits)

text \<open>A message has a text if and only if the states in it have names; otherwise asking for it is
  undefined behaviour.\<close>

lemma Metadata_String_named:
  assumes "state_ok (state md)"
  shows "(\<exists>t. Metadata_String md = Inr t) \<longleftrightarrow> named (state md)"
    and "Metadata_String md = Inl e \<Longrightarrow> e = UB ''null pointer put into a stream''"
proof -
  show "(\<exists>t. Metadata_String md = Inr t) \<longleftrightarrow> named (state md)"
    using streamed_named [OF assms] by (auto simp: Metadata_String_def and_then_Inr_iff)
  show "Metadata_String md = Inl e \<Longrightarrow> e = UB ''null pointer put into a stream''"
    by (simp add: Metadata_String_def streamed_def split: option.splits)
qed

lemma responses_String_named:
  "list_all (\<lambda>r. state_ok (state (lr_metadata r))) rs \<Longrightarrow>
     (\<exists>t. responses_String ptr i rs = Inr t) \<longleftrightarrow> list_all (\<lambda>r. named (state (lr_metadata r))) rs"
proof (induction rs arbitrary: i)
  case Nil
  then show ?case by simp
next
  case (Cons r rs)
  then have "(\<exists>t. Metadata_String (lr_metadata r) = Inr t) \<longleftrightarrow> named (state (lr_metadata r))"
    by (intro Metadata_String_named(1)) simp
  moreover have "(\<exists>t. responses_String ptr (Suc i) rs = Inr t) \<longleftrightarrow> list_all (\<lambda>r. named (state (lr_metadata r))) rs"
    using Cons by simp
  ultimately show ?case by (auto simp: LoadResponse_String_def and_then_Inr_iff)
qed

text \<open>A filter has an empty text if and only if it restricts no column of the statement.\<close>

lemma Filter_String_empty: "Filter_String f = '''' \<longleftrightarrow> filter_terms f = []"
  by (simp add: Filter_String_def filter_terms_def)

text \<open>The loader of remote files asks with the state \<open>STATE_ANY\<close>, and the server that is asked logs the
  request: the text of each such request is undefined.\<close>

lemma loader_request_has_no_text:
  "state (ld_metadata r) = STATE_ANY \<Longrightarrow> LoadRequest_String r = Inl (UB ''null pointer put into a stream'')"
  by (simp add: LoadRequest_String_def Metadata_String_def streamed_def)

end
