(* ===== verification/Counters.thy ===== *)
theory Counters
  imports Monitor Text
begin

text \<open>
  Where the numbers of the memory monitor come from: the files of the memory cgroup, read through
  the monitor's text buffer (\<open>readAndSet\<close> in \<open>MemoryMonitor::collectMetric\<close> of
  \<open>src/monitor/monitor.cpp\<close>), the environment (the constructor), and the watcher thread of \<open>Start\<close>.
  \<open>files\<close> is the file system: the contents of the file of a path, \<open>None\<close> if it cannot be opened.
\<close>

section \<open>Reading a counter\<close>

definition MEM_CGROUP_DIR :: string where "MEM_CGROUP_DIR = ''/sys/fs/cgroup/memory/''"
definition MEM_WATCH_PERIOD_SECONDS :: nat where "MEM_WATCH_PERIOD_SECONDS = 1000000"
definition BUFFER_CHARS :: nat where "BUFFER_CHARS = 100"

text \<open>\<open>infile >> buffer_\<close>: the first word, with its terminator, goes into the 100 characters of the
  buffer; if the stream is not open or has no word the buffer keeps what it has.\<close>

definition extract_word :: "string option \<Rightarrow> string \<Rightarrow> string result" where
  "extract_word data buffer =
     (case data of None \<Rightarrow> Inr buffer
      | Some text \<Rightarrow>
        (let word = takeWhile (\<lambda>c. \<not> is_space c) (dropWhile is_space text) in
         if word = [] then Inr buffer
         else if BUFFER_CHARS \<le> length word then Inl (UB ''write beyond the buffer'') else Inr word))"

definition readAndSet :: "(string \<rightharpoonup> string) \<Rightarrow> string \<Rightarrow> string \<Rightarrow> (size_t \<times> string) result" where
  "readAndSet files name buffer =
     and_then (extract_word (files (MEM_CGROUP_DIR @ name)) buffer) (\<lambda>buffer.
     and_then (stoul buffer) (\<lambda>val. Inr (val, buffer)))"

section \<open>The monitor over its files\<close>

text \<open>\<open>collectMetric\<close> with its reads; \<open>pages\<close> and \<open>page_size\<close> are the answers of \<open>sysconf\<close>.  The limit is
  only read for the capacity.\<close>

definition collect_counters ::
  "(string \<rightharpoonup> string) \<Rightarrow> size_t \<Rightarrow> size_t \<Rightarrow> bool \<Rightarrow> string \<times> monitor \<Rightarrow> (string \<times> monitor) result" where
  "collect_counters files pages page_size collectCapacity = (\<lambda>(buffer, m).
     and_then (readAndSet files ''memory.usage_in_bytes'' buffer) (\<lambda>(usage, buffer).
     and_then (readAndSet files ''memory.max_usage_in_bytes'' buffer) (\<lambda>(max_usage, buffer).
     and_then (if collectCapacity then readAndSet files ''memory.limit_in_bytes'' buffer
               else Inr (0, buffer)) (\<lambda>(limit, buffer).
     Inr (buffer, collectMetric \<lparr>cg_usage = usage, cg_max_usage = max_usage, cg_limit = limit,
       cg_physical = pages * page_size\<rparr> collectCapacity m)))))"

text \<open>The constructor; the buffer is empty, the limit is a number of GB or absent.\<close>

definition MemoryMonitor_start ::
  "(string \<rightharpoonup> string) \<Rightarrow> (string \<rightharpoonup> string) \<Rightarrow> size_t \<Rightarrow> size_t \<Rightarrow> (string \<times> monitor) result" where
  "MemoryMonitor_start vars files pages page_size =
     (let user_limit = GetEnv vars ''CKPT_ENGINE_MEM_LIMIT_GB'' None in
      and_then (if length user_limit = 0 then Inr 0
                else and_then (stoul user_limit) (\<lambda>gb. Inr (gb * 1024 * 1024 * 1024))) (\<lambda>limit.
      collect_counters files pages page_size True ('''', \<lparr>user_limit = limit, mstat = MemoryStat_new\<rparr>)))"

section \<open>The watcher thread\<close>

text \<open>
  The loop of \<open>Start\<close>, for the rounds of a list: the clock at the start of the round, in nanoseconds,
  the files, and the clock after collecting.  Also returned: how often it has collected.
\<close>

type_synonym watch_round = "int \<times> (string \<rightharpoonup> string) \<times> int"

fun watch ::
  "size_t \<Rightarrow> size_t \<Rightarrow> watch_round list \<Rightarrow> int \<Rightarrow> string \<times> monitor \<Rightarrow> (nat \<times> int \<times> string \<times> monitor) result" where
  "watch pages page_size [] start_time s = Inr (0, start_time, s)"
| "watch pages page_size ((current_time, files, after) # rounds) start_time s =
     (if int MEM_WATCH_PERIOD_SECONDS * 10 ^ 9 \<le> current_time - start_time
      then and_then (collect_counters files pages page_size False s) (\<lambda>s.
           and_then (watch pages page_size rounds after s) (\<lambda>(k, r). Inr (Suc k, r)))
      else watch pages page_size rounds start_time s)"

section \<open>What is read\<close>

lemma digits_no_space:
  "is_space c \<Longrightarrow> list_all is_digit ds \<Longrightarrow> takeWhile (\<lambda>c. \<not> is_space c) (ds @ c # rest) = ds"
  by (induction ds) (auto dest: is_digit_not_space)

lemma size_to_string_digits: "list_all is_digit (size_to_string w) \<and> size_to_string w \<noteq> []"
  using dec_digits [of "unat w"] by (simp add: size_to_string_def)

lemma dec_length: "n < 10 ^ k \<Longrightarrow> 0 < k \<Longrightarrow> length (dec n) \<le> k"
proof (induction k arbitrary: n)
  case 0
  then show ?case by simp
next
  case (Suc k)
  show ?case
  proof (cases "n < 10")
    case True
    then show ?thesis by (subst dec.simps) simp
  next
    case False
    then have "n div 10 < 10 ^ k" "0 < k" using Suc.prems(1) by (auto intro: Suc_leI less_mult_imp_div_less gr0I)
    then have "length (dec (n div 10)) \<le> k" using Suc.IH by blast
    then show ?thesis using False by (subst dec.simps) simp
  qed
qed

lemma size_to_string_short: "length (size_to_string w) < BUFFER_CHARS"
proof -
  have "unat w < 2 ^ 64" using unsigned_less [where 'a = nat, of w] by simp
  then have "unat w < 10 ^ 20" by simp
  then show ?thesis using dec_length [of "unat w" 20] by (simp add: size_to_string_def BUFFER_CHARS_def)
qed

text \<open>A counter the kernel writes is read as it is; a file that cannot be opened gives the number read
  before it, or ends the process if there is none.\<close>

definition kernel_text :: "size_t \<Rightarrow> string" where
  "kernel_text w = size_to_string w @ [CHR 0x0A]"

lemma readAndSet_kernel:
  assumes "files (MEM_CGROUP_DIR @ name) = Some (kernel_text w)"
  shows "readAndSet files name buffer = Inr (w, size_to_string w)"
proof -
  obtain c cs where d: "size_to_string w = c # cs" "is_digit c"
    using size_to_string_digits [of w] by (cases "size_to_string w") auto
  have "takeWhile (\<lambda>c. \<not> is_space c) (size_to_string w @ [CHR 0x0A]) = size_to_string w"
    using digits_no_space [of "CHR 0x0A" "size_to_string w" "[]"] size_to_string_digits [of w] by (simp add: is_space_def)
  moreover have "dropWhile is_space (size_to_string w @ [CHR 0x0A]) = size_to_string w @ [CHR 0x0A]"
    using d is_digit_not_space by simp
  ultimately have "extract_word (Some (kernel_text w)) buffer = Inr (size_to_string w)"
    using size_to_string_short [of w] d(1) by (simp add: extract_word_def kernel_text_def Let_def)
  then show ?thesis using assms by (simp add: readAndSet_def stoul_size_to_string)
qed

lemma readAndSet_missing:
  "files (MEM_CGROUP_DIR @ name) = None \<Longrightarrow> readAndSet files name (size_to_string w) = Inr (w, size_to_string w)"
  "files (MEM_CGROUP_DIR @ name) = None \<Longrightarrow> readAndSet files name '''' = Inl (Fatal ''stoul: invalid argument'')"
  by (simp_all add: readAndSet_def extract_word_def stoul_size_to_string) (simp add: stoul_def)

section \<open>What the monitor starts with\<close>

text \<open>On a host whose memory cgroup has the three counters, the monitor starts with exactly them.\<close>

lemma MemoryMonitor_start_kernel:
  assumes "files (MEM_CGROUP_DIR @ ''memory.usage_in_bytes'') = Some (kernel_text usage)"
    and "files (MEM_CGROUP_DIR @ ''memory.max_usage_in_bytes'') = Some (kernel_text max_usage)"
    and "files (MEM_CGROUP_DIR @ ''memory.limit_in_bytes'') = Some (kernel_text limit)"
    and "vars ''CKPT_ENGINE_MEM_LIMIT_GB'' = map_option size_to_string gb"
  shows "MemoryMonitor_start vars files pages page_size =
    Inr (size_to_string limit, MemoryMonitor_new gb
      \<lparr>cg_usage = usage, cg_max_usage = max_usage, cg_limit = limit, cg_physical = pages * page_size\<rparr>)"
proof (cases gb)
  case None
  then show ?thesis
    using assms by (simp add: MemoryMonitor_start_def collect_counters_def readAndSet_kernel GetEnv_def MemoryMonitor_new_def)
next
  case (Some n)
  then show ?thesis
    using assms size_to_string_digits [of n]
    by (simp add: MemoryMonitor_start_def collect_counters_def readAndSet_kernel GetEnv_def MemoryMonitor_new_def
        stoul_size_to_string)
qed

text \<open>On a host without the counters (one with the second version of cgroups) it ends the process.\<close>

lemma MemoryMonitor_start_without_cgroup:
  assumes "files (MEM_CGROUP_DIR @ ''memory.usage_in_bytes'') = None" and "vars ''CKPT_ENGINE_MEM_LIMIT_GB'' = None"
  shows "MemoryMonitor_start vars files pages page_size = Inl (Fatal ''stoul: invalid argument'')"
  using assms readAndSet_missing(2)
  by (simp add: MemoryMonitor_start_def collect_counters_def GetEnv_def)

text \<open>With only the usage there, the greatest usage and the limit are taken to be the usage.\<close>

lemma MemoryMonitor_start_stale:
  assumes "files (MEM_CGROUP_DIR @ ''memory.usage_in_bytes'') = Some (kernel_text usage)"
    and "files (MEM_CGROUP_DIR @ ''memory.max_usage_in_bytes'') = None"
    and "files (MEM_CGROUP_DIR @ ''memory.limit_in_bytes'') = None" and "vars ''CKPT_ENGINE_MEM_LIMIT_GB'' = None"
  shows "MemoryMonitor_start vars files pages page_size =
    Inr (size_to_string usage, MemoryMonitor_new None
      \<lparr>cg_usage = usage, cg_max_usage = usage, cg_limit = usage, cg_physical = pages * page_size\<rparr>)"
  using assms
  by (simp add: MemoryMonitor_start_def collect_counters_def readAndSet_kernel readAndSet_missing GetEnv_def MemoryMonitor_new_def)

section \<open>How often the watcher collects\<close>

text \<open>The clock does not go back, within a round and from one round to the next, and ends at \<open>T\<close>.\<close>

fun clock_runs :: "int \<Rightarrow> watch_round list \<Rightarrow> int \<Rightarrow> bool" where
  "clock_runs t [] T \<longleftrightarrow> t \<le> T"
| "clock_runs t ((current_time, files, after) # rounds) T \<longleftrightarrow>
     t \<le> current_time \<and> current_time \<le> after \<and> clock_runs after rounds T"

lemma clock_runs_earlier: "clock_runs t rounds T \<Longrightarrow> t \<le> T"
  by (induction rounds arbitrary: t) force+

text \<open>The watcher collects at most once in a period, and never touches the account.\<close>

lemma watch_rate:
  "watch pages page_size rounds start_time s = Inr (k, start', buffer', m') \<Longrightarrow> clock_runs t rounds T \<Longrightarrow> start_time \<le> t \<Longrightarrow>
     int k * (int MEM_WATCH_PERIOD_SECONDS * 10 ^ 9) \<le> T - start_time"
proof (induction rounds arbitrary: start_time s k t)
  case Nil
  then show ?case by simp
next
  case (Cons r rounds)
  obtain current_time files after where r: "r = (current_time, files, after)" by (cases r)
  have clock: "t \<le> current_time" "current_time \<le> after" "clock_runs after rounds T" using Cons.prems(2) by (simp_all add: r)
  show ?case
  proof (cases "int MEM_WATCH_PERIOD_SECONDS * 10 ^ 9 \<le> current_time - start_time")
    case True
    then obtain s1 k1 where "watch pages page_size rounds after s1 = Inr (k1, start', buffer', m')" "k = Suc k1"
      using Cons.prems(1) by (auto simp: r and_then_Inr_iff)
    from Cons.IH [OF this(1) clock(3) order_refl]
    have "int k1 * (int MEM_WATCH_PERIOD_SECONDS * 10 ^ 9) \<le> T - after" .
    then show ?thesis using True clock(2) \<open>k = Suc k1\<close> by (simp add: algebra_simps)
  next
    case False
    then have "watch pages page_size rounds start_time s = Inr (k, start', buffer', m')"
      using Cons.prems(1) by (simp add: r)
    from Cons.IH [OF this clock(3)] show ?thesis using Cons.prems(3) clock(1,2) by simp
  qed
qed

lemma collect_counters_keeps:
  "collect_counters files pages page_size False (b, m) = Inr (b', m') \<Longrightarrow>
     self_total_usage (mstat m') = self_total_usage (mstat m) \<and> total_capacity (mstat m') = total_capacity (mstat m) \<and>
     user_limit m' = user_limit m"
  by (auto simp: collect_counters_def and_then_Inr_iff)

lemma watch_keeps_account:
  "watch pages page_size rounds start_time (b, m) = Inr (k, start', b', m') \<Longrightarrow>
     self_total_usage (mstat m') = self_total_usage (mstat m) \<and> total_capacity (mstat m') = total_capacity (mstat m) \<and>
     user_limit m' = user_limit m"
proof (induction rounds arbitrary: start_time b m k)
  case Nil
  then show ?case by simp
next
  case (Cons r rounds)
  obtain current_time files after where r: "r = (current_time, files, after)" by (cases r)
  show ?case
  proof (cases "int MEM_WATCH_PERIOD_SECONDS * 10 ^ 9 \<le> current_time - start_time")
    case True
    then obtain b1 m1 k1 where "collect_counters files pages page_size False (b, m) = Inr (b1, m1)"
        "watch pages page_size rounds after (b1, m1) = Inr (k1, start', b', m')"
      using Cons.prems by (auto simp: r and_then_Inr_iff)
    then show ?thesis using collect_counters_keeps Cons.IH by metis
  next
    case False
    then show ?thesis using Cons.prems Cons.IH by (simp add: r)
  qed
qed

end
