(* ===== verification/Cluster.thy ===== *)
theory Cluster
  imports Recovery
begin

text \<open>
  The start of a whole job: every node runs \<open>Coordinator::Run\<close> of \<open>src/coordinator/coordinator.cpp\<close>,
  which starts the server and then runs the two threads of \<open>bootstrap\<close>, and
  \<open>src/backend/main.cpp\<close> marks the node ready when both have ended.  The nodes share the metadata
  table; what one asks another is answered by the handlers of theory \<open>Handlers\<close> on the other's engine.
\<close>

section \<open>Nodes\<close>

text \<open>The thread that asks the previous node for its backups: before an attempt, with the pause of the
  next retry; asked and without an answer; done.\<close>

datatype asking = Before nat | Unanswered nat | Answered

text \<open>\<open>m_restoring\<close>: the pause of the thread that restores the node's own files, \<open>None\<close> when it has ended.\<close>

record ('db, 'q) member =
  m_engine :: "('db, 'q) engine"
  m_restoring :: "nat option"
  m_asking :: asking
  m_ready :: bool

record ('db, 'q) cluster =
  cl_db :: 'db
  cl_member :: "nat \<Rightarrow> ('db, 'q) member"

text \<open>A node's engine with the shared table, and the cluster after the node has worked on both.\<close>

definition engine_at :: "('db, 'q) cluster \<Rightarrow> nat \<Rightarrow> ('db, 'q) engine" where
  "engine_at c i = (m_engine (cl_member c i))\<lparr>g_db := cl_db c\<rparr>"

definition upd_member :: "nat \<Rightarrow> (('db, 'q) member \<Rightarrow> ('db, 'q) member) \<Rightarrow> ('db, 'q) cluster \<Rightarrow> ('db, 'q) cluster" where
  "upd_member i f c = c\<lparr>cl_member := (cl_member c)(i := f (cl_member c i))\<rparr>"

definition put_at :: "nat \<Rightarrow> ('db, 'q) engine \<Rightarrow> ('db, 'q) cluster \<Rightarrow> ('db, 'q) cluster" where
  "put_at i g c = (upd_member i (m_engine_update (\<lambda>_. g)) c)\<lparr>cl_db := g_db g\<rparr>"

definition next_of :: "('db, 'q) libs \<Rightarrow> nat" where
  "next_of x = nat (case next_rank (x_world x) of Inr i \<Rightarrow> i | Inl _ \<Rightarrow> 0)"

definition prev_of :: "('db, 'q) libs \<Rightarrow> nat" where
  "prev_of x = nat (prev_rank (x_world x))"

definition restore_request :: "('db, 'q) libs \<Rightarrow> InterNodeBatchLoadRequest" where
  "restore_request x = \<lparr>bl_filter = \<lparr>ft_node_rank = my_rank x, ft_iteration = '''', ft_state = STATE_ANY\<rparr>,
     bl_only_metadata = False\<rparr>"

text \<open>The pause after a failed question.\<close>

definition longer :: "nat \<Rightarrow> nat" where
  "longer w = (if w \<le> BOOTSTRAP_MAX_RETRY_INTERVAL_SECONDS then w * 2 else w)"

text \<open>A node at the start of \<open>bootstrap\<close>, which is skipped on request and on a single node.\<close>

definition started :: "('db, 'q) libs \<Rightarrow> ('db, 'q) engine \<Rightarrow> ('db, 'q) member" where
  "started x g =
     (if GetEnv (x_vars x) ''CKPT_ENGINE_SKIP_BOOTSTRAP'' (Some ''off'') = ''on'' \<or> w_world_size (x_world x) < 2
      then \<lparr>m_engine = g, m_restoring = None, m_asking = Answered, m_ready = False\<rparr>
      else \<lparr>m_engine = g, m_restoring = Some BOOTSTRAP_MIN_RETRY_INTERVAL_SECONDS,
             m_asking = Before BOOTSTRAP_MIN_RETRY_INTERVAL_SECONDS, m_ready = False\<rparr>)"

section \<open>Steps\<close>

text \<open>
  One attempt of one thread of one node, with the node it talks to; a connection that cannot be
  made or breaks; marking a node ready; a request to update a state, the only one the HTTP service
  takes from a node that is not ready and that changes something (of the names the table's
  statements can quote).  What a node does once it is ready is left open: anything.
  The conversation is the one the peer's handler makes it: what the client reads is what the
  handler has written.
\<close>

inductive cluster_step ::
  "(nat \<Rightarrow> ('db, 'q) libs) \<Rightarrow> 'db meta_client \<Rightarrow> nat \<Rightarrow> ('db, 'q) cluster \<Rightarrow> ('db, 'q) cluster \<Rightarrow> bool"
  for xs mc N where
  restore_from_next: "i < N \<Longrightarrow> m_restoring (cl_member c i) = Some w \<Longrightarrow> w \<le> BOOTSTRAP_MAX_RETRY_INTERVAL_SECONDS \<Longrightarrow>
    batch_answer (xs (next_of (xs i))) mc (restore_request (xs i)) (engine_at c (next_of (xs i))) = Inr (rsp, gn) \<Longrightarrow>
    connects d \<Longrightarrow> talk (d_conn d) (batch_reply rsp) [] \<Longrightarrow>
    retriveCheckpoint (xs i) ((engine_at (put_at (next_of (xs i)) gn c) i)\<lparr>g_dials := d # ds\<rparr>) = finished (ok, g) \<Longrightarrow>
    cluster_step xs mc N c
      (upd_member i (m_restoring_update (\<lambda>_. if ok then None else Some (w * 2))) (put_at i g (put_at (next_of (xs i)) gn c)))"
| next_unreachable: "i < N \<Longrightarrow> m_restoring (cl_member c i) = Some w \<Longrightarrow> w \<le> BOOTSTRAP_MAX_RETRY_INTERVAL_SECONDS \<Longrightarrow>
    cluster_step xs mc N c (upd_member i (m_restoring_update (\<lambda>_. Some (w * 2))) c)"
| restore_from_disk: "i < N \<Longrightarrow> m_restoring (cl_member c i) = Some w \<Longrightarrow> BOOTSTRAP_MAX_RETRY_INTERVAL_SECONDS < w \<Longrightarrow>
    retriveCheckpointFromFileSystem (xs i) (engine_at c i) = finished (ok, g) \<Longrightarrow>
    cluster_step xs mc N c (upd_member i (m_restoring_update (\<lambda>_. None)) (put_at i g c))"
| prev_silent: "i < N \<Longrightarrow> m_asking (cl_member c i) = Before w \<Longrightarrow> talk ks [] [] \<Longrightarrow>
    handleNotifyBackup (xs (prev_of (xs i))) ks (engine_at c (prev_of (xs i))) = finished (ks', gp) \<Longrightarrow>
    talk ks' [] [] \<Longrightarrow>
    cluster_step xs mc N c (upd_member i (m_asking_update (\<lambda>_. Unanswered w)) (put_at (prev_of (xs i)) gp c))"
| prev_answers: "i < N \<Longrightarrow> m_asking (cl_member c i) = Before w \<Longrightarrow> talk ks [] [] \<Longrightarrow>
    handleNotifyBackup (xs (prev_of (xs i))) ks (engine_at c (prev_of (xs i))) = finished (ks', gp) \<Longrightarrow>
    talk ks' [] answer \<Longrightarrow> answer \<noteq> [] \<Longrightarrow> connects d \<Longrightarrow> talk (d_conn d) answer [] \<Longrightarrow>
    triggerCheckpoint (xs i) ((engine_at (put_at (prev_of (xs i)) gp c) i)\<lparr>g_dials := d # ds\<rparr>) = finished (ok, g) \<Longrightarrow>
    cluster_step xs mc N c
      (upd_member i (m_asking_update (\<lambda>_. if ok then Answered else Before (longer w))) (put_at i g (put_at (prev_of (xs i)) gp c)))"
| question_fails: "i < N \<Longrightarrow> m_asking (cl_member c i) = Before w \<or> m_asking (cl_member c i) = Unanswered w \<Longrightarrow>
    cluster_step xs mc N c (upd_member i (m_asking_update (\<lambda>_. Before (longer w))) c)"
| mark_ready: "i < N \<Longrightarrow> m_restoring (cl_member c i) = None \<Longrightarrow> m_asking (cl_member c i) = Answered \<Longrightarrow>
    cluster_step xs mc N c (upd_member i (m_ready_update (\<lambda>_. True)) c)"
| state_reported: "i < N \<Longrightarrow> clean (hq_filename req) \<Longrightarrow> int_range (state_code (state_of (hq_checkpointstate req))) \<Longrightarrow>
    updateMetadata (xs i) req \<lparr>f_engine = engine_at c i, f_loader = l\<rparr> = finished (res, s) \<Longrightarrow>
    cluster_step xs mc N c (put_at i (f_engine s) c)"
| work: "i < N \<Longrightarrow> m_ready (cl_member c i) \<Longrightarrow> cluster_step xs mc N c c'"

text \<open>Node \<open>i\<close> of \<open>N\<close>, and a job that starts for the first time: no rows, no files.\<close>

definition node_ok :: "'db meta_client \<Rightarrow> nat \<Rightarrow> nat \<Rightarrow> ('db, 'q) libs \<Rightarrow> bool" where
  "node_ok mc N i x \<longleftrightarrow> w_world_size (x_world x) = int N \<and> w_node_rank (x_world x) = int i \<and>
     length (w_hosts (x_world x)) = N \<and> list_all (\<lambda>h. x_resolve x h \<noteq> None) (w_hosts (x_world x)) \<and>
     (\<forall>n. x_al x n) \<and> (\<exists>ep. getEndpoint (x_vars x) ''rdma'' = Inr ep) \<and> x_client x = Inr mc"

definition fresh :: "('db \<Rightarrow> string \<rightharpoonup> meta_row) \<Rightarrow> nat \<Rightarrow> ('db, 'q) cluster \<Rightarrow> bool" where
  "fresh tbl N c \<longleftrightarrow> tbl (cl_db c) = Map.empty \<and>
     (\<forall>i < N. own_dict (g_store (m_engine (cl_member c i))) = Map.empty \<and> \<not> m_ready (cl_member c i) \<and>
        m_asking (cl_member c i) \<noteq> Answered)"

lemma fresh_upd:
  "fresh tbl N c \<Longrightarrow> (\<And>m. own_dict (g_store (m_engine (f m))) = own_dict (g_store (m_engine m))) \<Longrightarrow>
     (\<And>m. \<not> m_ready m \<Longrightarrow> \<not> m_ready (f m)) \<Longrightarrow> (\<And>m. m_asking m \<noteq> Answered \<Longrightarrow> m_asking (f m) \<noteq> Answered) \<Longrightarrow>
     fresh tbl N (upd_member i f c)"
  by (auto simp: fresh_def upd_member_def)

lemma fresh_put:
  "fresh tbl N c \<Longrightarrow> tbl (g_db g) = Map.empty \<Longrightarrow> (i < N \<Longrightarrow> own_dict (g_store g) = Map.empty) \<Longrightarrow> fresh tbl N (put_at i g c)"
  by (auto simp: fresh_def put_at_def upd_member_def)

lemma fresh_engine:
  "fresh tbl N c \<Longrightarrow> i < N \<Longrightarrow> tbl (g_db (engine_at c i)) = Map.empty \<and> own_dict (g_store (engine_at c i)) = Map.empty"
  by (simp add: fresh_def engine_at_def)

section \<open>Every step of a fresh job\<close>

lemma node_world:
  assumes "node_ok mc N i x" and "i < N"
  shows "world_ok (x_world x)" "next_of x < N" "prev_of x < N" "\<exists>peer. getNextNode (x_resolve x) (x_world x) = Inr (Some peer)"
proof -
  show w: "world_ok (x_world x)" using assms by (simp add: world_ok_def node_ok_def)
  have nx: "next_rank (x_world x) = Inr ((int i + 1) mod int N)" using next_rank_ok [OF w] assms(1) by (simp add: node_ok_def)
  then show "next_of x < N" using assms(2) by (simp add: next_of_def nat_less_iff)
  have "prev_rank (x_world x) = (int i - 1) mod int N" using prev_rank_ok [OF w] assms(1) by (simp add: node_ok_def)
  then show "prev_of x < N" using assms(2) by (simp add: prev_of_def nat_less_iff)
  have "host_at (x_world x) ((int i + 1) mod int N) = Inr (w_hosts (x_world x) ! nat ((int i + 1) mod int N))"
    using host_at_ok [OF w] assms by (simp add: node_ok_def)
  moreover have "w_hosts (x_world x) ! nat ((int i + 1) mod int N) \<in> set (w_hosts (x_world x))"
    using assms by (simp add: node_ok_def nat_less_iff)
  ultimately show "\<exists>peer. getNextNode (x_resolve x) (x_world x) = Inr (Some peer)"
    using nx assms(1) by (auto simp: getNextNode_def node_ok_def list_all_iff)
qed

context meta_table
begin

lemma batch_empty:
  assumes "tbl db = Map.empty" and "int_range r"
  shows "\<exists>rc db'. mc_BatchLoad mc \<lparr>ft_node_rank = r, ft_iteration = '''', ft_state = STATE_ANY\<rparr> db = Inr (rc, [], db') \<and>
     tbl db' = Map.empty \<and> (rc = STATUS_NOT_FOUND \<or> rc = STATUS_UNKNOWN_ERROR)"
proof -
  let ?ft = "\<lparr>ft_node_rank = r, ft_iteration = '''', ft_state = STATE_ANY\<rparr>"
  have "filter_usable ?ft" "table_ok (tbl db)"
    using assms by (simp_all add: filter_usable_def clean_def table_ok_def)
  from batch [OF this] assms(1) obtain rc mds db' where b: "mc_BatchLoad mc ?ft db = Inr (rc, mds, db')" "tbl db' = Map.empty"
      "rc = STATUS_UNKNOWN_ERROR \<and> mds = [] \<or> rc = (if mds = [] then STATUS_NOT_FOUND else STATUS_SUCCESS) \<and> set mds = {}"
    by fastforce
  then show ?thesis by auto
qed

end

text \<open>What the three calls of a node come to.\<close>

lemma reply_of_nothing:
  assumes "meta_table mc tbl" and "tbl (g_db g) = Map.empty" and "int_range (my_rank x)"
    and "batch_answer y mc (restore_request x) g = Inr (rsp, g')"
  shows "br_responses rsp = [] \<and> (br_code rsp = STATUS_NOT_FOUND \<or> br_code rsp = STATUS_UNKNOWN_ERROR) \<and>
     tbl (g_db g') = Map.empty \<and> g_store g' = g_store g"
proof -
  obtain rc db' where b: "mc_BatchLoad mc (bl_filter (restore_request x)) (g_db g) = Inr (rc, [], db')"
      "tbl db' = Map.empty" "rc = STATUS_NOT_FOUND \<or> rc = STATUS_UNKNOWN_ERROR"
    using meta_table.batch_empty [OF assms(1,2,3)] by (auto simp: restore_request_def)
  then show ?thesis using assms(4) by (auto simp: batch_answer_def new_BatchLoadResponse_def status_defs Let_def)
qed

lemma retriveCheckpoint_nothing:
  assumes "node_ok mc N i x" and "i < N" and "N < 2 ^ 31" and "g_dials g = d # ds" and "connects d"
    and "talk (d_conn d) (batch_reply rsp) []" and "br_responses rsp = []"
    and "br_code rsp = STATUS_NOT_FOUND \<or> br_code rsp = STATUS_UNKNOWN_ERROR"
    and "retriveCheckpoint x g = finished (ok, g')"
  shows "g_store g' = g_store g \<and> g_db g' = g_db g"
proof -
  obtain ep peer where x: "\<forall>n. x_al x n" "getEndpoint (x_vars x) ''rdma'' = Inr ep"
      "getNextNode (x_resolve x) (x_world x) = Inr (Some peer)"
    using assms(1) node_world(4) [OF assms(1,2)] by (auto simp: node_ok_def)
  have ok: "batch_response_ok rsp" using assms(7,8) by (auto simp: batch_response_ok_def int_range_def status_defs)
  have small: "length (batch_request_bytes (restore_request x)) \<le> 2 ^ 63" "length (batch_response_bytes rsp) \<le> 2 ^ 63"
    using assms(7) by (simp_all add: batch_request_bytes_def batch_response_bytes_def responses_bytes_def filter_bytes_def
        restore_request_def bool_bytes_def string_bytes_def c_str_def)
  let ?g0 = "g\<lparr>g_nics := snd (ChooseNic (g_nics g)), g_dials := ds\<rparr>"
  have "(if br_code rsp = STATUS_UNKNOWN_ERROR then finished (False, ?g0)
      else if bl_only_metadata (restore_request x) then finished (True, ?g0)
      else load_tasks x (br_responses rsp) ?g0) = finished (br_code rsp \<noteq> STATUS_UNKNOWN_ERROR, ?g0)"
    using assms(7) by (simp add: restore_request_def)
  from BatchLoadRemote_asks [OF x assms(4-6) small ok refl this]
  show ?thesis using assms(9) by (auto simp: retriveCheckpoint_def restore_request_def finished_iffs split: if_splits)
qed

lemma file_system_nothing:
  assumes "meta_table mc tbl" and "x_client x = Inr mc" and "tbl (g_db g) = Map.empty" and "int_range (my_rank x)"
    and "retriveCheckpointFromFileSystem x g = finished (ok, g')"
  shows "tbl (g_db g') = Map.empty \<and> g_store g' = g_store g"
proof -
  obtain rc db' where b: "mc_BatchLoad mc \<lparr>ft_node_rank = my_rank x, ft_iteration = '''', ft_state = STATE_ANY\<rparr> (g_db g) =
      Inr (rc, [], db')" "tbl db' = Map.empty"
    using meta_table.batch_empty [OF assms(1,3,4)] by auto
  then show ?thesis
    using assms(2,5) by (auto simp: retriveCheckpointFromFileSystem_def BatchLoadFromFileSystem_def finished_iffs split: if_splits)
qed

lemma notify_silent:
  assumes "meta_table mc tbl" and "x_client x = Inr mc" and "tbl (g_db g) = Map.empty" and "int_range (my_rank x)"
    and "own_dict (g_store g) = Map.empty" and "handleNotifyBackup x k g = finished (k', g')"
  shows "k' = k \<and> tbl (g_db g') = Map.empty \<and> g_store g' = g_store g"
proof -
  obtain rc db' where b: "mc_BatchLoad mc (everything_of (my_rank x)) (g_db g) = Inr (rc, [], db')" "tbl db' = Map.empty"
    using meta_table.batch_empty [OF assms(1,3,4)] by (auto simp: everything_of_def)
  have "cache_incomplete [] (g_store g)" using assms(5) by (simp add: cache_incomplete_def)
  from handleNotifyBackup_silent [OF assms(2) b(1) this] assms(6) b(2) show ?thesis by auto
qed

lemma update_nothing:
  assumes "meta_table mc tbl" and "x_client x = Inr mc" and "tbl (g_db g) = Map.empty"
    and "clean (hq_filename req)" and "int_range (state_code (state_of (hq_checkpointstate req)))"
    and "updateMetadata x req \<lparr>f_engine = g, f_loader = l\<rparr> = finished (res, s)"
  shows "tbl (g_db (f_engine s)) = Map.empty \<and> g_store (f_engine s) = g_store g"
proof -
  obtain rc db where u: "mc_UpdateState mc (hq_filename req) (state_of (hq_checkpointstate req)) (g_db g) = (rc, db)"
    by fastforce
  then have "tbl db = Map.empty" using meta_table.update [OF assms(1,4,5) u] assms(3) by auto
  then show ?thesis
    using assms(2,6) u by (auto simp: updateMetadata_def finished_iffs Let_def put_db_def split: if_splits)
qed

lemma fresh_step:
  assumes "cluster_step xs mc N c c'" and "meta_table mc tbl" and "\<forall>i < N. node_ok mc N i (xs i)" and "N < 2 ^ 31"
    and f: "fresh tbl N c"
  shows "fresh tbl N c'"
  using assms(1)
proof cases
  case (restore_from_next i w rsp gn d ds ok g)
  let ?nx = "next_of (xs i)"
  have node: "node_ok mc N i (xs i)" using assms(3) restore_from_next(2) by blast
  have nx: "?nx < N" using node_world(2) [OF node restore_from_next(2)] .
  have range: "int_range (my_rank (xs i))"
    using node restore_from_next(2) assms(4) by (simp add: node_ok_def my_rank_def int_range_def)
  have reply: "br_responses rsp = []" "br_code rsp = STATUS_NOT_FOUND \<or> br_code rsp = STATUS_UNKNOWN_ERROR"
      "tbl (g_db gn) = Map.empty" "g_store gn = g_store (engine_at c ?nx)"
    using reply_of_nothing [OF assms(2) _ range restore_from_next(5)] fresh_engine [OF f nx] by auto
  have f1: "fresh tbl N (put_at ?nx gn c)"
    by (rule fresh_put [OF f]) (use reply(3,4) fresh_engine [OF f nx] in simp_all)
  let ?g = "engine_at (put_at ?nx gn c) i"
  have "g_store g = g_store ?g \<and> g_db g = g_db ?g"
    using retriveCheckpoint_nothing [OF node restore_from_next(2) assms(4) _ restore_from_next(6,7) reply(1,2) restore_from_next(8)]
    by simp
  then have "fresh tbl N (put_at i g (put_at ?nx gn c))"
    using fresh_engine [OF f1 restore_from_next(2)] by (intro fresh_put [OF f1]) simp_all
  then show ?thesis unfolding restore_from_next(1) by (rule fresh_upd) simp_all
next
  case (next_unreachable i w)
  show ?thesis unfolding next_unreachable(1) by (rule fresh_upd [OF f]) simp_all
next
  case (restore_from_disk i w ok g)
  have node: "node_ok mc N i (xs i)" using assms(3) restore_from_disk(2) by blast
  then have x: "x_client (xs i) = Inr mc" "int_range (my_rank (xs i))"
    using restore_from_disk(2) assms(4) by (simp_all add: node_ok_def my_rank_def int_range_def)
  have "tbl (g_db g) = Map.empty \<and> g_store g = g_store (engine_at c i)"
    using file_system_nothing [OF assms(2) x(1) _ x(2) restore_from_disk(5)] fresh_engine [OF f restore_from_disk(2)] by simp
  then have "fresh tbl N (put_at i g c)"
    using fresh_engine [OF f restore_from_disk(2)] by (intro fresh_put [OF f]) simp_all
  then show ?thesis unfolding restore_from_disk(1) by (rule fresh_upd) simp_all
next
  case (prev_silent i w ks ks' gp)
  let ?pv = "prev_of (xs i)"
  have pv: "?pv < N" using node_world(3) assms(3) prev_silent(2) by blast
  then have x: "x_client (xs ?pv) = Inr mc" "int_range (my_rank (xs ?pv))"
    using assms(3,4) by (auto simp: node_ok_def my_rank_def int_range_def)
  have "tbl (g_db gp) = Map.empty \<and> g_store gp = g_store (engine_at c ?pv)"
    using notify_silent [OF assms(2) x(1) _ x(2) _ prev_silent(5)] fresh_engine [OF f pv] by simp
  then have "fresh tbl N (put_at ?pv gp c)"
    using fresh_engine [OF f pv] by (intro fresh_put [OF f]) simp_all
  then show ?thesis unfolding prev_silent(1) by (rule fresh_upd) simp_all
next
  case (prev_answers i w ks ks' gp answer d ds ok g)
  let ?pv = "prev_of (xs i)"
  have pv: "?pv < N" using node_world(3) assms(3) prev_answers(2) by blast
  then have x: "x_client (xs ?pv) = Inr mc" "int_range (my_rank (xs ?pv))"
    using assms(3,4) by (auto simp: node_ok_def my_rank_def int_range_def)
  have "ks' = ks"
    using notify_silent [OF assms(2) x(1) _ x(2) _ prev_answers(5)] fresh_engine [OF f pv] by simp
  then have "answer = []" using prev_answers(4,6) by (simp add: talk_def)
  then show ?thesis using prev_answers(7) by simp
next
  case (question_fails i w)
  show ?thesis unfolding question_fails(1) by (rule fresh_upd [OF f]) simp_all
next
  case (mark_ready i)
  then show ?thesis using f by (simp add: fresh_def)
next
  case (state_reported i req l res s)
  have "x_client (xs i) = Inr mc" using assms(3) state_reported(2) by (simp add: node_ok_def)
  then have "tbl (g_db (f_engine s)) = Map.empty \<and> g_store (f_engine s) = g_store (engine_at c i)"
    using update_nothing [OF assms(2) _ _ state_reported(3-5)] fresh_engine [OF f state_reported(2)] by blast
  then show ?thesis unfolding state_reported(1)
    using fresh_engine [OF f state_reported(2)] by (intro fresh_put [OF f]) simp_all
next
  case (work i)
  then show ?thesis using f by (simp add: fresh_def)
qed

section \<open>Property\<close>

text \<open>C6: A job of several nodes that starts for the first time, with an empty table and no file in any
  memory, never gets ready: each node waits for the answer of the previous one to its question for
  backups, which a node without files does not give.  Whatever the nodes have done, none is ready,
  and a request to create a file is refused on each of them, with the note that the bootstrap
  timed out.\<close>

theorem fresh_job_never_ready:
  assumes "meta_table mc tbl" and "\<forall>i < N. node_ok mc N i (xs i)" and "N < 2 ^ 31"
    and "tbl (cl_db c0) = Map.empty"
    and "\<forall>i < N. cl_member c0 i = started (xs i) (engines i) \<and> own_dict (g_store (engines i)) = Map.empty \<and>
           GetEnv (x_vars (xs i)) ''CKPT_ENGINE_SKIP_BOOTSTRAP'' (Some ''off'') \<noteq> ''on''"
    and "2 \<le> N"
    and "(cluster_step xs mc N)\<^sup>*\<^sup>* c0 c" and "i < N"
  shows "\<not> m_ready (cl_member c i) \<and>
    createMetadata (xs i) (\<lambda>_. m_ready (cl_member c i)) others req s =
      refuse not_ready_message (-1) 7 (elapse others 0 7 s)"
proof -
  have "\<not> w_world_size (x_world (xs i)) < 2" if "i < N" for i using assms(2,6) that by (auto simp: node_ok_def)
  then have "fresh tbl N c0" using assms(4,5) by (auto simp: fresh_def started_def)
  with assms(7) have "fresh tbl N c"
  proof (induction rule: rtranclp_induct)
    case base
    then show ?case .
  next
    case (step c1 c2)
    then show ?case using fresh_step [OF step.hyps(2) assms(1-3)] by blast
  qed
  then have "\<not> m_ready (cl_member c i)" using assms(8) by (simp add: fresh_def)
  then show ?thesis
    by (simp add: createMetadata_def when_ready_def wait_ready_run Let_def eval_nat_numeral)
qed


text \<open>Two nodes; node 0 asks node 1.\<close>

definition demo_job :: "nat \<Rightarrow> (mem_db, qp_state \<times> 32 word) libs" where
  "demo_job i = demo_libs (int i)"

definition demo_blank :: "nat \<Rightarrow> (mem_db, qp_state \<times> 32 word) engine" where
  "demo_blank i = demo_engine (\<lambda>_. 0) [] []"

definition demo_launch :: "(mem_db, qp_state \<times> 32 word) cluster" where
  "demo_launch = \<lparr>cl_db = [], cl_member = (\<lambda>i. started (demo_job i) (demo_blank i))\<rparr>"

definition demo_asked :: "(mem_db, qp_state \<times> 32 word) cluster" where
  "demo_asked = upd_member 0 (m_asking_update (\<lambda>_. Unanswered 1)) (put_at 1 ((demo_blank 1)\<lparr>g_db := []\<rparr>) demo_launch)"

lemma demo_job_ok: "i < 2 \<Longrightarrow> node_ok (mysql_client mem_sql) 2 i (demo_job i)"
  using demo_endpoint by (auto simp: node_ok_def demo_job_def demo_libs_def demo_world_def)

lemma demo_no_table: "mc_BatchLoad (mysql_client mem_sql) (everything_of 1) [] = Inr (STATUS_NOT_FOUND, [], [])"
proof -
  have "filter_usable (everything_of 1)" by (simp add: filter_usable_def everything_of_def int_range_def clean_def)
  from mem_sql_parsed [OF parse_batch [OF this], of "[]"] show ?thesis
    by (simp add: mysql_client_def MysqlClient_BatchLoad_def)
qed

lemma demo_asks: "cluster_step demo_job (mysql_client mem_sql) 2 demo_launch demo_asked"
proof -
  let ?ks = "demo_conn [] 8 demo_ready"
  have prev: "prev_of (demo_job 0) = 1" by (simp add: prev_of_def prev_rank_def demo_job_def demo_libs_def demo_world_def)
  have asking: "m_asking (cl_member demo_launch 0) = Before 1"
    by (simp add: demo_launch_def started_def demo_job_def demo_libs_def demo_world_def GetEnv_def
        BOOTSTRAP_MIN_RETRY_INTERVAL_SECONDS_def)
  have engine: "engine_at demo_launch 1 = (demo_blank 1)\<lparr>g_db := []\<rparr>"
    by (simp add: engine_at_def demo_launch_def started_def)
  have rank: "my_rank (demo_job 1) = 1" and client: "x_client (demo_job 1) = Inr (mysql_client mem_sql)"
    by (simp_all only: my_rank_def demo_job_def demo_libs_def demo_world_def libs.simps world.simps of_nat_1)
  have none: "mc_BatchLoad (mysql_client mem_sql) (everything_of (my_rank (demo_job 1))) (g_db (engine_at demo_launch 1)) =
      Inr (STATUS_NOT_FOUND, [], [])"
    unfolding rank engine by (simp add: demo_no_table)
  have "cache_incomplete [] (g_store (engine_at demo_launch 1))"
    unfolding engine by (simp add: cache_incomplete_def demo_blank_def demo_engine_def storage_new_def)
  from handleNotifyBackup_silent [OF client none this, of ?ks]
  have handled: "handleNotifyBackup (demo_job 1) ?ks (engine_at demo_launch 1) = finished (?ks, (demo_blank 1)\<lparr>g_db := []\<rparr>)"
    unfolding engine by simp
  have quiet: "talk ?ks [] []" by (simp add: talk_def demo_conn_def demo_in_def demo_out_def)
  show ?thesis
    unfolding demo_asked_def
    using prev_silent [OF _ asking quiet, of 2 demo_job ?ks "(demo_blank 1)\<lparr>g_db := []\<rparr>" "mysql_client mem_sql", unfolded prev]
      handled quiet by (simp del: One_nat_def)
qed

lemma fresh_job_never_ready_witness:
  "cluster_step demo_job (mysql_client mem_sql) 2 demo_launch demo_asked \<and> \<not> m_ready (cl_member demo_asked 0) \<and>
   createMetadata (demo_job 0) (\<lambda>_. False) (\<lambda>_ s. s) demo_create demo_front =
     refuse not_ready_message (-1) 7 (elapse (\<lambda>_ s. s) 0 7 demo_front)"
proof -
  have start: "\<forall>i < 2. cl_member demo_launch i = started (demo_job i) (demo_blank i) \<and>
      own_dict (g_store (demo_blank i)) = Map.empty \<and>
      GetEnv (x_vars (demo_job i)) ''CKPT_ENGINE_SKIP_BOOTSTRAP'' (Some ''off'') \<noteq> ''on''"
    by (simp add: demo_launch_def demo_blank_def demo_engine_def storage_new_def demo_job_def demo_libs_def GetEnv_def)
  have jobs: "\<forall>i < 2. node_ok (mysql_client mem_sql) 2 i (demo_job i)" using demo_job_ok by blast
  have empty: "map_of (cl_db demo_launch) = Map.empty" by (simp add: demo_launch_def)
  have asked: "(cluster_step demo_job (mysql_client mem_sql) 2)\<^sup>*\<^sup>* demo_launch demo_asked"
    by (rule r_into_rtranclp [of "cluster_step demo_job (mysql_client mem_sql) 2" demo_launch demo_asked, OF demo_asks])
  have "\<not> m_ready (cl_member demo_asked 0) \<and>
      createMetadata (demo_job 0) (\<lambda>_. m_ready (cl_member demo_asked 0)) (\<lambda>_ s. s) demo_create demo_front =
        refuse not_ready_message (-1) 7 (elapse (\<lambda>_ s. s) 0 7 demo_front)"
    by (rule fresh_job_never_ready [OF memdb.meta_table_axioms jobs _ empty start _ asked]) simp_all
  moreover from this have "m_ready (cl_member demo_asked 0) = False" by simp
  ultimately show ?thesis using demo_asks by simp
qed

end
