(* ===== verification/Wakeups.thy ===== *)
theory Wakeups
  imports Channel
begin

text \<open>
  How the threads over a channel wait: \<open>waitBeforeRead\<close>, \<open>notify_one\<close> and \<open>close\<close> of
  \<open>include/util/channel.h\<close> with the mutex and the condition variable, for the unbounded channels of
  \<open>Server::handleNotifyBackup\<close> and \<open>ClientUtil::BatchLoadRemote\<close>.  A reader looks at the channel and
  goes to sleep under the mutex, but \<open>close\<close> does not take the mutex: it can come in between.  Wake-ups
  without a notification, which the language allows and does not promise, are left out.
\<close>

section \<open>Readers and the writer\<close>

text \<open>
  A reader in \<open>operator!=\<close> and in \<open>operator*\<close>: about to take the mutex, holding it after it has found
  nothing, asleep.  Then: about to notify after a read, handling, out of its loop.
\<close>

datatype 'a reader =
    Test | Test_deciding | Test_asleep
  | Deref | Deref_deciding | Deref_asleep
  | Notifying "'a option" | Working "'a option" | Ended

text \<open>The writer: about to push the rest or to close; to notify after a push; to notify after closing.\<close>

datatype 'a writer = Producing "'a list" | Notify_push "'a list" | Notify_close | Gone

record 'a wksys =
  wk_ch :: "'a channel"
  wk_writer :: "'a writer"
  wk_readers :: "nat \<Rightarrow> 'a reader"
  wk_got :: "'a option list"

definition wk_init :: "'a list \<Rightarrow> 'a wksys" where
  "wk_init xs = \<lparr>wk_ch = channel_new 0, wk_writer = Producing xs, wk_readers = (\<lambda>_. Test), wk_got = []\<rparr>"

fun deciding :: "'a reader \<Rightarrow> bool" where
  "deciding Test_deciding = True"
| "deciding Deref_deciding = True"
| "deciding _ = False"

fun asleep :: "'a reader \<Rightarrow> bool" where
  "asleep Test_asleep = True"
| "asleep Deref_asleep = True"
| "asleep _ = False"

fun woken :: "'a reader \<Rightarrow> 'a reader" where
  "woken Test_asleep = Test"
| "woken Deref_asleep = Deref"
| "woken c = c"

definition put_reader :: "nat \<Rightarrow> 'a reader \<Rightarrow> 'a wksys \<Rightarrow> 'a wksys" where
  "put_reader i c s = s\<lparr>wk_readers := (wk_readers s)(i := c)\<rparr>"

text \<open>The mutex is held between finding nothing and going to sleep; every other critical section is
  one step.\<close>

definition locked :: "nat \<Rightarrow> 'a wksys \<Rightarrow> bool" where
  "locked n s \<longleftrightarrow> list_ex (\<lambda>i. deciding (wk_readers s i)) [0..<n]"

text \<open>\<open>notify_one\<close> wakes one of the sleepers, whichever; the possible outcomes.\<close>

definition notify_one :: "nat \<Rightarrow> 'a wksys \<Rightarrow> 'a wksys list" where
  "notify_one n s =
     (let sleepers = filter (\<lambda>i. asleep (wk_readers s i)) [0..<n] in
      if sleepers = [] then [s] else map (\<lambda>i. put_reader i (woken (wk_readers s i)) s) sleepers)"

definition notify_all :: "'a wksys \<Rightarrow> 'a wksys" where
  "notify_all s = s\<lparr>wk_readers := (\<lambda>i. woken (wk_readers s i))\<rparr>"

inductive wk_step :: "nat \<Rightarrow> 'a wksys \<Rightarrow> 'a wksys \<Rightarrow> bool" for n where
  push: "wk_writer s = Producing (x # xs) \<Longrightarrow> \<not> locked n s \<Longrightarrow> ch_write x (wk_ch s) = Written ch \<Longrightarrow>
    wk_step n s (s\<lparr>wk_ch := ch, wk_writer := Notify_push xs\<rparr>)"
| notify_push: "wk_writer s = Notify_push xs \<Longrightarrow> t \<in> set (notify_one n s) \<Longrightarrow>
    wk_step n s (t\<lparr>wk_writer := Producing xs\<rparr>)"
| closing: "wk_writer s = Producing [] \<Longrightarrow>
    wk_step n s (s\<lparr>wk_ch := ch_close (wk_ch s), wk_writer := Notify_close\<rparr>)"
| notify_close: "wk_writer s = Notify_close \<Longrightarrow> wk_step n s ((notify_all s)\<lparr>wk_writer := Gone\<rparr>)"
| test: "i < n \<Longrightarrow> wk_readers s i = Test \<Longrightarrow> \<not> locked n s \<Longrightarrow> iter_test (wk_ch s) = Some go \<Longrightarrow>
    wk_step n s (put_reader i (if go then Deref else Ended) s)"
| test_decide: "i < n \<Longrightarrow> wk_readers s i = Test \<Longrightarrow> \<not> locked n s \<Longrightarrow> \<not> read_ready (wk_ch s) \<Longrightarrow>
    wk_step n s (put_reader i Test_deciding s)"
| test_sleep: "i < n \<Longrightarrow> wk_readers s i = Test_deciding \<Longrightarrow> wk_step n s (put_reader i Test_asleep s)"
| deref_nothing: "i < n \<Longrightarrow> wk_readers s i = Deref \<Longrightarrow> ch_closed (wk_ch s) \<Longrightarrow> ch_empty (wk_ch s) \<Longrightarrow>
    wk_step n s (put_reader i (Working None) s)"
| deref: "i < n \<Longrightarrow> wk_readers s i = Deref \<Longrightarrow> \<not> locked n s \<Longrightarrow> ch_read (wk_ch s) = Read_result v ch \<Longrightarrow>
    wk_step n s (put_reader i (Notifying v) (s\<lparr>wk_ch := ch\<rparr>))"
| deref_decide: "i < n \<Longrightarrow> wk_readers s i = Deref \<Longrightarrow> \<not> locked n s \<Longrightarrow> \<not> read_ready (wk_ch s) \<Longrightarrow>
    wk_step n s (put_reader i Deref_deciding s)"
| deref_sleep: "i < n \<Longrightarrow> wk_readers s i = Deref_deciding \<Longrightarrow> wk_step n s (put_reader i Deref_asleep s)"
| notify_read: "i < n \<Longrightarrow> wk_readers s i = Notifying v \<Longrightarrow> t \<in> set (notify_one n s) \<Longrightarrow>
    wk_step n s (put_reader i (Working v) t)"
| working: "i < n \<Longrightarrow> wk_readers s i = Working v \<Longrightarrow>
    wk_step n s (put_reader i Test (s\<lparr>wk_got := wk_got s @ [v]\<rparr>))"

inductive_cases wk_stepE: "wk_step n s t"

section \<open>A reader that waits is a reader that looks again\<close>

text \<open>Forgetting mutex and sleep gives the system of theory \<open>Channel\<close>.\<close>

fun seen_reader :: "'a reader \<Rightarrow> 'a consumer" where
  "seen_reader Test = At_test"
| "seen_reader Test_deciding = At_test"
| "seen_reader Test_asleep = At_test"
| "seen_reader Deref = At_deref"
| "seen_reader Deref_deciding = At_deref"
| "seen_reader Deref_asleep = At_deref"
| "seen_reader (Notifying v) = Handling v"
| "seen_reader (Working v) = Handling v"
| "seen_reader Ended = Finished"

fun still :: "'a writer \<Rightarrow> 'a list" where
  "still (Producing xs) = xs"
| "still (Notify_push xs) = xs"
| "still Notify_close = []"
| "still Gone = []"

definition seen :: "'a wksys \<Rightarrow> 'a chsys" where
  "seen s = \<lparr>sys_ch = wk_ch s, sys_todo = still (wk_writer s), sys_cons = (\<lambda>i. seen_reader (wk_readers s i)),
     sys_got = wk_got s\<rparr>"

fun pushing :: "'a writer \<Rightarrow> bool" where
  "pushing (Producing _) = True"
| "pushing (Notify_push _) = True"
| "pushing _ = False"

lemma seen_reader_woken [simp]: "seen_reader (woken c) = seen_reader c"
  by (cases c) simp_all

lemma put_reader_simps [simp]:
  "wk_ch (put_reader i c s) = wk_ch s" "wk_writer (put_reader i c s) = wk_writer s"
  "wk_got (put_reader i c s) = wk_got s" "wk_readers (put_reader i c s) = (wk_readers s)(i := c)"
  by (simp_all add: put_reader_def)

lemma notify_all_simps [simp]:
  "wk_ch (notify_all s) = wk_ch s" "wk_writer (notify_all s) = wk_writer s" "wk_got (notify_all s) = wk_got s"
  "wk_readers (notify_all s) i = woken (wk_readers s i)"
  by (simp_all add: notify_all_def)

lemma seen_put: "seen (put_reader i c s) = set_cons i (seen_reader c) (seen s)"
  by (simp add: seen_def set_cons_def fun_eq_iff)

lemma notify_oneE:
  assumes "t \<in> set (notify_one n s)"
  obtains (nobody) "t = s" "\<And>i. i < n \<Longrightarrow> \<not> asleep (wk_readers s i)"
    | (wakes) i where "i < n" "asleep (wk_readers s i)" "t = put_reader i (woken (wk_readers s i)) s"
  using assms by (auto simp: notify_one_def Let_def filter_empty_conv split: if_splits)

lemma seen_notified: "t \<in> set (notify_one n s) \<Longrightarrow> seen t = seen s \<and> wk_ch t = wk_ch s \<and> wk_writer t = wk_writer s \<and> wk_got t = wk_got s"
  by (erule notify_oneE) (simp_all add: seen_def fun_eq_iff)

lemma locked_iff: "locked n s \<longleftrightarrow> (\<exists>i<n. deciding (wk_readers s i))"
  by (auto simp: locked_def list_ex_iff)

text \<open>Somebody is awake and still in his loop.\<close>

definition active :: "nat \<Rightarrow> 'a wksys \<Rightarrow> bool" where
  "active n s \<longleftrightarrow> (\<exists>i<n. \<not> asleep (wk_readers s i) \<and> wk_readers s i \<noteq> Ended)"

text \<open>What is not closed is still written to; who holds the mutex and who has ended has seen an empty
  queue; and as long as the queue is not empty somebody is awake, or about to be woken.\<close>

definition wk_inv :: "nat \<Rightarrow> 'a wksys \<Rightarrow> bool" where
  "wk_inv n s \<longleftrightarrow> ch_ok (wk_ch s) \<and> ch_cap (wk_ch s) = 0 \<and> (pushing (wk_writer s) \<longleftrightarrow> \<not> ch_closed (wk_ch s)) \<and>
     (locked n s \<longrightarrow> ch_queue (wk_ch s) = []) \<and>
     ((\<exists>i<n. wk_readers s i = Ended) \<longrightarrow> ch_closed (wk_ch s) \<and> ch_queue (wk_ch s) = []) \<and>
     (ch_queue (wk_ch s) \<noteq> [] \<longrightarrow> active n s \<or> (\<exists>xs. wk_writer s = Notify_push xs))"

lemma wk_inv_init: "wk_inv n (wk_init xs)"
  by (simp add: wk_inv_def wk_init_def locked_iff channel_new_def ch_ok_def)

lemma woken_facts [simp]:
  "\<not> asleep (woken c)" "\<not> deciding c \<Longrightarrow> \<not> deciding (woken c)" "asleep c \<Longrightarrow> \<not> deciding c" "woken c = Ended \<longleftrightarrow> c = Ended"
  "deciding (woken c) = deciding c"
  by (cases c; simp)+

text \<open>A reader that stays awake and in its loop.\<close>

lemma active_put: "i < n \<Longrightarrow> \<not> asleep c \<Longrightarrow> c \<noteq> Ended \<Longrightarrow> active n (put_reader i c s)"
  by (auto simp: active_def)

lemma wk_inv_put:
  assumes "wk_inv n s" and "i < n" and "\<not> asleep c" and "c \<noteq> Ended" and "\<not> deciding c"
  shows "wk_inv n (put_reader i c s)"
  using assms active_put [OF assms(2-4), of s] by (auto simp: wk_inv_def locked_iff)

lemma wk_inv_notified: "wk_inv n s \<Longrightarrow> t \<in> set (notify_one n s) \<Longrightarrow> wk_inv n t"
  by (erule notify_oneE) (auto intro!: wk_inv_put elim: asleep.elims)

lemma not_ready: "ch_ok ch \<Longrightarrow> \<not> read_ready ch \<longleftrightarrow> ch_queue ch = [] \<and> \<not> ch_closed ch"
  by (auto simp: read_ready_def ch_empty_iff)

text \<open>A reader that goes to sleep or ends does so when the queue is empty.\<close>

lemma wk_inv_empty:
  assumes "wk_inv n s" and "ch_queue (wk_ch s) = []" and "c = Ended \<longrightarrow> ch_closed (wk_ch s)"
  shows "wk_inv n (put_reader i c s)"
  using assms by (auto simp: wk_inv_def)

lemma wk_inv_read:
  assumes "wk_inv n s" and "i < n" and "\<not> locked n s" and "ch_read (wk_ch s) = Read_result v ch"
  shows "wk_inv n (put_reader i (Notifying v) (s\<lparr>wk_ch := ch\<rparr>))"
proof -
  have ok: "ch_ok (wk_ch s)" using assms(1) by (simp add: wk_inv_def)
  have "ch_ok ch" "ch_cap ch = ch_cap (wk_ch s)" "ch_closed ch = ch_closed (wk_ch s)"
    using ch_ok_read [OF ok assms(4)] ch_read_keeps [OF assms(4)] by simp_all
  moreover have "ch_queue (wk_ch s) = [] \<longrightarrow> ch_queue ch = []" using ch_read_result [OF ok assms(4)] by auto
  moreover have "active n (put_reader i (Notifying v) (s\<lparr>wk_ch := ch\<rparr>))" by (rule active_put [OF assms(2)]) simp_all
  ultimately show ?thesis using assms(1,3) by (auto simp: wk_inv_def locked_iff)
qed

lemma wk_inv_step:
  assumes "wk_step n s t" and inv: "wk_inv n s" and "0 < n"
  shows "wk_inv n t"
  using assms(1)
proof (cases rule: wk_step.cases)
  case (push x xs ch)
  then show ?thesis
    using inv ch_ok_write [OF _ push(4)] ch_write_Written [OF push(4)]
    by (auto simp: wk_inv_def locked_iff push_locked_def)
next
  case (notify_push xs u)
  have u: "wk_inv n u" "wk_ch u = wk_ch s" using wk_inv_notified [OF inv notify_push(3)] seen_notified [OF notify_push(3)] by auto
  have "active n u" if "ch_queue (wk_ch s) \<noteq> []"
    using notify_push(3)
  proof (cases rule: notify_oneE)
    case nobody
    have "wk_readers s 0 \<noteq> Ended" using inv that assms(3) by (auto simp: wk_inv_def)
    then show ?thesis using nobody assms(3) by (auto simp: active_def)
  next
    case (wakes i)
    then show ?thesis by (auto simp: active_def intro!: exI [of _ i])
  qed
  then show ?thesis using u seen_notified [OF notify_push(3)] notify_push by (auto simp: wk_inv_def locked_iff active_def)
next
  case closing
  then show ?thesis using inv by (simp add: wk_inv_def locked_iff active_def) (simp add: ch_close_def)
next
  case notify_close
  have "active n (notify_all s)" if "active n s" using that by (fastforce simp: active_def elim: asleep.elims)
  then show ?thesis using inv notify_close by (auto simp: wk_inv_def locked_iff active_def)
next
  case (test i go)
  then show ?thesis
    using inv iter_test_Some [of "wk_ch s" go] wk_inv_put [OF inv test(2), of Deref] wk_inv_empty [OF inv, of Ended i]
    by (auto simp: wk_inv_def)
next
  case (test_decide i)
  then show ?thesis using inv not_ready [of "wk_ch s"] by (auto intro!: wk_inv_empty simp: wk_inv_def)
next
  case (test_sleep i)
  then have "locked n s" by (auto simp: locked_iff)
  then show ?thesis using test_sleep inv by (auto intro!: wk_inv_empty simp: wk_inv_def)
next
  case (deref_nothing i)
  then show ?thesis using wk_inv_put [OF inv deref_nothing(2)] by simp
next
  case (deref i v ch)
  then show ?thesis using wk_inv_read [OF inv] by simp
next
  case (deref_decide i)
  then show ?thesis using inv not_ready [of "wk_ch s"] by (auto intro!: wk_inv_empty simp: wk_inv_def)
next
  case (deref_sleep i)
  then have "locked n s" by (auto simp: locked_iff)
  then show ?thesis using deref_sleep inv by (auto intro!: wk_inv_empty simp: wk_inv_def)
next
  case (notify_read i v u)
  then show ?thesis using wk_inv_put [OF wk_inv_notified [OF inv notify_read(4)] notify_read(2)] by simp
next
  case (working i v)
  have "wk_inv n (put_reader i Test s)" using wk_inv_put [OF inv working(2)] by simp
  then show ?thesis using working by (simp add: wk_inv_def locked_iff active_def put_reader_def)
qed

section \<open>The simulation\<close>

lemma seen_simps [simp]:
  "sys_ch (seen s) = wk_ch s" "sys_todo (seen s) = still (wk_writer s)" "sys_got (seen s) = wk_got s"
  "sys_cons (seen s) i = seen_reader (wk_readers s i)"
  by (simp_all add: seen_def)

text \<open>Every step is a step of the system of theory \<open>Channel\<close>, or one that it does not see.\<close>

lemma wk_step_seen:
  assumes "wk_step n s t" and inv: "wk_inv n s"
  shows "ch_step n (seen s) (seen t) \<or> seen t = seen s"
  using assms(1)
proof (cases rule: wk_step.cases)
  case (push x xs ch)
  have "seen t = (seen s)\<lparr>sys_ch := ch, sys_todo := xs\<rparr>" using push by (simp add: seen_def)
  then show ?thesis using ch_step.produce [of "seen s" x xs ch n] push by simp
next
  case (notify_push xs u)
  then have "seen t = seen s" using seen_notified [OF notify_push(3)] by (simp add: seen_def)
  then show ?thesis ..
next
  case closing
  have "seen t = (seen s)\<lparr>sys_ch := ch_close (wk_ch s)\<rparr>" using closing by (simp add: seen_def)
  then show ?thesis using ch_step.finish [of "seen s" n] closing inv by (simp add: wk_inv_def)
next
  case notify_close
  then have "seen t = seen s" by (simp add: seen_def)
  then show ?thesis ..
next
  case (test i go)
  then have "seen t = set_cons i (if go then At_deref else Finished) (seen s)" by (simp add: seen_put)
  then show ?thesis using ch_step.test [of i n "seen s" go] test by simp
next
  case (test_decide i)
  then have "seen t = seen s" by (simp add: seen_def fun_eq_iff)
  then show ?thesis ..
next
  case (test_sleep i)
  then have "seen t = seen s" by (simp add: seen_def fun_eq_iff)
  then show ?thesis ..
next
  case (deref_nothing i)
  then have "seen t = set_cons i (Handling None) ((seen s)\<lparr>sys_ch := wk_ch s\<rparr>)" by (simp add: seen_put)
  then show ?thesis using ch_step.deref [of i n "seen s" None "wk_ch s"] deref_nothing by (simp add: ch_read_def)
next
  case (deref i v ch)
  then have "seen t = set_cons i (Handling v) ((seen s)\<lparr>sys_ch := ch\<rparr>)" by (simp add: seen_put) (simp add: seen_def)
  then show ?thesis using ch_step.deref [of i n "seen s" v ch] deref by simp
next
  case (deref_decide i)
  then have "seen t = seen s" by (simp add: seen_def fun_eq_iff)
  then show ?thesis ..
next
  case (deref_sleep i)
  then have "seen t = seen s" by (simp add: seen_def fun_eq_iff)
  then show ?thesis ..
next
  case (notify_read i v u)
  have "wk_readers u i = Notifying v"
    using notify_read(4,3) by (cases rule: notify_oneE) auto
  then have "seen t = seen s" using notify_read seen_notified [OF notify_read(4)] by (simp add: seen_put set_cons_def)
      (simp add: seen_def fun_eq_iff)
  then show ?thesis ..
next
  case (working i v)
  then have "seen t = set_cons i At_test ((seen s)\<lparr>sys_got := sys_got (seen s) @ [v]\<rparr>)" by (simp add: seen_put) (simp add: seen_def)
  then show ?thesis using ch_step.handle [of i n "seen s" v] working by simp
qed

lemma seen_init: "seen (wk_init xs) = sys_init 0 xs"
  by (simp add: seen_def wk_init_def sys_init_def)

text \<open>So what is reached is, as theory \<open>Channel\<close> sees it, reached there.\<close>

lemma wk_reached:
  assumes "(wk_step n)\<^sup>*\<^sup>* (wk_init xs) s" and "0 < n"
  shows "wk_inv n s \<and> ch_reach n 0 xs (seen s)"
  using assms(1)
proof (induction rule: rtranclp_induct)
  case base
  show ?case using wk_inv_init [of n xs] ch_reach.start [of n 0 xs] by (simp add: seen_init)
next
  case (step s t)
  have "wk_inv n t" using wk_inv_step step.hyps(2) step.IH assms(2) by blast
  moreover have "ch_reach n 0 xs (seen t)"
    using wk_step_seen [OF step.hyps(2)] step.IH by (metis ch_reach.step)
  ultimately show ?case ..
qed

section \<open>Who waits when nothing moves any more\<close>

lemma notify_one_some: "\<exists>t. t \<in> set (notify_one n s)"
  by (cases "notify_one n s") (auto simp: notify_one_def Let_def split: if_splits)

lemma reader_moves:
  assumes "\<not> locked n s" and "i < n" and "wk_readers s i \<noteq> Ended" and "\<not> asleep (wk_readers s i)"
  shows "\<exists>t. wk_step n s t"
proof (cases "wk_readers s i")
  case Test
  show ?thesis
  proof (cases "read_ready (wk_ch s)")
    case True
    then obtain go where "iter_test (wk_ch s) = Some go" by (simp add: iter_test_def)
    then show ?thesis using wk_step.test [OF assms(2) Test assms(1)] by blast
  next
    case False
    then show ?thesis using wk_step.test_decide [OF assms(2) Test assms(1)] by blast
  qed
next
  case Deref
  show ?thesis
  proof (cases "ch_read (wk_ch s)")
    case Read_waits
    then have "\<not> read_ready (wk_ch s)" by (auto simp: ch_read_def split: if_splits)
    then show ?thesis using wk_step.deref_decide [OF assms(2) Deref assms(1)] by blast
  next
    case (Read_result v ch)
    then show ?thesis using wk_step.deref [OF assms(2) Deref assms(1)] by blast
  qed
next
  case (Notifying v)
  obtain t where "t \<in> set (notify_one n s)" using notify_one_some by blast
  then show ?thesis using wk_step.notify_read [OF assms(2) Notifying] by blast
next
  case (Working v)
  then show ?thesis using wk_step.working [OF assms(2)] by blast
qed (use assms in \<open>auto simp: locked_iff\<close>)

lemma writer_moves:
  assumes "wk_inv n s" and "\<not> locked n s" and "wk_writer s \<noteq> Gone"
  shows "\<exists>t. wk_step n s t"
proof (cases "wk_writer s")
  case (Producing xs)
  show ?thesis
  proof (cases xs)
    case Nil
    then show ?thesis using wk_step.closing Producing by blast
  next
    case (Cons x ys)
    then have "ch_write x (wk_ch s) = Written (push_locked x (wk_ch s))"
      using assms(1) Producing by (simp add: ch_write_def wk_inv_def write_ready_def)
    then show ?thesis using wk_step.push [OF _ assms(2)] Producing Cons by blast
  qed
next
  case (Notify_push xs)
  obtain t where "t \<in> set (notify_one n s)" using notify_one_some by blast
  then show ?thesis using wk_step.notify_push [OF Notify_push] by blast
next
  case Notify_close
  then show ?thesis using wk_step.notify_close by blast
next
  case Gone
  then show ?thesis using assms(3) by simp
qed

lemma mutex_released: "locked n s \<Longrightarrow> \<exists>t. wk_step n s t"
  unfolding locked_iff by (metis deciding.elims(2) wk_step.test_sleep wk_step.deref_sleep)

definition halted :: "nat \<Rightarrow> 'a wksys \<Rightarrow> bool" where
  "halted n s \<longleftrightarrow> (\<nexists>t. wk_step n s t)"

text \<open>Who is left sleeps or has ended; the writer is done and nothing is left in the queue.\<close>

lemma halted_facts:
  assumes "halted n s" and "wk_inv n s"
  shows "wk_writer s = Gone \<and> ch_closed (wk_ch s) \<and> ch_queue (wk_ch s) = [] \<and>
    (\<forall>i<n. wk_readers s i = Ended \<or> asleep (wk_readers s i))"
proof -
  have free: "\<not> locked n s" using mutex_released assms(1) by (auto simp: halted_def)
  have all: "\<forall>i<n. wk_readers s i = Ended \<or> asleep (wk_readers s i)"
    using reader_moves [OF free] assms(1) by (auto simp: halted_def)
  have gone: "wk_writer s = Gone" using writer_moves [OF assms(2) free] assms(1) by (auto simp: halted_def)
  then show ?thesis using all assms(2) by (auto simp: wk_inv_def active_def)
qed

section \<open>Every run ends\<close>

text \<open>
  What is still to be done, in two phases: until the channel is closed and empty, and from then on.
  A reader counts the steps it can make before it sleeps, a notification those it can cause.
\<close>

fun open_cost :: "'a reader \<Rightarrow> nat" where
  "open_cost Test = 3"
| "open_cost Test_deciding = 1"
| "open_cost Test_asleep = 0"
| "open_cost Deref = 2"
| "open_cost Deref_deciding = 1"
| "open_cost Deref_asleep = 0"
| "open_cost (Notifying v) = 8"
| "open_cost (Working v) = 4"
| "open_cost Ended = 0"

fun shut_cost :: "'a reader \<Rightarrow> nat" where
  "shut_cost Test = 1"
| "shut_cost Test_deciding = 2"
| "shut_cost Test_asleep = 1"
| "shut_cost Deref = 4"
| "shut_cost Deref_deciding = 5"
| "shut_cost Deref_asleep = 4"
| "shut_cost (Notifying v) = 3"
| "shut_cost (Working v) = 2"
| "shut_cost Ended = 0"

fun writer_cost :: "nat \<Rightarrow> 'a writer \<Rightarrow> nat" where
  "writer_cost n (Producing xs) = 12 * length xs + 3 * n + 2"
| "writer_cost n (Notify_push xs) = 12 * length xs + 3 * n + 6"
| "writer_cost n Notify_close = 3 * n + 1"
| "writer_cost n Gone = 0"

definition readers_cost :: "('a reader \<Rightarrow> nat) \<Rightarrow> nat \<Rightarrow> 'a wksys \<Rightarrow> nat" where
  "readers_cost f n s = (\<Sum>i<n. f (wk_readers s i))"

definition shut :: "'a wksys \<Rightarrow> bool" where
  "shut s \<longleftrightarrow> ch_closed (wk_ch s) \<and> ch_queue (wk_ch s) = []"

definition to_do :: "nat \<Rightarrow> 'a wksys \<Rightarrow> nat \<times> nat" where
  "to_do n s =
     (if shut s then (0, readers_cost shut_cost n s + (if wk_writer s = Gone then 0 else 1))
      else (1, readers_cost open_cost n s + 7 * length (ch_queue (wk_ch s)) + writer_cost n (wk_writer s)))"

lemma cost_put: "i < n \<Longrightarrow> readers_cost f n (put_reader i c s) + f (wk_readers s i) = readers_cost f n s + f c"
  by (simp add: readers_cost_def sum_thread del: fun_upd_apply)

lemma cost_simps [simp]:
  "readers_cost f n (s\<lparr>wk_ch := ch\<rparr>) = readers_cost f n s" "readers_cost f n (s\<lparr>wk_writer := w\<rparr>) = readers_cost f n s"
  "readers_cost f n (s\<lparr>wk_got := vs\<rparr>) = readers_cost f n s"
  by (simp_all add: readers_cost_def)

lemma woken_cost: "open_cost (woken c) \<le> open_cost c + 3" "shut_cost (woken c) \<le> shut_cost c"
  by (cases c; simp)+

lemma cost_notified:
  assumes "t \<in> set (notify_one n s)" and "\<And>c. f (woken c) \<le> f c + d"
  shows "readers_cost f n t \<le> readers_cost f n s + d"
  using assms(1)
proof (cases rule: notify_oneE)
  case nobody
  then show ?thesis by simp
next
  case (wakes i)
  then show ?thesis using cost_put [OF wakes(1), of f "woken (wk_readers s i)" s] assms(2) [of "wk_readers s i"] by simp
qed

lemma cost_notified_open: "t \<in> set (notify_one n s) \<Longrightarrow> readers_cost open_cost n t \<le> readers_cost open_cost n s + 3"
  using cost_notified [of t n s open_cost 3] by (simp add: woken_cost(1))

lemma cost_notified_shut: "t \<in> set (notify_one n s) \<Longrightarrow> readers_cost shut_cost n t \<le> readers_cost shut_cost n s"
  using cost_notified [of t n s shut_cost 0] by (simp add: woken_cost(2))

lemma cost_notify_all:
  assumes "\<And>c. f (woken c) \<le> f c + d"
  shows "readers_cost f n (notify_all s) \<le> readers_cost f n s + d * n"
proof -
  have "readers_cost f n (notify_all s) \<le> (\<Sum>i<n. f (wk_readers s i) + d)"
    unfolding readers_cost_def notify_all_simps by (intro sum_mono assms)
  then show ?thesis by (simp add: readers_cost_def sum.distrib mult.commute)
qed

definition less_to_do :: "((nat \<times> nat) \<times> (nat \<times> nat)) set" where
  "less_to_do = less_than <*lex*> less_than"

lemma wf_less_to_do: "wf less_to_do"
  by (simp add: less_to_do_def wf_lex_prod)

text \<open>What one reader does, with the channel left alone.\<close>

lemma put_less:
  assumes "i < n" and "open_cost c < open_cost (wk_readers s i) \<or> shut s"
    and "shut_cost c < shut_cost (wk_readers s i) \<or> \<not> shut s"
  shows "(to_do n (put_reader i c s), to_do n s) \<in> less_to_do"
  using assms cost_put [OF assms(1), of open_cost c s] cost_put [OF assms(1), of shut_cost c s]
  by (auto simp: less_to_do_def to_do_def shut_def)

lemma to_do_less:
  assumes "wk_step n s t" and inv: "wk_inv n s"
  shows "(to_do n t, to_do n s) \<in> less_to_do"
  using assms(1)
proof (cases rule: wk_step.cases)
  case (push x xs ch)
  then have "ch = push_locked x (wk_ch s)" "\<not> ch_closed (wk_ch s)" using ch_write_Written [OF push(4)] by auto
  then show ?thesis using push by (simp add: less_to_do_def to_do_def shut_def push_locked_def)
next
  case (notify_push xs u)
  then have "\<not> ch_closed (wk_ch s)" using inv by (simp add: wk_inv_def)
  then show ?thesis
    using notify_push cost_notified_open [OF notify_push(3)] seen_notified [OF notify_push(3)]
    by (simp add: less_to_do_def to_do_def shut_def)
next
  case closing
  then have "\<not> ch_closed (wk_ch s)" using inv by (simp add: wk_inv_def)
  then show ?thesis using closing by (simp add: less_to_do_def to_do_def shut_def) (simp add: ch_close_def)
next
  case notify_close
  have "readers_cost open_cost n (notify_all s) \<le> readers_cost open_cost n s + 3 * n"
    "readers_cost shut_cost n (notify_all s) \<le> readers_cost shut_cost n s"
    using cost_notify_all [of open_cost 3 n s] cost_notify_all [of shut_cost 0 n s] by (simp_all add: woken_cost)
  then show ?thesis using notify_close by (auto simp: less_to_do_def to_do_def shut_def)
next
  case (test i go)
  have "ch_ok (wk_ch s)" using inv by (simp add: wk_inv_def)
  with test have "go \<and> \<not> shut s \<or> \<not> go \<and> shut s" using iter_test_Some [of "wk_ch s" go] by (auto simp: shut_def)
  then show ?thesis using test put_less [OF test(2), of Deref s] put_less [OF test(2), of Ended s] by auto
next
  case (test_decide i)
  have "\<not> shut s" using test_decide inv not_ready [of "wk_ch s"] by (simp add: shut_def wk_inv_def)
  then show ?thesis using test_decide put_less [OF test_decide(2), of Test_deciding s] by simp
next
  case (test_sleep i)
  then show ?thesis using put_less [OF test_sleep(2), of Test_asleep s] by simp
next
  case (deref_nothing i)
  then have "shut s" using inv ch_empty_iff [of "wk_ch s"] by (simp add: shut_def wk_inv_def)
  then show ?thesis using deref_nothing put_less [OF deref_nothing(2), of "Working None" s] by simp
next
  case (deref i v ch)
  have "ch_ok (wk_ch s)" using inv by (simp add: wk_inv_def)
  from ch_read_result [OF this deref(5)] show ?thesis
  proof (elim disjE exE conjE)
    assume "v = None" "ch_queue (wk_ch s) = []" "ch_closed (wk_ch s)" "ch = wk_ch s"
    then show ?thesis using put_less [OF deref(2), of "Notifying v" s] deref by (simp add: shut_def)
  next
    fix x
    assume q: "ch_queue (wk_ch s) = x # ch_queue ch"
    then show ?thesis
      using deref cost_put [OF deref(2), of open_cost "Notifying v" "s\<lparr>wk_ch := ch\<rparr>"]
      by (auto simp: less_to_do_def to_do_def shut_def)
  qed
next
  case (deref_decide i)
  have "\<not> shut s" using deref_decide inv not_ready [of "wk_ch s"] by (simp add: shut_def wk_inv_def)
  then show ?thesis using deref_decide put_less [OF deref_decide(2), of Deref_deciding s] by simp
next
  case (deref_sleep i)
  then show ?thesis using put_less [OF deref_sleep(2), of Deref_asleep s] by simp
next
  case (notify_read i v u)
  have "wk_readers u i = Notifying v" using notify_read(4,3) by (cases rule: notify_oneE) auto
  then show ?thesis
    using notify_read seen_notified [OF notify_read(4)] cost_put [OF notify_read(2), of open_cost "Working v" u]
      cost_put [OF notify_read(2), of shut_cost "Working v" u]
      cost_notified_open [OF notify_read(4)] cost_notified_shut [OF notify_read(4)]
    by (auto simp: less_to_do_def to_do_def shut_def)
next
  case (working i v)
  let ?s = "s\<lparr>wk_got := wk_got s @ [v]\<rparr>"
  have "to_do n ?s = to_do n s" "shut ?s = shut s" by (simp_all add: to_do_def shut_def)
  then show ?thesis using working put_less [OF working(2), of Test ?s] by simp
qed

text \<open>From every state reached a run can be continued to one that has halted, and none goes on for ever.\<close>

lemma halts:
  assumes "wk_inv n s" and "0 < n"
  shows "\<exists>t. (wk_step n)\<^sup>*\<^sup>* s t \<and> halted n t"
  using assms(1)
proof (induction "to_do n s" arbitrary: s rule: wf_induct_rule [OF wf_less_to_do])
  case 1
  show ?case
  proof (cases "halted n s")
    case True
    then show ?thesis by blast
  next
    case False
    then obtain t where t: "wk_step n s t" by (auto simp: halted_def)
    have "\<exists>u. (wk_step n)\<^sup>*\<^sup>* t u \<and> halted n u"
      using 1(1) [OF to_do_less [OF t 1(2)] wk_inv_step [OF t 1(2) assms(2)]] .
    then show ?thesis using t by (meson converse_rtranclp_into_rtranclp)
  qed
qed

lemma no_endless_run:
  assumes "wk_inv n (f 0)" and "0 < n"
  shows "\<not> (\<forall>k. wk_step n (f k) (f (Suc k)))"
proof
  assume run: "\<forall>k. wk_step n (f k) (f (Suc k))"
  have inv: "wk_inv n (f k)" for k
    by (induction k) (use assms run wk_inv_step in blast)+
  define d where "d = (\<lambda>k. to_do n (f k))"
  have "\<forall>k. (d (Suc k), d k) \<in> less_to_do" unfolding d_def using run to_do_less inv by blast
  then show False using wf_less_to_do unfolding wf_iff_no_infinite_down_chain by blast
qed

section \<open>Closing between the look and the sleep\<close>

abbreviation wk_runs :: "nat \<Rightarrow> 'a wksys \<Rightarrow> 'a wksys \<Rightarrow> bool" where
  "wk_runs n \<equiv> (wk_step n)\<^sup>*\<^sup>*"

text \<open>Reader 0 alone takes the items one after the other, each as soon as it is pushed.\<close>

definition served :: "'a list \<Rightarrow> 'a list \<Rightarrow> 'a wksys" where
  "served xs ys = \<lparr>wk_ch = channel_new 0, wk_writer = Producing ys, wk_readers = (\<lambda>_. Test), wk_got = map Some xs\<rparr>"

lemma served_unlocked: "\<not> locked n (served xs ys)"
  by (simp add: locked_iff served_def)

lemma nobody_sleeps: "\<forall>i<n. \<not> asleep (wk_readers s i) \<Longrightarrow> notify_one n s = [s]"
  by (auto simp: notify_one_def Let_def filter_empty_conv)

lemma serves_one:
  assumes "0 < n"
  shows "wk_runs n (served xs (y # ys)) (served (xs @ [y]) ys)"
proof -
  let ?s0 = "served xs (y # ys)"
  let ?full = "push_locked y (channel_new 0)"
  let ?s1 = "?s0\<lparr>wk_ch := ?full, wk_writer := Notify_push ys\<rparr>"
  let ?s2 = "?s1\<lparr>wk_writer := Producing ys\<rparr>"
  let ?s3 = "put_reader 0 Deref ?s2"
  let ?s4 = "put_reader 0 (Notifying (Some y)) (?s3\<lparr>wk_ch := channel_new 0\<rparr>)"
  let ?s5 = "put_reader 0 (Working (Some y)) ?s4"
  have a: "wk_step n ?s0 ?s1"
    by (rule wk_step.push) (simp_all add: served_unlocked, simp_all add: served_def ch_write_def channel_new_def write_ready_def)
  have b: "wk_step n ?s1 ?s2"
    by (rule wk_step.notify_push) (simp_all add: nobody_sleeps served_def)
  have c: "wk_step n ?s2 ?s3"
    using wk_step.test [of 0 n ?s2 True] assms
    by (simp add: locked_iff served_def iter_test_def read_ready_def ch_empty_def push_locked_def channel_new_def)
  have d: "wk_step n ?s3 ?s4"
    by (rule wk_step.deref [OF assms])
      (simp_all add: locked_iff served_def ch_read_def read_ready_def ch_empty_def push_locked_def channel_new_def)
  have e: "wk_step n ?s4 ?s5"
    by (rule wk_step.notify_read [OF assms]) (simp_all add: nobody_sleeps served_def)
  have f: "wk_step n ?s5 (put_reader 0 Test (?s5\<lparr>wk_got := wk_got ?s5 @ [Some y]\<rparr>))"
    by (rule wk_step.working [OF assms]) simp
  have g: "put_reader 0 Test (?s5\<lparr>wk_got := wk_got ?s5 @ [Some y]\<rparr>) = served (xs @ [y]) ys"
    by (simp add: served_def put_reader_def fun_eq_iff)
  show ?thesis
    using a b c d e f unfolding g by (meson converse_rtranclp_into_rtranclp rtranclp.rtrancl_refl)
qed

lemma serves_all: "0 < n \<Longrightarrow> wk_runs n (served xs ys) (served (xs @ ys) [])"
proof (induction ys arbitrary: xs)
  case Nil
  then show ?case by simp
next
  case (Cons y ys)
  show ?case using serves_one [OF Cons.prems, of xs y ys] Cons.IH [OF Cons.prems, of "xs @ [y]"] by simp
qed

text \<open>Then it looks, the writer closes and notifies, it goes to sleep, and the others end.\<close>

definition left_asleep :: "nat \<Rightarrow> 'a list \<Rightarrow> 'a wksys" where
  "left_asleep k xs = \<lparr>wk_ch = ch_close (channel_new 0), wk_writer = Gone,
     wk_readers = (\<lambda>i. if i = 0 then Test_asleep else if i < k then Ended else Test), wk_got = map Some xs\<rparr>"

lemma falls_asleep:
  assumes "0 < n"
  shows "wk_runs n (served xs []) (left_asleep 1 xs)"
proof -
  let ?s0 = "served xs []"
  let ?s1 = "put_reader 0 Test_deciding ?s0"
  let ?s2 = "?s1\<lparr>wk_ch := ch_close (wk_ch ?s1), wk_writer := Notify_close\<rparr>"
  let ?s3 = "(notify_all ?s2)\<lparr>wk_writer := Gone\<rparr>"
  have a: "wk_step n ?s0 ?s1"
    by (rule wk_step.test_decide [OF assms])
      (simp_all add: served_unlocked, simp_all add: served_def read_ready_def ch_empty_def channel_new_def)
  have b: "wk_step n ?s1 ?s2" by (rule wk_step.closing) (simp add: served_def)
  have c: "wk_step n ?s2 ?s3" by (rule wk_step.notify_close) simp
  have d: "wk_step n ?s3 (put_reader 0 Test_asleep ?s3)" by (rule wk_step.test_sleep [OF assms]) simp
  have e: "put_reader 0 Test_asleep ?s3 = left_asleep 1 xs"
    by (simp add: served_def left_asleep_def put_reader_def notify_all_def fun_eq_iff)
  show ?thesis using a b c d unfolding e by (meson converse_rtranclp_into_rtranclp rtranclp.rtrancl_refl)
qed

lemma others_end: "0 < k \<Longrightarrow> k \<le> n \<Longrightarrow> wk_runs n (left_asleep 1 xs) (left_asleep k xs)"
proof (induction k)
  case 0
  then show ?case by simp
next
  case (Suc k)
  show ?case
  proof (cases k)
    case 0
    then show ?thesis by simp
  next
    case (Suc j)
    let ?s = "left_asleep k xs"
    have "wk_step n ?s (put_reader k (if False then Deref else Ended) ?s)"
      by (rule wk_step.test)
        (use Suc Suc.prems in \<open>simp_all add: left_asleep_def locked_iff iter_test_def read_ready_def ch_empty_def
           ch_close_def channel_new_def\<close>)
    moreover have "put_reader k (if False then Deref else Ended) ?s = left_asleep (Suc k) xs"
      using Suc by (auto simp: left_asleep_def put_reader_def fun_eq_iff)
    ultimately show ?thesis using Suc.IH Suc.prems Suc by (simp add: rtranclp.rtrancl_into_rtrancl)
  qed
qed

lemma left_asleep_halted: "0 < n \<Longrightarrow> halted n (left_asleep n xs)"
  by (auto simp: halted_def left_asleep_def elim!: wk_stepE split: if_splits)

lemma left_asleep_reached: "0 < n \<Longrightarrow> wk_runs n (wk_init xs) (left_asleep n xs)"
proof -
  assume n: "0 < n"
  have "wk_init xs = served [] xs" by (simp add: wk_init_def served_def)
  then show ?thesis
    using serves_all [OF n, of "[]" xs] falls_asleep [OF n, of xs] others_end [OF n order_refl, of xs] by simp
qed

text \<open>Had the writer closed while nobody held the mutex, nobody would be left asleep.\<close>

definition settled :: "nat \<Rightarrow> 'a wksys \<Rightarrow> bool" where
  "settled n s \<longleftrightarrow> ch_closed (wk_ch s) \<and> \<not> locked n s \<and> \<not> pushing (wk_writer s) \<and>
     (wk_writer s = Gone \<longrightarrow> (\<forall>i<n. \<not> asleep (wk_readers s i)))"

lemma settled_put: "settled n s \<Longrightarrow> \<not> deciding c \<Longrightarrow> \<not> asleep c \<Longrightarrow> settled n (put_reader i c s)"
  by (auto simp: settled_def locked_iff)

lemma settled_notified: "settled n s \<Longrightarrow> t \<in> set (notify_one n s) \<Longrightarrow> settled n t"
  by (erule notify_oneE) (auto intro!: settled_put)

lemma settled_step:
  assumes "wk_step n s t" and st: "settled n s"
  shows "settled n t"
  using assms(1)
proof (cases rule: wk_step.cases)
  case notify_close
  then show ?thesis using st by (auto simp: settled_def locked_iff)
next
  case (test i go)
  then show ?thesis using settled_put [OF st, of _ i] by auto
next
  case (test_sleep i)
  then have "locked n s" by (auto simp: locked_iff)
  then show ?thesis using st by (simp add: settled_def)
next
  case (deref_nothing i)
  then show ?thesis using settled_put [OF st] by simp
next
  case (deref i v ch)
  have "settled n (s\<lparr>wk_ch := ch\<rparr>)" using st ch_read_keeps [OF deref(5)] by (simp add: settled_def locked_iff)
  then show ?thesis using deref settled_put [of n "s\<lparr>wk_ch := ch\<rparr>" "Notifying v" i] by simp
next
  case (deref_sleep i)
  then have "locked n s" by (auto simp: locked_iff)
  then show ?thesis using st by (simp add: settled_def)
next
  case (notify_read i v u)
  then show ?thesis using settled_put [OF settled_notified [OF st notify_read(4)]] by simp
next
  case (working i v)
  have "settled n (s\<lparr>wk_got := wk_got s @ [v]\<rparr>)" using st by (simp add: settled_def locked_iff)
  then show ?thesis using working settled_put [of n "s\<lparr>wk_got := wk_got s @ [v]\<rparr>" Test i] by simp
qed (use st in \<open>auto simp: settled_def read_ready_def\<close>)

lemma closing_under_mutex:
  assumes "wk_runs n s t" and "halted n t" and "wk_inv n s" and "settled n s" and "0 < n"
  shows "\<forall>i<n. wk_readers t i = Ended"
proof -
  have "wk_inv n t \<and> settled n t"
    using assms(1) by (induction rule: rtranclp_induct) (use assms wk_inv_step settled_step in blast)+
  then show ?thesis using halted_facts [OF assms(2)] by (auto simp: settled_def)
qed

section \<open>Properties\<close>

lemma in_flight_none: "\<forall>i<n. held (sys_cons s i) = {#} \<Longrightarrow> in_flight n s = {#}"
  by (simp add: in_flight_def)

text \<open>C18: The threads of \<open>handleNotifyBackup\<close> and \<open>BatchLoadRemote\<close> over their channel, with mutex,
  condition variable and every interleaving: no run goes on for ever, every run can be continued
  until no thread can move, and then every item has been handled exactly once, the writer is done,
  and each reader has left its loop or is asleep.\<close>

theorem batch_is_handled:
  assumes "0 < n" and "wk_runs n (wk_init xs) s"
  shows "(\<nexists>f. f 0 = s \<and> (\<forall>k. wk_step n (f k) (f (Suc k)))) \<and>
    (\<exists>t. wk_runs n s t \<and> halted n t) \<and>
    (\<forall>t. wk_runs n s t \<and> halted n t \<longrightarrow> mset (given (wk_got t)) = mset xs \<and> wk_writer t = Gone \<and>
       (\<forall>i<n. wk_readers t i = Ended \<or> asleep (wk_readers t i)))"
proof (intro conjI allI impI)
  have inv: "wk_inv n s" using wk_reached [OF assms(2,1)] ..
  show "\<nexists>f. f 0 = s \<and> (\<forall>k. wk_step n (f k) (f (Suc k)))" using no_endless_run [OF _ assms(1)] inv by blast
  show "\<exists>t. wk_runs n s t \<and> halted n t" using halts [OF inv assms(1)] .
next
  fix t
  assume t: "wk_runs n s t \<and> halted n t"
  then have r: "wk_inv n t" "ch_reach n 0 xs (seen t)"
    using wk_reached [OF rtranclp_trans [OF assms(2)] assms(1)] by blast+
  note h = halted_facts [OF conjunct2 [OF t] r(1)]
  show "wk_writer t = Gone" using h by simp
  show "wk_readers t i = Ended \<or> asleep (wk_readers t i)" if "i < n" for i using h that by simp
  have "held (seen_reader (wk_readers t i)) = {#}" if "i < n" for i
    using h that by (cases "wk_readers t i") auto
  then have "in_flight n (seen t) = {#}" by (simp add: in_flight_none)
  then show "mset (given (wk_got t)) = mset xs" using reach_conserved [OF r(2)] h by (simp add: conserved_def)
qed

lemma batch_is_handled_witness:
  "\<exists>t. wk_runs 2 (wk_init [1, 2, 3::nat]) t \<and> halted 2 t \<and> mset (given (wk_got t)) = mset [1, 2, 3]"
  using batch_is_handled [of 2 "[1, 2, 3::nat]" "wk_init [1, 2, 3]"] by fastforce

text \<open>C19: \<open>close\<close> does not take the mutex, so its notification can come between a reader's look at the
  channel and its sleep.  For any number of readers and any items there is a run that handles all
  items and then halts with a reader asleep on the closed and empty channel, for ever: its thread,
  and the channel in the frame of the function that started it, are never given up.\<close>

theorem closing_is_missed:
  assumes "0 < n"
  shows "\<exists>s. wk_runs n (wk_init xs) s \<and> halted n s \<and> wk_readers s 0 = Test_asleep \<and>
    ch_closed (wk_ch s) \<and> ch_queue (wk_ch s) = [] \<and> wk_got s = map Some xs"
  using left_asleep_reached [OF assms, of xs] left_asleep_halted [OF assms, of xs]
  by (intro exI [of _ "left_asleep n xs"]) (simp add: left_asleep_def ch_close_def channel_new_def)

lemma closing_is_missed_witness:
  "\<exists>s. wk_runs 8 (wk_init [''f0'', ''f1'']) s \<and> halted 8 s \<and> wk_readers s 0 = Test_asleep \<and>
     ch_closed (wk_ch s) \<and> ch_queue (wk_ch s) = [] \<and> wk_got s = [Some ''f0'', Some ''f1'']"
  using closing_is_missed [of 8 "[''f0'', ''f1'']"] by simp

end
