(* ===== verification/Workers.thy ===== *)
theory Workers
  imports Operator
begin

text \<open>
  The threads of the work queue, all interleavings: \<open>Operator::Run\<close> of \<open>src/operator/operator.cpp\<close>
  starts \<open>nthreads_\<close> threads that run \<open>Operator::run\<close> over one bounded channel, while the threads of
  the HTTP service and of the inter node server add keys with \<open>AddRateLimited\<close>.  What a handler does
  is theory \<open>Coordinator\<close>; here it ends with true or false, after any time.
\<close>

section \<open>Threads\<close>

text \<open>A worker: in \<open>operator!=\<close> of the loop, in \<open>operator*\<close>, in the handler, in the rate limiter with a
  key that was not done, writing it to the channel, out of the loop.\<close>

datatype 'k worker = Fetching | Reading | Handles 'k | Requeues 'k | Pushes 'k | Out_of_loop

record 'k pool =
  pl_op :: "'k operator"
  pl_worker :: "nat \<Rightarrow> 'k worker"
  pl_adding :: "'k list"
  pl_added :: "'k list"
  pl_done :: "'k list"

definition Operator_Run :: "'k operator \<Rightarrow> 'k pool" where
  "Operator_Run op = \<lparr>pl_op = op, pl_worker = (\<lambda>_. Fetching), pl_adding = [], pl_added = [], pl_done = []\<rparr>"

definition put_worker :: "nat \<Rightarrow> 'k worker \<Rightarrow> 'k pool \<Rightarrow> 'k pool" where
  "put_worker i c s = s\<lparr>pl_worker := (pl_worker s)(i := c)\<rparr>"

definition set_queue :: "'k channel \<Rightarrow> 'k pool \<Rightarrow> 'k pool" where
  "set_queue ch s = s\<lparr>pl_op := (pl_op s)\<lparr>op_queue := ch\<rparr>\<rparr>"

definition set_limiter :: "rate_limiter \<Rightarrow> 'k pool \<Rightarrow> 'k pool" where
  "set_limiter rl s = s\<lparr>pl_op := (pl_op s)\<lparr>op_limiter := rl\<rparr>\<rparr>"

text \<open>The steps of the workers and of the threads whose key has passed the rate limiter; \<open>d\<close> is the
  default constructed key.\<close>

inductive work :: "nat \<Rightarrow> 'k \<Rightarrow> 'k pool \<Rightarrow> 'k pool \<Rightarrow> bool" for n d where
  fetch: "i < n \<Longrightarrow> pl_worker s i = Fetching \<Longrightarrow> iter_test (op_queue (pl_op s)) = Some go \<Longrightarrow>
    work n d s (put_worker i (if go then Reading else Out_of_loop) s)"
| read: "i < n \<Longrightarrow> pl_worker s i = Reading \<Longrightarrow> ch_read (op_queue (pl_op s)) = Read_result v ch \<Longrightarrow>
    work n d s (put_worker i (Handles (case v of None \<Rightarrow> d | Some k \<Rightarrow> k)) (set_queue ch s))"
| handled: "i < n \<Longrightarrow> pl_worker s i = Handles k \<Longrightarrow>
    work n d s (put_worker i Fetching (s\<lparr>pl_done := pl_done s @ [k]\<rparr>))"
| refused: "i < n \<Longrightarrow> pl_worker s i = Handles k \<Longrightarrow> work n d s (put_worker i (Requeues k) s)"
| limited: "i < n \<Longrightarrow> pl_worker s i = Requeues k \<Longrightarrow> aquire 1 now (op_limiter (pl_op s)) = Inr (wait, rl) \<Longrightarrow>
    work n d s (put_worker i (Pushes k) (set_limiter rl s))"
| requeued: "i < n \<Longrightarrow> pl_worker s i = Pushes k \<Longrightarrow> ch_write k (op_queue (pl_op s)) = Written ch \<Longrightarrow>
    work n d s (put_worker i Fetching (set_queue ch s))"
| enqueued: "pl_adding s = xs @ k # ys \<Longrightarrow> ch_write k (op_queue (pl_op s)) = Written ch \<Longrightarrow>
    work n d s ((set_queue ch s)\<lparr>pl_adding := xs @ ys\<rparr>)"

text \<open>Another thread calls \<open>AddRateLimited\<close>.\<close>

inductive pool_step :: "nat \<Rightarrow> 'k \<Rightarrow> 'k pool \<Rightarrow> 'k pool \<Rightarrow> bool" for n d where
  works: "work n d s t \<Longrightarrow> pool_step n d s t"
| adds: "aquire 1 now (op_limiter (pl_op s)) = Inr (wait, rl) \<Longrightarrow>
    pool_step n d s ((set_limiter rl s)\<lparr>pl_adding := pl_adding s @ [k], pl_added := pl_added s @ [k]\<rparr>)"

inductive_cases pool_stepE: "pool_step n d s t"

abbreviation pool_runs :: "nat \<Rightarrow> 'k \<Rightarrow> 'k pool \<Rightarrow> 'k pool \<Rightarrow> bool" where
  "pool_runs n d \<equiv> (pool_step n d)\<^sup>*\<^sup>*"

lemma pool_simps [simp]:
  "pl_op (put_worker i c s) = pl_op s" "pl_adding (put_worker i c s) = pl_adding s"
  "pl_added (put_worker i c s) = pl_added s" "pl_done (put_worker i c s) = pl_done s"
  "pl_worker (put_worker i c s) = (pl_worker s)(i := c)"
  "pl_op (set_queue ch s) = (pl_op s)\<lparr>op_queue := ch\<rparr>" "pl_worker (set_queue ch s) = pl_worker s"
  "pl_adding (set_queue ch s) = pl_adding s" "pl_added (set_queue ch s) = pl_added s" "pl_done (set_queue ch s) = pl_done s"
  "pl_op (set_limiter rl s) = (pl_op s)\<lparr>op_limiter := rl\<rparr>" "pl_worker (set_limiter rl s) = pl_worker s"
  "pl_adding (set_limiter rl s) = pl_adding s" "pl_added (set_limiter rl s) = pl_added s"
  "pl_done (set_limiter rl s) = pl_done s"
  by (simp_all add: put_worker_def set_queue_def set_limiter_def)

section \<open>No key is lost\<close>

fun in_hand :: "'k worker \<Rightarrow> 'k multiset" where
  "in_hand (Handles k) = {#k#}"
| "in_hand (Requeues k) = {#k#}"
| "in_hand (Pushes k) = {#k#}"
| "in_hand _ = {#}"

definition in_hands :: "nat \<Rightarrow> 'k pool \<Rightarrow> 'k multiset" where
  "in_hands n s = (\<Sum>i<n. in_hand (pl_worker s i))"

lemma in_hands_set:
  "i < n \<Longrightarrow> in_hands n (put_worker i c s) + in_hand (pl_worker s i) = in_hands n s + in_hand c"
  by (simp add: in_hands_def sum_thread del: fun_upd_apply)

lemma in_hands_simps [simp]:
  "in_hands n (set_queue ch s) = in_hands n s" "in_hands n (set_limiter rl s) = in_hands n s"
  "in_hands n (s\<lparr>pl_done := ks\<rparr>) = in_hands n s" "in_hands n (s\<lparr>pl_adding := ks\<rparr>) = in_hands n s"
  "in_hands n (s\<lparr>pl_adding := ks, pl_added := ks'\<rparr>) = in_hands n s"
  by (simp_all add: in_hands_def)

definition pool_inv :: "nat \<Rightarrow> 'k pool \<Rightarrow> bool" where
  "pool_inv n s \<longleftrightarrow> op_ok (pl_op s) \<and> (\<forall>i<n. pl_worker s i \<noteq> Out_of_loop) \<and>
     mset (pl_done s) + in_hands n s + mset (ch_queue (op_queue (pl_op s))) + mset (pl_adding s) = mset (pl_added s)"

lemma pool_inv_start: "op_ok op \<Longrightarrow> ch_queue (op_queue op) = [] \<Longrightarrow> pool_inv n (Operator_Run op)"
  by (simp add: pool_inv_def Operator_Run_def in_hands_def)

lemma queue_write:
  assumes "op_ok op" and "ch_write k (op_queue op) = Written ch"
  shows "op_ok (op\<lparr>op_queue := ch\<rparr>) \<and> ch_queue ch = ch_queue (op_queue op) @ [k] \<and> ch_cap ch = ch_cap (op_queue op)"
  using assms ch_ok_write [OF _ assms(2)] ch_write_Written [OF assms(2)] by (auto simp: op_ok_def push_locked_def)

lemma queue_read:
  assumes "op_ok op" and "ch_read (op_queue op) = Read_result v ch"
  shows "op_ok (op\<lparr>op_queue := ch\<rparr>) \<and> (\<exists>k. v = Some k \<and> ch_queue (op_queue op) = k # ch_queue ch) \<and>
    ch_cap ch = ch_cap (op_queue op)"
  using assms ch_ok_read [OF _ assms(2)] ch_read_result [OF _ assms(2)] ch_read_keeps [OF assms(2)]
  by (auto simp: op_ok_def)

lemma work_inv:
  assumes "work n d s t" and inv: "pool_inv n s"
  shows "pool_inv n t"
proof -
  have ok: "op_ok (pl_op s)" using inv by (simp add: pool_inv_def)
  from assms(1) show ?thesis
  proof (cases rule: work.cases)
    case (fetch i go)
    have go using ok fetch(4) iter_test_Some [of "op_queue (pl_op s)" go] by (auto simp: op_ok_def)
    then show ?thesis using fetch inv in_hands_set [OF fetch(2), of Reading s] by (simp add: pool_inv_def)
  next
    case (read i v ch)
    obtain k where v: "v = Some k" "ch_queue (op_queue (pl_op s)) = k # ch_queue ch" "op_ok ((pl_op s)\<lparr>op_queue := ch\<rparr>)"
      using queue_read [OF ok read(4)] by blast
    then show ?thesis
      using read inv in_hands_set [OF read(2), of "Handles k" "set_queue ch s"] by (simp add: pool_inv_def)
  next
    case (handled i k)
    have "in_hands n s = in_hands n (put_worker i Fetching (s\<lparr>pl_done := pl_done s @ [k]\<rparr>)) + {#k#}"
      using handled in_hands_set [OF handled(2), of Fetching "s\<lparr>pl_done := pl_done s @ [k]\<rparr>"] by simp
    then show ?thesis using handled inv by (simp add: pool_inv_def)
  next
    case (refused i k)
    then show ?thesis using inv in_hands_set [OF refused(2), of "Requeues k" s] by (simp add: pool_inv_def)
  next
    case (limited i k now wait rl)
    then show ?thesis using inv ok in_hands_set [OF limited(2), of "Pushes k" "set_limiter rl s"]
      by (simp add: pool_inv_def op_ok_def)
  next
    case (requeued i k ch)
    have "in_hands n s = in_hands n (put_worker i Fetching (set_queue ch s)) + {#k#}"
      using requeued in_hands_set [OF requeued(2), of Fetching "set_queue ch s"] by simp
    then show ?thesis using requeued inv queue_write [OF ok requeued(4)] by (simp add: pool_inv_def)
  next
    case (enqueued xs k ys ch)
    then show ?thesis using inv queue_write [OF ok enqueued(3)] by (simp add: pool_inv_def)
  qed
qed

lemma pool_inv_step: "pool_step n d s t \<Longrightarrow> pool_inv n s \<Longrightarrow> pool_inv n t"
proof (erule pool_stepE)
  assume "work n d s t" "pool_inv n s"
  then show "pool_inv n t" by (rule work_inv)
next
  fix now wait rl k
  assume inv: "pool_inv n s" and "t = (set_limiter rl s)\<lparr>pl_adding := pl_adding s @ [k], pl_added := pl_added s @ [k]\<rparr>"
  then show "pool_inv n t" by (simp add: pool_inv_def op_ok_def)
qed

lemma work_cap: "work n d s t \<Longrightarrow> pool_inv n s \<Longrightarrow> ch_cap (op_queue (pl_op t)) = ch_cap (op_queue (pl_op s))"
  by (erule work.cases) (auto simp: pool_inv_def dest: queue_write queue_read)

lemma pool_reached:
  assumes "pool_runs n d (Operator_Run op) s" and "op_ok op" and "ch_queue (op_queue op) = []"
  shows "pool_inv n s \<and> ch_cap (op_queue (pl_op s)) = ch_cap (op_queue op)"
  using assms(1)
proof (induction rule: rtranclp_induct)
  case base
  show ?case using pool_inv_start [OF assms(2,3)] by (simp add: Operator_Run_def)
next
  case (step s t)
  have "ch_cap (op_queue (pl_op t)) = ch_cap (op_queue (pl_op s))"
    using step.hyps(2)
  proof (cases rule: pool_step.cases)
    case works
    then show ?thesis using step.IH work_cap [of n d s t] by blast
  qed simp
  then show ?case using pool_inv_step [OF step.hyps(2)] step.IH by simp
qed

section \<open>While there is room\<close>

lemma aquire_one: "aquire 1 now rl = Inr (real (fst (claim_next 1 now rl)) / 1000, snd (claim_next 1 now rl))"
  by (simp add: aquire_def case_prod_unfold Let_def)

lemma in_hands_none:
  assumes "in_hands n s = {#}" and "i < n"
  shows "in_hand (pl_worker s i) = {#}"
proof -
  have i: "i \<in> {..<n}" using assms(2) by simp
  have "in_hand (pl_worker s i) \<subseteq># in_hands n s"
    unfolding in_hands_def by (subst sum.remove [OF _ i]) simp_all
  then show ?thesis using assms(1) by simp
qed

text \<open>A thread with a key to write can write it, if the queue and the key itself are within the bound.\<close>

lemma write_room:
  assumes "op_ok op" and "ch_cap (op_queue op) = 0 \<or> length (ch_queue (op_queue op)) < ch_cap (op_queue op)"
  shows "ch_write k (op_queue op) = Written (push_locked k (op_queue op))"
  using assms by (auto simp: ch_write_def write_ready_def op_ok_def ch_ok_def)

lemma worker_moves:
  assumes inv: "pool_inv n s" and room: "size (mset (pl_added s)) \<le> ch_cap (op_queue (pl_op s)) + size (mset (pl_done s))"
    and i: "i < n" and busy: "in_hand (pl_worker s i) \<noteq> {#}"
  shows "\<exists>t. work n d s t"
proof (cases "pl_worker s i")
  case (Handles k)
  then show ?thesis using work.handled [OF i Handles] by blast
next
  case (Requeues k)
  then show ?thesis using work.limited [OF i Requeues aquire_one] by blast
next
  case (Pushes k)
  have "in_hands n (put_worker i Fetching s) + {#k#} = in_hands n s"
    using in_hands_set [OF i, of Fetching s] Pushes by simp
  then have "0 < size (in_hands n s)" by (metis add_mset_add_single nonempty_has_size empty_not_add_mset)
  moreover have "size (mset (pl_done s) + in_hands n s + mset (ch_queue (op_queue (pl_op s))) + mset (pl_adding s)) =
      size (mset (pl_added s))" using inv by (simp add: pool_inv_def)
  ultimately have "length (ch_queue (op_queue (pl_op s))) < ch_cap (op_queue (pl_op s))" using room by simp
  then have "ch_write k (op_queue (pl_op s)) = Written (push_locked k (op_queue (pl_op s)))"
    using inv by (intro write_room) (simp_all add: pool_inv_def)
  then show ?thesis using work.requeued [OF i Pushes] by blast
qed (use busy in simp_all)

lemma adder_moves:
  assumes inv: "pool_inv n s" and room: "size (mset (pl_added s)) \<le> ch_cap (op_queue (pl_op s)) + size (mset (pl_done s))"
    and "pl_adding s \<noteq> []"
  shows "\<exists>t. work n d s t"
proof -
  obtain k ks where ks: "pl_adding s = [] @ k # ks" using assms(3) by (cases "pl_adding s") auto
  have "size (mset (pl_done s) + in_hands n s + mset (ch_queue (op_queue (pl_op s))) + mset (pl_adding s)) =
      size (mset (pl_added s))" using inv by (simp add: pool_inv_def)
  then have "length (ch_queue (op_queue (pl_op s))) < ch_cap (op_queue (pl_op s))" using room ks by simp
  then have "ch_write k (op_queue (pl_op s)) = Written (push_locked k (op_queue (pl_op s)))"
    using inv by (intro write_room) (simp_all add: pool_inv_def)
  then show ?thesis using work.enqueued [OF ks] by blast
qed

lemma fetcher_moves:
  assumes inv: "pool_inv n s" and "0 < n" and "in_hands n s = {#}" and "ch_queue (op_queue (pl_op s)) \<noteq> []"
  shows "\<exists>t. work n d s t"
proof -
  have "ch_ok (op_queue (pl_op s))" "\<not> ch_closed (op_queue (pl_op s))" using inv by (simp_all add: pool_inv_def op_ok_def)
  then have ready: "iter_test (op_queue (pl_op s)) = Some True" "\<exists>v ch. ch_read (op_queue (pl_op s)) = Read_result v ch"
    using assms(4) by (simp_all add: iter_test_def ch_read_def read_ready_def ch_empty_iff)
  show ?thesis
  proof (cases "pl_worker s 0")
    case Fetching
    then show ?thesis using work.fetch [OF assms(2) Fetching ready(1)] by blast
  next
    case Reading
    then show ?thesis using work.read [OF assms(2) Reading] ready(2) by blast
  qed (use in_hands_none [OF assms(3,2)] inv assms(2) in \<open>simp_all add: pool_inv_def\<close>)
qed

section \<open>The loop of theory \<open>Operator\<close>\<close>

text \<open>A round of \<open>Operator::run\<close> is what one worker does from one look at the channel to the next.\<close>

lemma run_once_by_worker:
  assumes "run_once h now (pl_op s, w) = Inr (Some (op', w'))" and "op_ok (pl_op s)" and i: "i < n"
    and "pl_worker s i = Fetching"
  shows "\<exists>t. pool_runs n d s t \<and> pl_op t = op' \<and> pl_worker t = pl_worker s \<and> pl_adding t = pl_adding s"
proof -
  obtain k ch where r: "ch_read (op_queue (pl_op s)) = Read_result (Some k) ch"
    using assms(1) by (auto simp: run_once_def split: was_read.splits option.splits)
  then have "ch_queue (op_queue (pl_op s)) \<noteq> []" using queue_read [OF assms(2)] by auto
  then have look: "iter_test (op_queue (pl_op s)) = Some True"
    using assms(2) by (auto simp: iter_test_def read_ready_def op_ok_def ch_empty_iff)
  let ?s1 = "put_worker i Reading s"
  let ?s2 = "put_worker i (Handles k) (set_queue ch ?s1)"
  have a: "pool_step n d s ?s1" using work.fetch [OF i assms(4) look] pool_step.works by fastforce
  have b: "pool_step n d ?s1 ?s2" using work.read [OF i, of ?s1 "Some k" ch d] r pool_step.works by fastforce
  obtain don where h: "h k w = Inr (don, w')" and
    out: "if don then op' = (pl_op s)\<lparr>op_queue := ch\<rparr>
          else AddRateLimited now k ((pl_op s)\<lparr>op_queue := ch\<rparr>) = Inr (Some op')"
    using assms(1) r by (auto simp: run_once_def and_then_Inr_iff Let_def split: if_splits)
  show ?thesis
  proof (cases don)
    case True
    let ?t = "put_worker i Fetching (?s2\<lparr>pl_done := pl_done ?s2 @ [k]\<rparr>)"
    have "pool_step n d ?s2 ?t" using work.handled [OF i, of ?s2 k d] pool_step.works by fastforce
    then have "pool_runs n d s ?t" using a b by (meson converse_rtranclp_into_rtranclp rtranclp.rtrancl_refl)
    then show ?thesis using out True assms(4) by (intro exI [of _ ?t]) (auto simp: fun_eq_iff)
  next
    case False
    let ?rl = "snd (claim_next 1 now (op_limiter (pl_op s)))"
    obtain ch' where c: "ch_write k ch = Written ch'" "op' = (pl_op s)\<lparr>op_queue := ch', op_limiter := ?rl\<rparr>"
      using out False by (auto simp: AddRateLimited_def aquire_one split: written.splits)
    let ?s3 = "put_worker i (Requeues k) ?s2"
    let ?s4 = "put_worker i (Pushes k) (set_limiter ?rl ?s3)"
    let ?t = "put_worker i Fetching (set_queue ch' ?s4)"
    have e: "pool_step n d ?s2 ?s3" using work.refused [OF i, of ?s2 k d] pool_step.works by fastforce
    have f: "pool_step n d ?s3 ?s4"
      using work.limited [OF i _ aquire_one, of ?s3 k d now] pool_step.works by fastforce
    have "pool_step n d ?s4 ?t" using work.requeued [OF i, of ?s4 k ch' d] c(1) pool_step.works by fastforce
    then have "pool_runs n d s ?t" using a b e f by (meson converse_rtranclp_into_rtranclp rtranclp.rtrancl_refl)
    then show ?thesis using c(2) assms(4) by (intro exI [of _ ?t]) (auto simp: fun_eq_iff)
  qed
qed

section \<open>A full queue\<close>

text \<open>Every worker has a key to write and the queue has no room.\<close>

fun writes :: "'k worker \<Rightarrow> bool" where
  "writes (Pushes k) = True"
| "writes _ = False"

lemma writes_iff: "writes c \<longleftrightarrow> (\<exists>k. c = Pushes k)"
  by (cases c) simp_all

definition jammed :: "nat \<Rightarrow> 'k pool \<Rightarrow> bool" where
  "jammed n s \<longleftrightarrow> 0 < ch_cap (op_queue (pl_op s)) \<and> ch_size (op_queue (pl_op s)) = ch_cap (op_queue (pl_op s)) \<and>
     \<not> ch_closed (op_queue (pl_op s)) \<and> list_all (\<lambda>i. writes (pl_worker s i)) [0..<n]"

lemma jammed_worker: "jammed n s \<Longrightarrow> i < n \<Longrightarrow> \<exists>k. pl_worker s i = Pushes k"
  by (simp add: jammed_def list_all_iff writes_iff)

lemma jammed_no_write: "jammed n s \<Longrightarrow> ch_write k (op_queue (pl_op s)) = Write_waits"
  by (simp add: jammed_def ch_write_def write_ready_def)

lemma jammed_no_work: "jammed n s \<Longrightarrow> \<not> work n d s t"
  by (auto elim!: work.cases dest: jammed_worker simp: jammed_no_write)

lemma jammed_step:
  assumes "pool_step n d s t" and "jammed n s"
  shows "jammed n t \<and> op_queue (pl_op t) = op_queue (pl_op s) \<and> pl_done t = pl_done s"
  using assms(1)
proof (cases rule: pool_step.cases)
  case works
  then show ?thesis using jammed_no_work [OF assms(2)] by blast
next
  case (adds now wait rl k)
  then show ?thesis using assms(2) by (simp add: jammed_def)
qed

lemma jammed_for_ever:
  assumes "pool_runs n d s t" and "jammed n s"
  shows "jammed n t \<and> op_queue (pl_op t) = op_queue (pl_op s) \<and> pl_done t = pl_done s"
  using assms(1)
proof (induction rule: rtranclp_induct)
  case base
  then show ?case using assms(2) by simp
next
  case (step t u)
  then show ?case using jammed_step [OF step.hyps(2)] by simp
qed

text \<open>How it gets there: the queue is filled; then each worker in turn takes a key, its handler fails,
  and before it has written the key back another thread has filled the gap.  \<open>ks\<close> are the keys added;
  \<open>filling\<close> is the state with \<open>m\<close> keys in the queue and \<open>j\<close> workers that wait to write theirs.\<close>

definition filling :: "'k operator \<Rightarrow> (nat \<Rightarrow> 'k) \<Rightarrow> nat \<Rightarrow> nat \<Rightarrow> rate_limiter \<Rightarrow> 'k pool" where
  "filling op ks m j rl =
     \<lparr>pl_op = op\<lparr>op_queue := (op_queue op)\<lparr>ch_queue := map ks [j..<m + j], ch_size := m\<rparr>, op_limiter := rl\<rparr>,
      pl_worker = (\<lambda>i. if i < j then Pushes (ks i) else Fetching), pl_adding = [], pl_added = map ks [0..<m + j], pl_done = []\<rparr>"

lemma filling_limiter [simp]: "op_limiter (pl_op (filling op ks m j rl)) = rl"
  by (simp add: filling_def)

lemma adds_one:
  assumes "m < ch_cap (op_queue op)" and "\<not> ch_closed (op_queue op)"
  shows "pool_runs n d (filling op ks m j rl) (filling op ks (Suc m) j (snd (claim_next 1 0 rl)))"
proof -
  let ?s = "filling op ks m j rl"
  let ?k = "ks (m + j)"
  let ?s1 = "(set_limiter (snd (claim_next 1 0 rl)) ?s)\<lparr>pl_adding := pl_adding ?s @ [?k], pl_added := pl_added ?s @ [?k]\<rparr>"
  let ?ch = "push_locked ?k (op_queue (pl_op ?s1))"
  have a: "pool_step n d ?s ?s1" 
    using pool_step.adds [OF aquire_one [of 0 "op_limiter (pl_op ?s)"], of n d ?k] by simp
  have "ch_write ?k (op_queue (pl_op ?s1)) = Written ?ch"
    using assms by (simp add: ch_write_def write_ready_def filling_def)
  then have b: "pool_step n d ?s1 ((set_queue ?ch ?s1)\<lparr>pl_adding := [] @ []\<rparr>)"
    by (intro pool_step.works work.enqueued [where k = ?k]) (simp_all add: filling_def)
  have "(set_queue ?ch ?s1)\<lparr>pl_adding := [] @ []\<rparr> = filling op ks (Suc m) j (snd (claim_next 1 0 rl))"
    by (simp add: filling_def set_queue_def set_limiter_def push_locked_def)
  then show ?thesis using a b by (metis converse_rtranclp_into_rtranclp rtranclp.rtrancl_refl)
qed

lemma fills:
  "m \<le> ch_cap (op_queue op) \<Longrightarrow> \<not> ch_closed (op_queue op) \<Longrightarrow>
     \<exists>rl'. pool_runs n d (filling op ks 0 j rl) (filling op ks m j rl')"
proof (induction m)
  case 0
  then show ?case by blast
next
  case (Suc m)
  then obtain rl' where "pool_runs n d (filling op ks 0 j rl) (filling op ks m j rl')" by auto
  then show ?case using adds_one [of m op n d ks j rl'] Suc.prems by (meson Suc_le_lessD rtranclp_trans)
qed

lemma four_steps:
  "pool_step n d s s1 \<Longrightarrow> pool_step n d s1 s2 \<Longrightarrow> pool_step n d s2 s3 \<Longrightarrow> pool_step n d s3 t \<Longrightarrow> pool_runs n d s t"
  by (meson converse_rtranclp_into_rtranclp r_into_rtranclp)

lemma takes_one:
  assumes "j < n" and "\<not> ch_closed (op_queue op)"
  shows "pool_runs n d (filling op ks (Suc m) j rl) (filling op ks m (Suc j) (snd (claim_next 1 0 rl)))"
proof -
  let ?s = "filling op ks (Suc m) j rl"
  let ?ch = "(op_queue op)\<lparr>ch_queue := map ks [Suc j..<Suc (m + j)], ch_size := m\<rparr>"
  let ?s1 = "put_worker j Reading ?s"
  let ?s2 = "put_worker j (Handles (ks j)) (set_queue ?ch ?s1)"
  let ?s3 = "put_worker j (Requeues (ks j)) ?s2"
  let ?s4 = "put_worker j (Pushes (ks j)) (set_limiter (snd (claim_next 1 0 rl)) ?s3)"
  have q: "map ks [j..<Suc (m + j)] = ks j # map ks [Suc j..<Suc (m + j)]" by (subst upt_conv_Cons) simp_all
  have look: "iter_test (op_queue (pl_op ?s)) = Some True"
    using assms(2) by (simp add: iter_test_def read_ready_def ch_empty_def filling_def)
  have a: "pool_step n d ?s ?s1"
    using work.fetch [OF assms(1) _ look, of d] pool_step.works by (fastforce simp: filling_def)
  have "ch_read (op_queue (pl_op ?s1)) = Read_result (Some (ks j)) ?ch"
    using assms(2) q by (simp add: ch_read_def read_ready_def ch_empty_def filling_def del: upt_Suc)
  then have b: "pool_step n d ?s1 ?s2"
    using work.read [OF assms(1), of ?s1 "Some (ks j)" ?ch d] pool_step.works by fastforce
  have c: "pool_step n d ?s2 ?s3" using work.refused [OF assms(1), of ?s2 "ks j" d] pool_step.works by fastforce
  have e: "pool_step n d ?s3 ?s4"
    using work.limited [OF assms(1) _ aquire_one, of ?s3 "ks j" d 0] pool_step.works by (fastforce simp: filling_def)
  have "(pl_worker ?s)(j := Pushes (ks j)) = (\<lambda>i. if i < Suc j then Pushes (ks i) else Fetching)"
    by (rule ext) (simp add: filling_def less_Suc_eq)
  then have "?s4 = filling op ks m (Suc j) (snd (claim_next 1 0 rl))"
    by (simp add: filling_def put_worker_def set_queue_def set_limiter_def del: upt_Suc)
  then show ?thesis using four_steps [OF a b c e] by (simp only:)
qed

lemma jams:
  "0 < ch_cap (op_queue op) \<Longrightarrow> \<not> ch_closed (op_queue op) \<Longrightarrow> j \<le> n \<Longrightarrow>
     \<exists>rl'. pool_runs n d (filling op ks 0 0 rl) (filling op ks (ch_cap (op_queue op)) j rl')"
proof (induction j)
  case 0
  then show ?case using fills [of "ch_cap (op_queue op)" op n d ks 0 rl] by simp
next
  case (Suc j)
  let ?cap = "ch_cap (op_queue op)"
  obtain rl' where a: "pool_runs n d (filling op ks 0 0 rl) (filling op ks ?cap j rl')" using Suc by auto
  obtain rl'' where b: "pool_runs n d (filling op ks ?cap j rl') (filling op ks (?cap - 1) (Suc j) rl'')"
    using takes_one [of j n op d ks "?cap - 1" rl'] Suc.prems by auto
  have c: "\<exists>rl'''. pool_runs n d (filling op ks (?cap - 1) (Suc j) rl'') (filling op ks (Suc (?cap - 1)) (Suc j) rl''')"
    using adds_one [of "?cap - 1" op n d ks "Suc j" rl''] Suc.prems by auto
  have "Suc (?cap - 1) = ?cap" using Suc.prems by simp
  then show ?case using rtranclp_trans [OF rtranclp_trans [OF a b]] c by metis
qed

lemma filling_jammed: "0 < ch_cap (op_queue op) \<Longrightarrow> \<not> ch_closed (op_queue op) \<Longrightarrow> jammed n (filling op ks (ch_cap (op_queue op)) n rl)"
  by (simp add: jammed_def filling_def list_all_iff)

lemma filling_start:
  "ch_queue (op_queue op) = [] \<Longrightarrow> ch_size (op_queue op) = 0 \<Longrightarrow> filling op ks 0 0 (op_limiter op) = Operator_Run op"
  by (simp add: filling_def Operator_Run_def)

section \<open>Properties\<close>

lemma operator_starts:
  assumes "Operator_new = Some op"
  shows "op_ok op" "ch_queue (op_queue op) = []" "ch_size (op_queue op) = 0" "ch_cap (op_queue op) = OPERATOR_WORKQUEUE_BUFFER"
  using assms by (auto simp: Operator_new_def set_rate_def OPERATOR_RATELIMITER_RATE_def op_ok_def channel_new_def ch_ok_def)

lemma operator_new: "\<exists>op. Operator_new = Some op"
  by (simp add: Operator_new_def set_rate_def OPERATOR_RATELIMITER_RATE_def)

text \<open>C16: Under every interleaving of the worker threads and of the threads that add keys, a key that was
  added is in exactly one place as often as it was added: waiting to be written, in the queue, in the
  hands of a worker, or handled with success; no worker leaves its loop.  And as long as at most as
  many keys are unfinished as the queue has places, some thread can go on, until every key that was
  added has been handled with success.\<close>

theorem workers_lose_no_key:
  assumes "Operator_new = Some op" and "pool_runs n d (Operator_Run op) s" and "0 < n"
  shows "mset (pl_done s) + in_hands n s + mset (ch_queue (op_queue (pl_op s))) + mset (pl_adding s) = mset (pl_added s) \<and>
    (\<forall>i<n. pl_worker s i \<noteq> Out_of_loop) \<and>
    (length (pl_added s) \<le> OPERATOR_WORKQUEUE_BUFFER + length (pl_done s) \<longrightarrow>
       (\<exists>t. work n d s t) \<or> mset (pl_done s) = mset (pl_added s))"
proof -
  note op = operator_starts [OF assms(1)]
  have inv: "pool_inv n s" and cap: "ch_cap (op_queue (pl_op s)) = OPERATOR_WORKQUEUE_BUFFER"
    using pool_reached [OF assms(2) op(1,2)] op(4) by simp_all
  have "mset (pl_done s) = mset (pl_added s)"
    if few: "length (pl_added s) \<le> OPERATOR_WORKQUEUE_BUFFER + length (pl_done s)" and stuck: "\<nexists>t. work n d s t"
  proof -
    have room: "size (mset (pl_added s)) \<le> ch_cap (op_queue (pl_op s)) + size (mset (pl_done s))" using few cap by simp
    have "\<forall>i<n. in_hand (pl_worker s i) = {#}" using worker_moves [OF inv room, where d = d] stuck by blast
    then have none: "in_hands n s = {#}" by (simp add: in_hands_def)
    then have "ch_queue (op_queue (pl_op s)) = []" using fetcher_moves [OF inv assms(3), where d = d] stuck by blast
    moreover have "pl_adding s = []" using adder_moves [OF inv room, where d = d] stuck by blast
    ultimately show ?thesis using inv none by (simp add: pool_inv_def)
  qed
  then show ?thesis using inv by (auto simp: pool_inv_def)
qed

lemma workers_lose_no_key_witness:
  "\<exists>op t. Operator_new = Some op \<and> pool_step 8 ''x'' (Operator_Run op) t \<and> pl_added t = [''f0''] \<and>
     mset (pl_done t) + in_hands 8 t + mset (ch_queue (op_queue (pl_op t))) + mset (pl_adding t) = {#''f0''#}"
proof -
  obtain op where op: "Operator_new = Some (op :: string operator)" using operator_new by blast
  let ?s = "Operator_Run op"
  let ?rl = "snd (claim_next 1 0 (op_limiter (pl_op ?s)))"
  let ?t = "(set_limiter ?rl ?s)\<lparr>pl_adding := pl_adding ?s @ [''f0''], pl_added := pl_added ?s @ [''f0'']\<rparr>"
  have step: "pool_step 8 ''x'' ?s ?t" by (rule pool_step.adds [OF aquire_one])
  have t: "pl_added ?t = [''f0'']" by (simp add: Operator_Run_def)
  have run: "pool_runs 8 ''x'' ?s ?t" using step by blast
  have "mset (pl_done ?t) + in_hands 8 ?t + mset (ch_queue (op_queue (pl_op ?t))) + mset (pl_adding ?t) = mset (pl_added ?t)"
    using workers_lose_no_key [OF op run] by simp
  then show ?thesis using op step t by (intro exI [of _ op] exI [of _ ?t]) simp
qed

text \<open>C17: The workers write the keys that were not done back to the queue they read from.  With 8 keys
  more than the queue has places there is a run to a state in which all 8 workers wait for room that
  only they could make; from then on, whatever is added, no thread can take or write a key, nothing
  is ever handled again and none of the keys added has been handled with success.\<close>

theorem full_queue_stops_workers:
  fixes d :: 'k
  shows "\<exists>op s. Operator_new = Some op \<and> pool_runs OPERATOR_N_THREADS d (Operator_Run op) s \<and>
     pl_added s = map ks [0..<OPERATOR_WORKQUEUE_BUFFER + OPERATOR_N_THREADS] \<and>
     (\<forall>t. pool_runs OPERATOR_N_THREADS d s t \<longrightarrow> jammed OPERATOR_N_THREADS t \<and> (\<nexists>u. work OPERATOR_N_THREADS d t u) \<and>
        op_queue (pl_op t) = op_queue (pl_op s) \<and> pl_done t = [])"
proof -
  obtain op where new: "Operator_new = Some (op :: 'k operator)" using operator_new by blast
  note op = operator_starts [OF new]
  have cap: "0 < ch_cap (op_queue op)" "\<not> ch_closed (op_queue op)"
    using op(1,4) by (simp_all add: op_ok_def OPERATOR_WORKQUEUE_BUFFER_def)
  obtain rl where run: "pool_runs OPERATOR_N_THREADS d (Operator_Run op)
      (filling op ks (ch_cap (op_queue op)) OPERATOR_N_THREADS rl)"
    using jams [OF cap order_refl, of OPERATOR_N_THREADS d ks "op_limiter op"] filling_start [OF op(2,3)] by auto
  define s where "s = filling op ks (ch_cap (op_queue op)) OPERATOR_N_THREADS rl"
  have jam: "jammed OPERATOR_N_THREADS s" unfolding s_def using filling_jammed [OF cap] .
  have s: "pl_added s = map ks [0..<OPERATOR_WORKQUEUE_BUFFER + OPERATOR_N_THREADS]" "pl_done s = []"
    by (simp_all add: s_def filling_def op(4))
  have ever: "jammed OPERATOR_N_THREADS t \<and> (\<nexists>u. work OPERATOR_N_THREADS d t u) \<and>
      op_queue (pl_op t) = op_queue (pl_op s) \<and> pl_done t = []" if "pool_runs OPERATOR_N_THREADS d s t" for t
    using jammed_for_ever [OF that jam] s(2) by (simp add: jammed_no_work)
  show ?thesis using new run [folded s_def] s(1) ever by blast
qed

lemma full_queue_stops_workers_witness:
  "\<exists>op s. Operator_new = Some op \<and> pool_runs OPERATOR_N_THREADS ''x'' (Operator_Run op) s \<and>
     pl_added s = map (\<lambda>_. ''f0'') [0..<OPERATOR_WORKQUEUE_BUFFER + OPERATOR_N_THREADS] \<and>
     jammed OPERATOR_N_THREADS s \<and> pl_done s = []"
proof -
  obtain op s where s: "Operator_new = Some op" "pool_runs OPERATOR_N_THREADS ''x'' (Operator_Run op) s"
      "pl_added s = map (\<lambda>_. ''f0'') [0..<OPERATOR_WORKQUEUE_BUFFER + OPERATOR_N_THREADS]"
    and jam: "\<forall>t. pool_runs OPERATOR_N_THREADS ''x'' s t \<longrightarrow> jammed OPERATOR_N_THREADS t \<and>
      (\<nexists>u. work OPERATOR_N_THREADS ''x'' t u) \<and> op_queue (pl_op t) = op_queue (pl_op s) \<and> pl_done t = []"
    using full_queue_stops_workers [of "''x''" "\<lambda>_. ''f0''"] by blast
  then show ?thesis using jam [rule_format, of s] by blast
qed

end
