(* ===== verification/Startup.thy ===== *)
theory Startup
  imports Counters Workers Nic Bootstrap
begin

text \<open>
  How a node starts: \<open>main\<close> of \<open>src/backend/main.cpp\<close> with \<open>Logger::InitLogger\<close>
  (\<open>src/logger/logger.cpp\<close>), the memory monitor, the work queue, the constructor of
  \<open>HttpCommunicator\<close> (\<open>src/communicator/http_communicator.cpp\<close>) and the bootstrap, in this order.
  The environment, the files of the memory cgroup and what brpc's server returns are arguments; so are
  the outcomes of the requests of the bootstrap, which theory \<open>Recovery\<close> models.
\<close>

section \<open>The log level\<close>

datatype log_level = Trace | Debug | Info | Warn | Err | Critical

definition SetLogLevel :: "int \<Rightarrow> log_level result" where
  "SetLogLevel level =
     (if level = 0 then Inr Trace else if level = 1 then Inr Debug else if level = 2 then Inr Info
      else if level = 3 then Inr Warn else if level = 4 then Inr Err else if level = 5 then Inr Critical
      else Inl (Fatal ''log level unsupported''))"

definition SPDLOG_DEFAULT_LOG_LEVEL :: int where "SPDLOG_DEFAULT_LOG_LEVEL = 0"

definition SPDLOG_LOG_DEFAULT_PATTERN :: string where
  "SPDLOG_LOG_DEFAULT_PATTERN = ''[%Y-%m-%d %H:%M:%S.%e] [%t] %^[%l]%$ [%!] %v''"

text \<open>The level and the pattern.\<close>

definition InitLogger :: "(string \<rightharpoonup> string) \<Rightarrow> (log_level \<times> string) result" where
  "InitLogger vars =
     and_then (SetLogLevel (atoi (GetEnv vars ''CKPT_ENGINE_LOG_LEVEL'' (Some (to_string SPDLOG_DEFAULT_LOG_LEVEL)))))
       (\<lambda>level. Inr (level, GetEnv vars ''CKPT_ENGINE_LOG_PATTERN'' (Some SPDLOG_LOG_DEFAULT_PATTERN)))"

section \<open>The HTTP server\<close>

text \<open>What \<open>AddService\<close> and \<open>Start\<close> return, the latter for a port.\<close>

record http_server =
  AddService :: int
  Start :: "16 word \<Rightarrow> int"

definition HttpCommunicator_new :: "http_server \<Rightarrow> endpoint \<Rightarrow> endpoint result" where
  "HttpCommunicator_new srv ep =
     (if AddService srv \<noteq> 0 then Inl (Fatal ''Fail to add http_svc'')
      else if Start srv (ep_port ep) \<noteq> 0 then Inl (Fatal ''Fail to start HttpServer'')
      else Inr ep)"

definition getHttpCommunicator :: "(string \<rightharpoonup> string) \<Rightarrow> http_server \<Rightarrow> endpoint result" where
  "getHttpCommunicator vars srv = and_then (getEndpoint vars ''http'') (HttpCommunicator_new srv)"

section \<open>main\<close>

record running =
  r_log :: "log_level \<times> string"
  r_monitor :: "string \<times> monitor"
  r_pool :: "string pool"
  r_http :: endpoint
  r_world :: world
  r_bootstrap :: "(retrieved \<times> nat list \<times> nat list) option"

text \<open>\<open>None\<close>: the bootstrap does not end, so the node is never marked ready.\<close>

definition main ::
  "(string \<rightharpoonup> string) \<Rightarrow> (string \<rightharpoonup> string) \<Rightarrow> size_t \<Rightarrow> size_t \<Rightarrow> http_server \<Rightarrow>
   (nat \<Rightarrow> bool) \<Rightarrow> bool \<Rightarrow> (nat \<Rightarrow> bool) \<Rightarrow> running option result" where
  "main vars files pages page_size srv retrive_checkpoint from_file_system trigger_checkpoint =
     and_then (InitLogger vars) (\<lambda>log.
     and_then (MemoryMonitor_start vars files pages page_size) (\<lambda>mon.
     case Operator_new of
       None \<Rightarrow> Inl (Fatal ''RateLimiter: Rate must be greater than 0'')
     | Some op \<Rightarrow>
         and_then (getHttpCommunicator vars srv) (\<lambda>ep.
         let w = WorldState_new vars in
         Inr (map_option
           (\<lambda>b. \<lparr>r_log = log, r_monitor = mon, r_pool = Operator_Run op, r_http = ep, r_world = w, r_bootstrap = b\<rparr>)
           (bootstrap vars w retrive_checkpoint from_file_system trigger_checkpoint)))))"

section \<open>What a start needs\<close>

lemma SetLogLevel_known: "(\<exists>l. SetLogLevel level = Inr l) \<longleftrightarrow> 0 \<le> level \<and> level \<le> 5"
  by (auto simp: SetLogLevel_def)

lemma default_level: "to_string SPDLOG_DEFAULT_LOG_LEVEL = ''0''"
  by code_simp

text \<open>spdlog's own level 6 (off), and every text that reads as another number, end the process.\<close>

lemma InitLogger_level:
  "(\<exists>l. InitLogger vars = Inr l) \<longleftrightarrow>
     (let level = atoi (GetEnv vars ''CKPT_ENGINE_LOG_LEVEL'' (Some ''0'')) in 0 \<le> level \<and> level \<le> 5)"
  using SetLogLevel_known by (auto simp: InitLogger_def and_then_Inr_iff default_level Let_def)

text \<open>The port is a number of 16 bits: what is configured counts modulo 65536.\<close>

lemma http_port:
  "getHttpCommunicator vars srv = Inr ep \<Longrightarrow>
     ep_port ep = word_of_int (atoi (GetEnv vars ''CKPT_ENGINE_HTTP_PORT'' (Some ''15345'')))"
  by (auto simp: getHttpCommunicator_def getEndpoint_def HttpCommunicator_new_def and_then_Inr_iff split: if_splits)

section \<open>Property\<close>


text \<open>A node that is alone, on a host whose counters read 4096 bytes of 8 GB.\<close>

definition demo_files :: "string \<rightharpoonup> string" where
  "demo_files = [MEM_CGROUP_DIR @ ''memory.usage_in_bytes'' \<mapsto> kernel_text 4096,
     MEM_CGROUP_DIR @ ''memory.max_usage_in_bytes'' \<mapsto> kernel_text 8192,
     MEM_CGROUP_DIR @ ''memory.limit_in_bytes'' \<mapsto> kernel_text 8589934592]"


end
