(* ===== verification/Parallel.thy ===== *)
theory Parallel
  imports Workers Progress
begin

text \<open>
  The worker threads of \<open>Operator::Run\<close> with their handler: theory \<open>Workers\<close> has the steps of the
  threads, theory \<open>Progress\<close> one worker with \<open>Coordinator::Reconcile\<close>; here all workers call a handler
  on one world, in any order.  One call of the handler is one step.
\<close>

section \<open>Workers that call a handler\<close>

text \<open>A worker returns from the handler with its answer; every other step leaves the workers in the
  handler where they are.\<close>

inductive reconciling :: "('k, 'w) handler \<Rightarrow> nat \<Rightarrow> 'k \<Rightarrow> 'k pool \<times> 'w \<Rightarrow> 'k pool \<times> 'w \<Rightarrow> bool" for h n d where
  calls: "i < n \<Longrightarrow> pl_worker s i = Handles k \<Longrightarrow> h k w = Inr (don, w') \<Longrightarrow>
    reconciling h n d (s, w)
      (if don then put_worker i Fetching (s\<lparr>pl_done := pl_done s @ [k]\<rparr>) else put_worker i (Requeues k) s, w')"
| moves: "work n d s t \<Longrightarrow> \<forall>i<n. \<forall>k. pl_worker s i = Handles k \<longrightarrow> pl_worker t i = Handles k \<Longrightarrow>
    reconciling h n d (s, w) (t, w)"

inductive_cases reconcilingE: "reconciling h n d (s, w) (t, w')"

lemma reconciling_work: "reconciling h n d (s, w) (t, w') \<Longrightarrow> work n d s t"
  by (erule reconcilingE) (auto intro: work.handled work.refused split: if_splits)

text \<open>The keys not yet handled with success, where they are, and how far they are on their way.\<close>

definition unfinished :: "nat \<Rightarrow> 'k pool \<Rightarrow> 'k multiset" where
  "unfinished n s = in_hands n s + mset (ch_queue (op_queue (pl_op s))) + mset (pl_adding s)"

fun place :: "'k worker \<Rightarrow> nat" where
  "place Fetching = 1"
| "place (Requeues k) = 4"
| "place (Pushes k) = 3"
| "place _ = 0"

definition way :: "nat \<Rightarrow> 'k pool \<Rightarrow> nat" where
  "way n s = (\<Sum>i<n. place (pl_worker s i)) + length (ch_queue (op_queue (pl_op s))) + 2 * length (pl_adding s)"

definition effort :: "('k \<Rightarrow> 'w \<Rightarrow> nat) \<Rightarrow> nat \<Rightarrow> 'k pool \<times> 'w \<Rightarrow> nat" where
  "effort cost n p = (\<Sum>k\<in>#unfinished n (fst p). Suc (cost k (snd p)))"

definition still_to_go :: "('k \<Rightarrow> 'w \<Rightarrow> nat) \<Rightarrow> nat \<Rightarrow> 'k pool \<times> 'w \<Rightarrow> nat \<times> nat" where
  "still_to_go cost n p = (effort cost n p, way n (fst p))"

lemma unfinished_added: "pool_inv n s \<Longrightarrow> mset (pl_done s) + unfinished n s = mset (pl_added s)"
  by (simp add: pool_inv_def unfinished_def add.assoc)

lemma unfinished_eq: "pool_inv n s \<Longrightarrow> unfinished n s = mset (pl_added s) - mset (pl_done s)"
  using unfinished_added [of n s] by (metis add_diff_cancel_left')

lemma way_put:
  "i < n \<Longrightarrow> way n (put_worker i c s) + place (pl_worker s i) = way n s + place c"
  using sum_thread [of i n place "pl_worker s" c] by (simp add: way_def del: fun_upd_apply)

lemma work_added: "work n d s t \<Longrightarrow> pl_added t = pl_added s"
  by (erule work.cases) simp_all

text \<open>A step outside the handler brings some key further on its way and finishes none.\<close>

lemma move_way:
  assumes "work n d s t" and "\<forall>i<n. \<forall>k. pl_worker s i = Handles k \<longrightarrow> pl_worker t i = Handles k" and inv: "pool_inv n s"
  shows "pl_done t = pl_done s \<and> way n t < way n s"
proof -
  have ok: "op_ok (pl_op s)" using inv by (simp add: pool_inv_def)
  from assms(1) show ?thesis
  proof (cases rule: work.cases)
    case (fetch i go)
    then show ?thesis using way_put [OF fetch(2), of "if go then Reading else Out_of_loop" s] by (simp split: if_splits)
  next
    case (read i v ch)
    obtain k where "ch_queue (op_queue (pl_op s)) = k # ch_queue ch" using queue_read [OF ok read(4)] by blast
    then have "way n (set_queue ch s) < way n s" by (simp add: way_def)
    then show ?thesis using read way_put [OF read(2), of _ "set_queue ch s"] by (metis add_0_right place.simps(4,5) pool_simps(7,10,4))
  next
    case (handled i k)
    then show ?thesis using assms(2) by auto
  next
    case (refused i k)
    then show ?thesis using assms(2) by auto
  next
    case (limited i k now wait rl)
    have "way n (set_limiter rl s) = way n s" by (simp add: way_def)
    then show ?thesis using limited way_put [OF limited(2), of "Pushes k" "set_limiter rl s"] by simp
  next
    case (requeued i k ch)
    have "way n (set_queue ch s) = Suc (way n s)" using queue_write [OF ok requeued(4)] by (simp add: way_def)
    then show ?thesis using requeued way_put [OF requeued(2), of Fetching "set_queue ch s"] by simp
  next
    case (enqueued xs k ys ch)
    then show ?thesis using queue_write [OF ok enqueued(3)] by (simp add: way_def)
  qed
qed

section \<open>Every run ends with every key done\<close>

lemma effort_mono:
  assumes "U \<subseteq># V" and "\<And>k. cost k w' \<le> cost k w"
  shows "(\<Sum>k\<in>#U. Suc (cost k w')) \<le> (\<Sum>k\<in>#V. Suc (cost k w))"
proof -
  obtain W where V: "V = U + W" using assms(1) by (auto simp: mset_subset_eq_exists_conv)
  have "(\<Sum>k\<in>#U. Suc (cost k w')) \<le> (\<Sum>k\<in>#U. Suc (cost k w))" using assms(2) by (intro sum_mset_mono) simp
  then show ?thesis by (simp add: V)
qed

context reconciler
begin

text \<open>What one step keeps and brings: a world in order, valid keys, and of each key that it takes off
  the unfinished ones the goal.\<close>

definition on_the_way :: "nat \<Rightarrow> 'k pool \<times> 'w \<Rightarrow> bool" where
  "on_the_way n p \<longleftrightarrow> pool_inv n (fst p) \<and> inv (snd p) \<and> (\<forall>k \<in># unfinished n (fst p). valid k) \<and>
     size (unfinished n (fst p)) \<le> ch_cap (op_queue (pl_op (fst p)))"

lemma handler_step:
  assumes way: "on_the_way n (s, w)" and "i < n" and "pl_worker s i = Handles k" and h: "h k w = Inr (don, w')"
    and t: "t = (if don then put_worker i Fetching (s\<lparr>pl_done := pl_done s @ [k]\<rparr>) else put_worker i (Requeues k) s)"
    and "pool_inv n t"
  shows "unfinished n s = unfinished n t + (if don then {#k#} else {#})" "effort cost n (t, w') < effort cost n (s, w)"
    "valid k"
proof -
  have inv: "pool_inv n s" "inv w" using way by (simp_all add: on_the_way_def)
  have dn: "mset (pl_done t) = mset (pl_done s) + (if don then {#k#} else {#})" "pl_added t = pl_added s" by (simp_all add: t)
  then have "mset (pl_done s) + unfinished n s = mset (pl_done s) + (unfinished n t + (if don then {#k#} else {#}))"
    using unfinished_added [OF inv(1)] unfinished_added [OF assms(6)] by (simp add: add.commute add.left_commute)
  then show u: "unfinished n s = unfinished n t + (if don then {#k#} else {#})" by (rule add_left_imp_eq)
  have "{#k#} \<subseteq># in_hands n s"
    using in_hands_set [OF assms(2), of Fetching s] assms(3) by (metis add.right_neutral in_hand.simps(1,4) mset_subset_eq_add_right)
  then have k: "k \<in># unfinished n s" by (simp add: unfinished_def)
  then show v: "valid k" using way by (simp add: on_the_way_def)
  have le: "cost k' w' \<le> cost k' w" for k' using no_setback [OF v inv(2) h] .
  show "effort cost n (t, w') < effort cost n (s, w)"
  proof (cases don)
    case True
    have "(\<Sum>k\<in>#unfinished n t. Suc (cost k w')) \<le> (\<Sum>k\<in>#unfinished n t. Suc (cost k w))"
      by (rule effort_mono) (simp_all add: le)
    then show ?thesis by (simp add: effort_def u True)
  next
    case False
    have less: "cost k w' < cost k w" using retry [OF v inv(2)] h False by simp
    obtain V where V: "unfinished n s = add_mset k V" using k by (metis insert_DiffM)
    have "(\<Sum>k\<in>#V. Suc (cost k w')) \<le> (\<Sum>k\<in>#V. Suc (cost k w))" by (rule effort_mono) (simp_all add: le)
    moreover have "unfinished n t = add_mset k V" using u V False by simp
    ultimately show ?thesis using less by (simp add: effort_def V)
  qed
qed

lemma reconciling_step:
  assumes step: "reconciling h n d (s, w) (t, w')" and way: "on_the_way n (s, w)"
  shows "on_the_way n (t, w') \<and> (still_to_go cost n (t, w'), still_to_go cost n (s, w)) \<in> less_than <*lex*> less_than \<and>
    (k \<in># unfinished n s \<or> goal k w \<longrightarrow> k \<in># unfinished n t \<or> goal k w') \<and> pl_added t = pl_added s"
proof -
  have inv: "pool_inv n s" "inv w" using way by (simp_all add: on_the_way_def)
  have wk: "work n d s t" using reconciling_work [OF step] .
  have t: "pool_inv n t" "ch_cap (op_queue (pl_op t)) = ch_cap (op_queue (pl_op s))" "pl_added t = pl_added s"
    using work_inv [OF wk inv(1)] work_cap [OF wk inv(1)] work_added [OF wk] by simp_all
  from step show ?thesis
  proof (rule reconcilingE)
    fix i j don
    assume c: "i < n" "pl_worker s i = Handles j" "h j w = Inr (don, w')"
      "t = (if don then put_worker i Fetching (s\<lparr>pl_done := pl_done s @ [j]\<rparr>) else put_worker i (Requeues j) s)"
    note hs = handler_step [OF way c t(1)]
    have "inv w'" "goal k w \<Longrightarrow> goal k w'" "don \<Longrightarrow> goal j w'"
      using returns [OF hs(3) inv(2)] c(3) goal_kept [OF hs(3) inv(2) c(3)] reached [OF hs(3) inv(2)] by auto
    then show ?thesis
      using way t hs(2) by (auto simp: on_the_way_def hs(1) still_to_go_def split: if_splits)
  next
    assume m: "w' = w" "work n d s t" "\<forall>i<n. \<forall>k. pl_worker s i = Handles k \<longrightarrow> pl_worker t i = Handles k"
    have "unfinished n t = unfinished n s" "way n t < way n s"
      using move_way [OF m(2,3) inv(1)] t unfinished_eq [OF inv(1)] unfinished_eq [OF t(1)] by simp_all
    then show ?thesis using way t m(1) by (simp add: on_the_way_def still_to_go_def effort_def)
  qed
qed

lemma reconciling_run:
  assumes "(reconciling h n d)\<^sup>*\<^sup>* (s, w) p" and "on_the_way n (s, w)"
  shows "on_the_way n p \<and> (\<forall>k \<in># unfinished n s. k \<in># unfinished n (fst p) \<or> goal k (snd p)) \<and> pl_added (fst p) = pl_added s"
  using assms(1)
proof (induction rule: rtranclp_induct)
  case base
  show ?case using assms(2) by simp
next
  case (step p q)
  obtain t u where pq: "p = (t, u)" by (cases p)
  obtain t' u' where q: "q = (t', u')" by (cases q)
  show ?case using step.IH reconciling_step [OF step.hyps(2) [unfolded pq q]] by (auto simp: pq q)
qed

text \<open>Where no step is possible every key is done.\<close>

lemma nothing_left:
  assumes "on_the_way n (s, w)" and "0 < n" and "\<nexists>q. reconciling h n d (s, w) q"
  shows "unfinished n s = {#}"
proof -
  have inv: "pool_inv n s" "inv w" using assms(1) by (simp_all add: on_the_way_def)
  have room: "size (mset (pl_added s)) \<le> ch_cap (op_queue (pl_op s)) + size (mset (pl_done s))"
    using assms(1) unfinished_added [OF inv(1), symmetric] by (simp add: on_the_way_def)
  have outside: "pl_worker s i \<noteq> Handles k" if i: "i < n" for i k
  proof
    assume k: "pl_worker s i = Handles k"
    have "in_hands n (put_worker i Fetching s) + {#k#} = in_hands n s" using in_hands_set [OF i, of Fetching s] k by simp
    then have "k \<in># unfinished n s" by (metis unfinished_def union_iff union_single_eq_member)
    then have "valid k" using assms(1) by (simp add: on_the_way_def)
    then obtain don w' where "h k w = Inr (don, w')" using returns [OF _ inv(2)] by blast
    from reconciling.calls [where h = h and d = d, OF i k this] show False using assms(3) by metis
  qed
  then have quiet: "\<forall>i<n. \<forall>k. pl_worker s i = Handles k \<longrightarrow> pl_worker t i = Handles k" for t by simp
  have still: "\<nexists>t. work n d s t"
  proof
    assume "\<exists>t. work n d s t"
    then obtain t where "work n d s t" ..
    from reconciling.moves [where h = h and w = w, OF this quiet] show False using assms(3) by metis
  qed
  have "\<forall>i<n. in_hand (pl_worker s i) = {#}" using worker_moves [OF inv(1) room, where d = d] still by blast
  then have none: "in_hands n s = {#}" by (simp add: in_hands_def)
  then show ?thesis
    using fetcher_moves [OF inv(1) assms(2), where d = d] adder_moves [OF inv(1) room, where d = d] still
    by (auto simp: unfinished_def)
qed

lemma no_endless_reconciling:
  assumes "on_the_way n (f 0)"
  shows "\<not> (\<forall>k. reconciling h n d (f k) (f (Suc k)))"
proof
  assume run: "\<forall>k. reconciling h n d (f k) (f (Suc k))"
  have way: "on_the_way n (f k)" for k
  proof (induction k)
    case 0
    show ?case using assms .
  next
    case (Suc k)
    then show ?case using reconciling_step [of n d "fst (f k)" "snd (f k)" "fst (f (Suc k))" "snd (f (Suc k))"] run by simp
  qed
  define g where "g = (\<lambda>k. still_to_go cost n (f k))"
  have "\<forall>k. (g (Suc k), g k) \<in> less_than <*lex*> less_than"
    unfolding g_def using way run
      reconciling_step [of n d "fst (f k)" "snd (f k)" "fst (f (Suc k))" "snd (f (Suc k))" for k] by simp
  moreover have "wf (less_than <*lex*> less_than)" by (simp add: wf_lex_prod)
  ultimately show False unfolding wf_iff_no_infinite_down_chain by blast
qed

end

section \<open>Property\<close>



end
