(* ===== verification/Spec2Isabelle.thy ===== *)
theory Spec2Isabelle
  imports Prelude Buffer Api Channel Iterations RateLimiter Operator Monitor Store Text Base64
    World MetaClient Coordinator Progress Bootstrap Memcpy Socket RdmaLink RdmaTransfer Nic
    Requests Handlers Protocol Leftovers Loading Answers Loader Http Service Fetch Window
    Wellformed Recovery Restart Replication Strings Counters Cluster Wakeups Workers Startup
    Parallel
begin

text \<open>
  A verification development for the transom checkpoint engine (\<open>src/\<close>), a server that runs on
  every node of a training job.  It keeps the checkpoint files of its node in shared memory,
  copies them to the next node of a ring over RDMA and to disk, and gives them back after a
  failure.  Paths below are relative to \<open>src/transom_snapshot_server\<close>.

  \<^bold>\<open>The program and the theories\<close>

  A Python client copies tensors into a shared memory file (\<open>Memcpy\<close>, from
  \<open>src/transomSnapshot/transom_memcpy/transom_memcpy.cpp\<close>) and tells the server over HTTP.  The
  server records the file in a MySQL table (\<open>MetaClient\<close>, from \<open>src/storage/metadata.cpp\<close>) and in
  its index of cached entries (\<open>Store\<close>, from \<open>src/storage/storage.cpp\<close>), accounts for its memory
  (\<open>Monitor\<close>, from \<open>src/monitor/monitor.cpp\<close> and the allocation part of \<open>src/util/util.cpp\<close>), and
  puts its name into a work queue: \<open>Operator\<close>, from \<open>src/operator/operator.cpp\<close>, on top of
  \<open>Channel\<close> (\<open>include/util/channel.h\<close>) and \<open>RateLimiter\<close> (\<open>src/operator/rate_limiter.cpp\<close>).  The
  workers of the queue call \<open>Coordinator::Reconcile\<close> (\<open>Coordinator\<close>), which takes the file one
  state further: backed up on the next node of the ring (\<open>World\<close>, from \<open>include/config/world.h\<close>),
  then on disk.

  Nodes talk over a TCP connection (\<open>Socket\<close>) that sets up an RDMA link (\<open>RdmaLink\<close>) and moves the
  data with it (\<open>RdmaTransfer\<close>), all three from \<open>src/communicator/rdma_communicator.cpp\<close>; the card
  a connection uses is chosen in \<open>Nic\<close> (\<open>src/util/nic_helper.cpp\<close> and the life of a communicator).
  What is said over the connection are the messages of \<open>Api\<close> (\<open>include/api/api.h\<close>; their texts are
  \<open>Strings\<close>), written into the marshalling buffer of \<open>Buffer\<close> (\<open>include/buffer/buffer.h\<close>).
  \<open>Requests\<close> are the requests a node makes of its neighbours (\<open>src/coordinator/client.cpp\<close>) and
  \<open>Handlers\<close> the server that answers them (\<open>src/coordinator/server.cpp\<close>); \<open>Protocol\<close>, \<open>Loading\<close>
  and \<open>Answers\<close> put the two sides of one connection together, \<open>Leftovers\<close> follows what a request
  acquires and gives back, and \<open>Replication\<close> lets \<open>Reconcile\<close> make its request over such a
  connection.

  \<open>Http\<close> is the HTTP service (\<open>include/communicator/http/http_service_impl.h\<close>) and \<open>Loader\<close> its
  loader of files of other nodes (\<open>remote_file_loader.h\<close>); \<open>Service\<close>, \<open>Fetch\<close> and \<open>Window\<close> state
  what creating, getting and deleting files come to, the latter with the record of cached
  iterations (\<open>Iterations\<close>, from \<open>include/config/iteration_manager.h\<close>).  \<open>Wellformed\<close> is the type
  of a node's state that every operation keeps.

  A node starts with \<open>main\<close> (\<open>Startup\<close>; \<open>Counters\<close> is how the monitor reads the memory cgroup) and
  with \<open>Coordinator::bootstrap\<close>: \<open>Bootstrap\<close> has its two retry loops, \<open>Recovery\<close> what one attempt
  does, \<open>Restart\<close> the attempt that reads the node's own disk, \<open>Cluster\<close> all nodes of a job
  together.  \<open>Text\<close> and \<open>Base64\<close> are the string functions of \<open>src/util/util.cpp\<close>.  \<open>Prelude\<close> has
  the machine integers, the outcome type and raw memory; \<open>Progress\<close> composes the work queue with
  \<open>Reconcile\<close>.

  \<^bold>\<open>State and operations\<close>

  A class with state is a record (\<open>buffer\<close>, \<open>channel\<close>, \<open>rate_limiter\<close>, \<open>operator\<close>, \<open>monitor\<close>,
  \<open>storage\<close>, \<open>world\<close>, \<open>rdma_comm\<close>, \<open>communicator\<close>, \<open>nic_helper\<close>, \<open>device\<close>, \<open>node\<close>) and a method a
  definition with the method's name that takes the state and returns the next one.  \<open>size_t\<close> and
  the fixed-width integers are words and wrap; \<open>int\<close> values are HOL integers with \<open>int_range\<close>
  where the width matters.  \<open>LOG_FATAL\<close>, which ends the process, and undefined behaviour are the
  two constructors of \<open>fault\<close>; a call that can run into them has a \<open>result\<close>, one that may also not
  return an \<open>outcome\<close>.  \<open>sync_read\<close>, \<open>strlen\<close> and the loops that wait for another thread or node
  (\<open>retrieve_loop\<close>, \<open>trigger_loop\<close>, \<open>wait_ready\<close>, \<open>wait_previous\<close>, \<open>wait_deleted\<close>,
  \<open>WaitUntilFileReady\<close>, \<open>AddKey\<close>) are partial functions: \<open>None\<close> says that they do not return, and
  the theorems say when they do.  \<open>poll_loop\<close> and \<open>watch\<close> run over the finite script of what the
  polls and the clock show.  \<open>execute\<close>, the loop of a connection, has as fuel one more than the
  bytes its peer still sends, since each round takes at least one (\<open>connection_loop_ends\<close>);
  \<open>drain\<close> and \<open>run_rounds\<close> take the clock readings of their rounds, and \<open>Progress\<close> proves how many
  are enough.

  The state of a node is the record \<open>engine\<close> (table, cards, verbs objects, index, monitor, memory,
  work queue, iterations); with the loader of the HTTP service it is a \<open>front\<close>, with the others a
  \<open>cluster\<close>; a connection is a \<open>conn\<close>.  The operations of one node run one after the other: the
  tasks of a batch and the accepted connections are taken in order, and what other threads have
  done by the end of each pause of a request is the argument \<open>others\<close>, about which a theorem that
  needs it says what it assumes.  Where threads meet, there are step relations over all
  interleavings: \<open>ch_step\<close> (one writer and many readers of a channel), \<open>wk_step\<close> (the same with
  mutex, condition variable and sleep, which refines it), \<open>pool_step\<close> (the workers of the queue
  and the threads that add keys), \<open>reconciling\<close> (the same with the handler, one call at a time),
  \<open>cluster_step\<close> (the bootstraps of all nodes); threads that copy tensors are a list of copies run
  in an arbitrary order.

  \<^bold>\<open>Parameters and hypotheses\<close>

  Code that is not under \<open>src/\<close> is an argument of the definitions that use it, and what the
  program relies on is a named hypothesis: \<open>sql_server\<close> (what the few statement forms mean to the
  MySQL server; \<open>mem_sql\<close> is an instance), \<open>modify_contract\<close> (which queue pair transitions
  \<open>ibv_modify_qp\<close> accepts), \<open>nic_contract\<close> (what a completed RDMA request does to the two
  memories).  Theorems on a whole conversation assume with \<open>talk\<close> what bytes each side has to
  read; \<open>Socket\<close> has the ones on fragments.  The allocator, the kernel's sockets (the fragments
  each call moves and how a stream ends), the cgroup counters, the answers of the verbs library,
  the name resolver, the disk and the clock are plain arguments, so that the theorems hold for all
  of their answers.

  \<^bold>\<open>Interfaces\<close>

  Locales state what a component relies on, each interpreted on the model itself: \<open>serializable\<close>
  (every message class implements \<open>Marshal\<close> and \<open>Unmarshal\<close>), \<open>entry_store\<close> (the index of cached
  entries), \<open>meta_table\<close> and \<open>reliable_table\<close> (the metadata table, for the \<open>MysqlClient\<close> over any
  server that satisfies \<open>sql_server\<close>), \<open>reconciler\<close> (a handler of the work queue under which the
  queue empties, for \<open>Coordinator::Reconcile\<close>).

  \<^bold>\<open>What the lemmas show\<close>

  \<open>Buffer\<close>, \<open>Api\<close>, \<open>Socket\<close>: the bytes a message is written as, that they are read back unchanged,
  alone and over a connection that moves them in any fragments.  \<open>RdmaLink\<close>, \<open>RdmaTransfer\<close>: the
  handshake connects both sides, resources are held all or none, a transfer that returns true has
  moved exactly the caller's bytes.  \<open>MetaClient\<close>: the statements the client composes parse to
  what is meant; the table operations do what their names say.  \<open>Store\<close>, \<open>Monitor\<close>: the index and
  the memory account.  \<open>Channel\<close>: nothing is lost or duplicated under any interleaving.
  \<open>Coordinator\<close>: \<open>Reconcile\<close> refines the abstract life cycle \<open>ckpt_step\<close>, and a file marked
  persistent is on disk.  \<open>Progress\<close>: a queue of files is emptied and every file is persistent,
  and \<open>Parallel\<close>: by all workers together as well; \<open>Workers\<close>: no key is lost, and what a full
  queue does; \<open>Wakeups\<close>: every batch is handled, and what closing does to a reader that is about
  to sleep.  \<open>Protocol\<close>, \<open>Loading\<close>, \<open>Replication\<close>: a file that is backed up or loaded is on the
  other side byte for byte.  \<open>Service\<close>, \<open>Window\<close>, \<open>Fetch\<close>: what the HTTP client gets.  \<open>Restart\<close>,
  \<open>Recovery\<close>, \<open>Cluster\<close>, \<open>Startup\<close>: what a node has after a restart, and when it gets ready.  Each
  theory also has the theorems that state where the code does not do what its comments or its
  callers expect.

  \<^bold>\<open>Not modelled\<close>

  The output of the log, and with it the evaluation of log arguments in the operations; the
  mapping of HTTP paths to operations, which brpc does; \<open>GetThreadID\<close>, which is only logged; CUDA
  errors, which end the process; the values of \<open>config.h\<close> that only libraries see.  Data races on
  unsynchronised members, wake-ups without a notification, and sleeping writers of a bounded
  channel are outside the step relations.  The tests and the Python package's own code are not
  part of the model.
\<close>

end
